(* ===== verification/Prelude.thy ===== *)
theory Prelude
  imports Main "HOL-Library.Word" "HOL-Library.Monad_Syntax" "HOL-Library.Sublist"
    "HOL-Library.Signed_Division"
begin

text \<open>
  What every component shares: the machine integers of the C code, the byte-addressed
  RAM with its little-endian 32-bit accesses, contiguous regions of RAM, loops that fill
  a region, and the record of the machine (RAM and the devices behind the I/O ports) that
  the components extend with their own globals.

  A C function that may not return (a loop over a list in memory, a busy-wait on a device
  register) or that runs into behaviour the C standard leaves undefined has an
  \<open>option\<close> result: \<open>None\<close> is "no normal return". States are passed explicitly, in the
  \<open>option\<close> monad with \<open>do\<close> notation where there is more than one such call.
\<close>

unbundle bit_operations_syntax

named_theorems unat_arith_simps \<open>sums of addresses that do not wrap, read as naturals\<close>
named_theorems ram_simps \<open>reading the RAM back after a write to it\<close>

section \<open>Machine integers\<close>

type_synonym u8 = "8 word"
type_synonym u16 = "16 word"
type_synonym u32 = "32 word"

text \<open>The type \<open>int\<close> of C is 32 bits wide on the target; a value that is stored back into
  a \<open>uint32_t\<close> is converted with \<open>word_of_int\<close>, one that is read from it with \<open>sint\<close>.\<close>

definition char_of :: "char \<Rightarrow> u8" where
  "char_of c = of_char c"

definition bytes_of :: "string \<Rightarrow> u8 list" where
  "bytes_of s = map char_of s"

lemma unat_plus [unat_arith_simps]:
  fixes a b :: u32
  assumes "unat a + unat b < 4294967296"
  shows "unat (a + b) = unat a + unat b"
  using assms by (simp add: unat_word_ariths)

lemma unat_plus_of_nat [unat_arith_simps]:
  fixes a :: u32
  assumes "unat a + n < 4294967296"
  shows "unat (a + of_nat n) = unat a + n"
  using assms by (simp add: unat_word_ariths unat_of_nat)

lemma unat_less_2p32 [simp]: "unat (a :: u32) < 4294967296"
proof -
  have "unat a < 2 ^ LENGTH(32)" by (rule unsigned_less)
  then show ?thesis by simp
qed

lemma unat_minus_le:
  fixes a b :: u32
  assumes "unat b \<le> unat a"
  shows "unat (a - b) = unat a - unat b"
  using assms by (simp add: unat_sub word_le_nat_alt)

text \<open>The division of C rounds towards zero; on non-negative operands it is \<open>div\<close>.\<close>

lemma sdiv_nonneg:
  fixes a b :: int
  assumes "0 \<le> a" "0 < b"
  shows "a sdiv b = a div b"
  using assms by (cases "a = 0") (simp_all add: signed_divide_int_def)

section \<open>Pages\<close>

text \<open>Splitting an address at the 4096-byte page boundary with the masks of the C code.\<close>

lemma mask12: "(0xFFF :: u32) = mask 12"
  by (simp add: mask_eq_exp_minus_1)
lemma notmask12: "(0xFFFFF000 :: u32) = NOT (mask 12)"
  by (simp add: mask_eq_exp_minus_1)

lemma unat_low12: "unat ((x :: u32) AND 0xFFF) = unat x mod 4096"
  by (simp add: mask12 take_bit_eq_mask [symmetric] unsigned_take_bit_eq take_bit_eq_mod unat_mod)

lemma low_high12: "((x :: u32) AND 0xFFFFF000) + (x AND 0xFFF) = x"
  unfolding mask12 notmask12
  by (subst disjunctive_add) (auto simp: bit_simps intro!: bit_word_eqI)

lemma unat_high12: "unat ((x :: u32) AND 0xFFFFF000) = unat x - unat x mod 4096"
proof -
  have "(x AND 0xFFFFF000) = x - (x AND 0xFFF)"
    using low_high12 [of x] by (metis add_diff_cancel_right')
  moreover have "unat (x AND 0xFFF) \<le> unat x"
    by (simp add: unat_low12)
  ultimately show ?thesis by (simp add: unat_minus_le unat_low12)
qed
section \<open>RAM\<close>

type_synonym ram = "u32 \<Rightarrow> u8"

definition read32 :: "ram \<Rightarrow> u32 \<Rightarrow> u32" where
  "read32 m a = ucast (m a) OR push_bit 8 (ucast (m (a + 1)))
     OR push_bit 16 (ucast (m (a + 2))) OR push_bit 24 (ucast (m (a + 3)))"

definition write32 :: "ram \<Rightarrow> u32 \<Rightarrow> u32 \<Rightarrow> ram" where
  "write32 m a v = m(a := ucast v, a + 1 := ucast (drop_bit 8 v),
     a + 2 := ucast (drop_bit 16 v), a + 3 := ucast (drop_bit 24 v))"

text \<open>The addresses \<open>a, \<dots>, a + n - 1\<close>, read as naturals: a region never wraps around.\<close>

definition region :: "u32 \<Rightarrow> nat \<Rightarrow> u32 set" where
  "region a n = {x. unat a \<le> unat x \<and> unat x < unat a + n}"

lemma in_region [simp]: "x \<in> region a n \<longleftrightarrow> unat a \<le> unat x \<and> unat x < unat a + n"
  by (simp add: region_def)

lemma region_0 [simp]: "region a 0 = {}"
  by (auto simp: region_def)

lemma region_self: "0 < n \<Longrightarrow> a \<in> region a n"
  by simp

lemma region_subset:
  "unat a \<le> unat b \<Longrightarrow> unat b + k \<le> unat a + n \<Longrightarrow> region b k \<subseteq> region a n"
  by (auto simp: region_def)

lemma region_disjoint:
  "unat a + n \<le> unat b \<or> unat b + k \<le> unat a \<Longrightarrow> region a n \<inter> region b k = {}"
  by (auto simp: region_def)

lemma region_disjoint_iff:
  assumes "0 < n" "0 < k"
  shows "region a n \<inter> region b k = {} \<longleftrightarrow> unat a + n \<le> unat b \<or> unat b + k \<le> unat a"
proof
  assume d: "region a n \<inter> region b k = {}"
  show "unat a + n \<le> unat b \<or> unat b + k \<le> unat a"
  proof (cases "unat a \<le> unat b")
    case True
    have "b \<notin> region a n" using d region_self [of k b] assms by blast
    with True show ?thesis by simp
  next
    case False
    have "a \<notin> region b k" using d region_self [of n a] assms by blast
    with False show ?thesis by simp
  qed
qed (rule region_disjoint)

lemma read32_write32_same [ram_simps, simp]: "read32 (write32 m a v) a = v"
proof (rule bit_word_eqI)
  fix n :: nat
  assume "n < LENGTH(32)"
  then consider "n < 8" | "8 \<le> n" "n < 16" | "16 \<le> n" "n < 24" | "24 \<le> n" "n < 32"
    by fastforce
  then show "bit (read32 (write32 m a v) a) n = bit v n"
    by cases (auto simp: read32_def write32_def bit_simps)
qed

lemma write32_outside [ram_simps]:
  assumes "unat a + 4 \<le> 4294967296" "x \<notin> region a 4"
  shows "write32 m a v x = m x"
  using assms by (auto simp: write32_def unat_word_ariths)

lemma read32_cong:
  assumes "unat a + 4 \<le> 4294967296" "\<And>x. x \<in> region a 4 \<Longrightarrow> m x = m' x"
  shows "read32 m a = read32 m' a"
proof -
  have "a \<in> region a 4" "a + 1 \<in> region a 4" "a + 2 \<in> region a 4" "a + 3 \<in> region a 4"
    using assms(1) by (auto simp: unat_word_ariths)
  then show ?thesis by (simp add: read32_def assms(2))
qed

lemma read32_write32_disj [ram_simps]:
  assumes "unat a + 4 \<le> 4294967296" "unat b + 4 \<le> 4294967296"
    and "unat a + 4 \<le> unat b \<or> unat b + 4 \<le> unat a"
  shows "read32 (write32 m b v) a = read32 m a"
  by (rule read32_cong [OF assms(1)], rule write32_outside [OF assms(2)])
    (use assms(3) in auto)

end
