(* ===== verification/CString.thy ===== *)
theory CString
  imports Prelude "HOL-Library.List_Lexorder"
begin

text \<open>
  The string library, \<open>src/string/string.c\<close>. A pointer into an object of \<open>k\<close> remaining
  bytes is the list of these \<open>k\<close> bytes; reading or writing past its end is the behaviour C
  leaves undefined, and is \<open>None\<close>. A buffer that a function fills is returned updated.
\<close>

named_theorems cstring_simps \<open>the string functions on NUL-terminated strings\<close>

section \<open>Functions\<close>

definition rd :: "'a list \<Rightarrow> nat \<Rightarrow> 'a option" where
  "rd xs i = (if i < length xs then Some (xs ! i) else None)"

definition wr :: "'a list \<Rightarrow> nat \<Rightarrow> 'a \<Rightarrow> 'a list option" where
  "wr xs i v = (if i < length xs then Some (xs[i := v]) else None)"

fun strlen :: "u8 list \<Rightarrow> nat option" where
  "strlen [] = None"
| "strlen (c # str) = (if c \<noteq> 0 then map_option Suc (strlen str) else Some 0)"

text \<open>The two loops of \<open>strncpy\<close> share the index \<open>i\<close>.\<close>

function strncpy_copy :: "u8 list \<Rightarrow> u8 list \<Rightarrow> nat \<Rightarrow> nat \<Rightarrow> (u8 list \<times> nat) option" where
  "strncpy_copy dest src n i =
     (if i < n then do {
        c \<leftarrow> rd src i;
        if c \<noteq> 0 then do { dest \<leftarrow> wr dest i c; strncpy_copy dest src n (i + 1) }
        else Some (dest, i)
      } else Some (dest, i))"
  by auto
termination by (relation "measure (\<lambda>(dest, src, n, i). n - i)") auto

function strncpy_pad :: "u8 list \<Rightarrow> nat \<Rightarrow> nat \<Rightarrow> u8 list option" where
  "strncpy_pad dest n i =
     (if i < n then do { dest \<leftarrow> wr dest i 0; strncpy_pad dest n (i + 1) } else Some dest)"
  by auto
termination by (relation "measure (\<lambda>(dest, n, i). n - i)") auto

declare strncpy_copy.simps [simp del] strncpy_pad.simps [simp del]

definition strncpy :: "u8 list \<Rightarrow> u8 list \<Rightarrow> nat \<Rightarrow> u8 list option" where
  "strncpy dest src n = do {
     (dest, i) \<leftarrow> strncpy_copy dest src n 0;
     strncpy_pad dest n i
   }"

text \<open>\<open>char\<close> is signed on the target.\<close>

definition isdigit :: "u8 \<Rightarrow> bool" where
  "isdigit c \<longleftrightarrow> 48 \<le> sint c \<and> sint c \<le> 57"

text \<open>\<open>strchr\<close> gives the index of the character found, or \<open>NULL\<close>, here the inner \<open>None\<close>.\<close>

fun strchr :: "u8 list \<Rightarrow> int \<Rightarrow> nat option option" where
  "strchr [] c = None"
| "strchr (x # str) c =
     (if x \<noteq> word_of_int c
      then if x = 0 then Some None else map_option (map_option Suc) (strchr str c)
      else Some (Some 0))"

fun memset_loop :: "u8 list \<Rightarrow> int \<Rightarrow> nat list \<Rightarrow> u8 list option" where
  "memset_loop ptr c [] = Some ptr"
| "memset_loop ptr c (i # is) = do { ptr \<leftarrow> wr ptr i (word_of_int c); memset_loop ptr c is }"

definition memset :: "u8 list \<Rightarrow> int \<Rightarrow> nat \<Rightarrow> u8 list option" where
  "memset ptr c size' = memset_loop ptr c [0..<size']"

fun strncmp :: "u8 list \<Rightarrow> u8 list \<Rightarrow> nat \<Rightarrow> int option" where
  "strncmp str1 str2 0 = Some 0"
| "strncmp str1 str2 (Suc n) = do {
     u1 \<leftarrow> rd str1 0;
     u2 \<leftarrow> rd str2 0;
     if u1 \<noteq> u2 then Some (uint u1 - uint u2)
     else if u1 = 0 then Some 0
     else strncmp (tl str1) (tl str2) n
   }"

definition tolower :: "int \<Rightarrow> int" where
  "tolower c = (if 65 \<le> c \<and> c \<le> 90 then c + 32 else c)"

definition toupper :: "int \<Rightarrow> int" where
  "toupper c = (if 97 \<le> c \<and> c \<le> 122 then c - 32 else c)"

text \<open>In the loop \<open>n\<close> has already been decremented when it is tested again.\<close>

fun strncasecmp_loop :: "u8 list \<Rightarrow> u8 list \<Rightarrow> nat \<Rightarrow> int option" where
  "strncasecmp_loop s1 s2 0 = do {
     c1 \<leftarrow> rd s1 0; c2 \<leftarrow> rd s2 0;
     Some (toupper (uint c1) - toupper (uint c2))
   }"
| "strncasecmp_loop s1 s2 (Suc n) = do {
     c1 \<leftarrow> rd s1 0;
     c2 \<leftarrow> rd s2 0;
     if toupper (uint c1) = toupper (uint c2)
     then if n = 0 \<or> c1 = 0 then Some 0 else strncasecmp_loop (tl s1) (tl s2) n
     else Some (toupper (uint c1) - toupper (uint c2))
   }"

definition strncasecmp :: "u8 list \<Rightarrow> u8 list \<Rightarrow> nat \<Rightarrow> int option" where
  "strncasecmp s1 s2 n = (if n = 0 then Some 0 else strncasecmp_loop s1 s2 n)"

fun memcpy :: "u8 list \<Rightarrow> u8 list \<Rightarrow> nat \<Rightarrow> u8 list option" where
  "memcpy d s 0 = Some d"
| "memcpy (x # d) (c # s) (Suc n) = map_option ((#) c) (memcpy d s n)"
| "memcpy d s (Suc n) = None"

fun strcpy :: "u8 list \<Rightarrow> u8 list \<Rightarrow> u8 list option" where
  "strcpy (x # d) (c # src) = (if c \<noteq> 0 then map_option ((#) c) (strcpy d src) else Some (c # d))"
| "strcpy d src = None"

fun strcmp :: "u8 list \<Rightarrow> u8 list \<Rightarrow> int option" where
  "strcmp (c1 # str1) (c2 # str2) =
     (if c1 \<noteq> 0 \<and> c1 = c2 then strcmp str1 str2 else Some (uint c1 - uint c2))"
| "strcmp str1 str2 = None"

section \<open>Strings in objects\<close>

text \<open>The string a pointer denotes: the bytes before the first NUL, when there is one.\<close>

definition terminated :: "u8 list \<Rightarrow> bool" where
  "terminated xs \<longleftrightarrow> 0 \<in> set xs"

definition str_of :: "u8 list \<Rightarrow> u8 list" where
  "str_of xs = takeWhile (\<lambda>c. c \<noteq> 0) xs"

definition as_cstring :: "u8 list \<Rightarrow> u8 list" where
  "as_cstring s = s @ [0]"

text \<open>The string literals of the C code.\<close>

definition lit :: "string \<Rightarrow> u8 list" where
  "lit s = bytes_of s @ [0]"

definition lit_nl :: "string \<Rightarrow> u8 list" where
  "lit_nl s = bytes_of s @ [10, 0]"

lemmas chars = lit_def lit_nl_def bytes_of_def char_of_def of_char_def

lemma str_of_simps [simp]:
  "str_of [] = []" "str_of (c # xs) = (if c = 0 then [] else c # str_of xs)"
  by (simp_all add: str_of_def)

lemma terminated_simps [simp]:
  "\<not> terminated []" "terminated (c # xs) \<longleftrightarrow> c = 0 \<or> terminated xs"
  by (auto simp: terminated_def)

lemma terminated_append [simp]: "terminated (xs @ ys) \<longleftrightarrow> terminated xs \<or> terminated ys"
  by (auto simp: terminated_def)

lemma str_of_append: "0 \<notin> set s \<Longrightarrow> str_of (s @ ys) = s @ str_of ys"
  by (induction s) auto

lemma str_of_as_cstring [simp]: "0 \<notin> set s \<Longrightarrow> str_of (as_cstring s) = s"
  by (simp add: as_cstring_def str_of_append)

lemma terminated_as_cstring [simp]: "terminated (as_cstring s)"
  by (simp add: as_cstring_def)

lemma str_of_no_NUL: "0 \<notin> set (str_of xs)"
  by (auto simp: str_of_def dest: set_takeWhileD)

lemma str_of_less: "terminated xs \<Longrightarrow> length (str_of xs) < length xs"
  by (induction xs) auto

lemma str_of_nth:
  "i < length (str_of xs) \<Longrightarrow> i < length xs \<and> str_of xs ! i = xs ! i \<and> xs ! i \<noteq> 0"
proof (induction xs arbitrary: i)
  case (Cons c xs)
  then show ?case by (cases i) (auto split: if_splits)
qed simp

lemma str_of_unterminated: "\<not> terminated xs \<Longrightarrow> str_of xs = xs"
  by (induction xs) auto

lemma str_of_end: "terminated xs \<Longrightarrow> xs ! length (str_of xs) = 0"
  by (induction xs) auto

section \<open>What the functions compute\<close>

lemma strlen_spec [cstring_simps]:
  "strlen xs = (if terminated xs then Some (length (str_of xs)) else None)"
  by (induction xs) auto

lemma uint_eq [simp]: "uint a = uint b \<longleftrightarrow> a = b" for a b :: "'a::len word"
  by (simp add: word_uint_eq_iff)

lemma uint_pos [simp]: "0 < uint a \<longleftrightarrow> a \<noteq> 0" for a :: "'a::len word"
  using unsigned_greater_eq [of a] by (auto simp: order.order_iff_strict simp flip: uint_0_iff)

lemma strcmp_zero:
  assumes "terminated xs" "terminated ys"
  shows "\<exists>r. strcmp xs ys = Some r \<and> (r = 0 \<longleftrightarrow> str_of xs = str_of ys)"
  using assms by (induction xs ys rule: strcmp.induct) (auto simp: unsigned_eq_0_iff)

text \<open>The sign of \<open>strcmp\<close> is the lexicographic order of the strings as unsigned bytes.\<close>

lemma strcmp_less:
  assumes "terminated xs" "terminated ys"
  shows "\<exists>r. strcmp xs ys = Some r \<and> (r < 0 \<longleftrightarrow> str_of xs < str_of ys)"
  using assms
proof (induction xs ys rule: strcmp.induct)
  case (1 c1 s1 c2 s2)
  show ?case
  proof (cases "c1 \<noteq> 0 \<and> c1 = c2")
    case True
    then show ?thesis using 1 by auto
  next
    case False
    then show ?thesis
      using False by (auto simp: word_less_def)
  qed
qed simp_all

lemma strcmp_antisym:
  "strcmp xs ys = Some r \<Longrightarrow> strcmp ys xs = Some (- r)"
  by (induction xs ys arbitrary: r rule: strcmp.induct) (auto split: if_splits)

lemma strncmp_zero:
  assumes "terminated xs" "terminated ys"
  shows "\<exists>r. strncmp xs ys n = Some r
    \<and> (r = 0 \<longleftrightarrow> take n (str_of xs) = take n (str_of ys))"
  using assms
proof (induction n arbitrary: xs ys)
  case (Suc n)
  obtain c1 s1 c2 s2 where "xs = c1 # s1" "ys = c2 # s2"
    using Suc.prems by (cases xs; cases ys) auto
  then show ?case using Suc by (auto simp: rd_def)
qed simp

text \<open>Comparison up to the case of letters.\<close>

definition upcase :: "u8 list \<Rightarrow> int list" where
  "upcase = map (\<lambda>c. toupper (uint c))"

lemma upcase_simps [simp]:
  "upcase [] = []" "upcase (c # s) = toupper (uint c) # upcase s"
  "upcase s = [] \<longleftrightarrow> s = []"
  by (simp_all add: upcase_def)

lemma toupper_zero [simp]:
  "toupper (uint (c :: u8)) = 0 \<longleftrightarrow> c = 0" "0 = toupper (uint (c :: u8)) \<longleftrightarrow> c = 0"
  using unsigned_greater_eq [of c] by (auto simp: toupper_def simp flip: uint_0_iff)

lemma toupper_0 [simp]: "toupper 0 = 0"
  by (simp add: toupper_def)

lemma strncasecmp_loop_zero:
  assumes "terminated xs" "terminated ys"
  shows "\<exists>r. strncasecmp_loop xs ys (Suc n) = Some r
    \<and> (r = 0 \<longleftrightarrow> upcase (take (Suc n) (str_of xs)) = upcase (take (Suc n) (str_of ys)))"
  using assms
proof (induction n arbitrary: xs ys)
  case 0
  obtain c1 s1 c2 s2 where "xs = c1 # s1" "ys = c2 # s2"
    using 0 by (cases xs; cases ys) auto
  then show ?case by (auto simp: rd_def)
next
  case (Suc n)
  obtain c1 s1 c2 s2 where eq: "xs = c1 # s1" "ys = c2 # s2"
    using Suc.prems by (cases xs; cases ys) auto
  show ?case
  proof (cases "c1 = 0 \<or> c2 = 0 \<or> toupper (uint c1) \<noteq> toupper (uint c2)")
    case True
    then show ?thesis by (auto simp: eq rd_def)
  next
    case False
    then have "terminated s1" "terminated s2" using Suc.prems by (simp_all add: eq)
    from Suc.IH [OF this] show ?thesis using False by (auto simp: eq rd_def)
  qed
qed

lemma strncasecmp_zero:
  assumes "terminated xs" "terminated ys"
  shows "\<exists>r. strncasecmp xs ys n = Some r
    \<and> (r = 0 \<longleftrightarrow> upcase (take n (str_of xs)) = upcase (take n (str_of ys)))"
  using strncasecmp_loop_zero [OF assms] by (cases n) (simp_all add: strncasecmp_def)

lemma strchr_spec:
  assumes "terminated xs" "word_of_int c \<noteq> (0 :: u8)"
  shows "strchr xs c = Some (if word_of_int c \<in> set (str_of xs)
    then Some (length (takeWhile (\<lambda>x. x \<noteq> word_of_int c) (str_of xs))) else None)"
  using assms by (induction xs) auto

lemma memcpy_spec:
  "n \<le> length d \<Longrightarrow> n \<le> length s \<Longrightarrow> memcpy d s n = Some (take n s @ drop n d)"
  by (induction d s n rule: memcpy.induct) auto

lemma strcpy_spec:
  "terminated src \<Longrightarrow> strcpy d src = (if length (str_of src) < length d
    then Some (str_of src @ 0 # drop (Suc (length (str_of src))) d) else None)"
  by (induction d src rule: strcpy.induct) auto

lemma memset_loop_spec:
  "(\<forall>i \<in> set is. i < length p) \<Longrightarrow>
    \<exists>p'. memset_loop p c is = Some p' \<and> length p' = length p
      \<and> (\<forall>j < length p. p' ! j = (if j \<in> set is then word_of_int c else p ! j))"
proof (induction "is" arbitrary: p)
  case (Cons a js)
  then have "\<forall>i \<in> set js. i < length (p[a := word_of_int c])" by simp
  from Cons.IH [OF this] show ?case
    using Cons.prems by (fastforce simp: wr_def nth_list_update)
qed simp

lemma memset_spec:
  assumes "n \<le> length p"
  shows "memset p c n = Some (replicate n (word_of_int c) @ drop n p)"
proof -
  obtain p' where p': "memset_loop p c [0..<n] = Some p'" "length p' = length p"
    "\<forall>j < length p. p' ! j = (if j \<in> set [0..<n] then word_of_int c else p ! j)"
    using memset_loop_spec [of "[0..<n]" p c] assms by auto
  have "p' = replicate n (word_of_int c) @ drop n p"
    using p' assms by (intro nth_equalityI) (auto simp: nth_append)
  then show ?thesis by (simp add: memset_def p'(1))
qed

text \<open>\<open>strncpy\<close> copies at most \<open>n\<close> bytes and pads with NUL; a string of \<open>n\<close> bytes or more
  leaves the destination without a terminator.\<close>

lemma strncpy_copy_spec:
  assumes "n \<le> length dest" "terminated src \<or> n \<le> length src" "i \<le> k"
    and k: "k = min n (length (str_of src))"
  shows "strncpy_copy dest src n i = Some (take i dest @ drop i (take k (str_of src)) @ drop k dest, k)"
  using assms(1-3)
proof (induction "k - i" arbitrary: i dest)
  case 0
  then have i: "i = k" by simp
  show ?case
  proof (cases "k < n")
    case True
    then have e: "k = length (str_of src)" using k by simp
    then have "terminated src"
      using 0(3) True str_of_unterminated by fastforce
    then have "k < length src" "src ! k = 0"
      using e str_of_less str_of_end by metis+
    then have "strncpy_copy dest src n k = Some (dest, k)"
      by (subst strncpy_copy.simps) (simp add: rd_def)
    then show ?thesis using i by simp
  next
    case False
    then have "strncpy_copy dest src n k = Some (dest, k)"
      by (subst strncpy_copy.simps) simp
    then show ?thesis using i by simp
  qed
next
  case (Suc m)
  then have i: "i < k" by simp
  then have c: "str_of src ! i = src ! i" "i < length src" "src ! i \<noteq> 0" "i < n" "i < length dest"
    using k str_of_nth [of i src] Suc.prems(1) by auto
  have "strncpy_copy dest src n i = strncpy_copy (dest[i := src ! i]) src n (Suc i)"
    using c by (subst strncpy_copy.simps) (simp add: rd_def wr_def)
  also have "\<dots> = Some (take (Suc i) (dest[i := src ! i])
      @ drop (Suc i) (take k (str_of src)) @ drop k (dest[i := src ! i]), k)"
    using Suc i by (intro Suc.hyps(1)) auto
  also have "take (Suc i) (dest[i := src ! i]) = take i dest @ [str_of src ! i]"
    using c by (simp add: take_Suc_conv_app_nth)
  also have "drop k (dest[i := src ! i]) = drop k dest" using i by simp
  also have "(take i dest @ [str_of src ! i]) @ drop (Suc i) (take k (str_of src)) @ drop k dest
      = take i dest @ drop i (take k (str_of src)) @ drop k dest"
    using i k by (simp add: Cons_nth_drop_Suc [symmetric])
  finally show ?case .
qed

lemma strncpy_pad_spec:
  "i \<le> n \<Longrightarrow> n \<le> length dest \<Longrightarrow>
    strncpy_pad dest n i = Some (take i dest @ replicate (n - i) 0 @ drop n dest)"
proof (induction "n - i" arbitrary: i dest)
  case 0
  then show ?case by (subst strncpy_pad.simps) simp
next
  case (Suc m)
  then have i: "i < n" by simp
  have "strncpy_pad dest n i = strncpy_pad (dest[i := 0]) n (Suc i)"
    using i Suc.prems by (subst strncpy_pad.simps) (simp add: wr_def)
  also have "\<dots> = Some (take (Suc i) (dest[i := 0]) @ replicate (n - Suc i) 0 @ drop n (dest[i := 0]))"
    using Suc i by (intro Suc.hyps(1)) auto
  also have "take (Suc i) (dest[i := 0]) @ replicate (n - Suc i) 0 @ drop n (dest[i := 0])
      = take i dest @ replicate (n - i) 0 @ drop n dest"
    using i Suc.prems by (simp add: take_Suc_conv_app_nth replicate_Suc [symmetric] Suc_diff_Suc
        del: replicate_Suc)
  finally show ?case .
qed

lemma strncpy_spec:
  assumes "n \<le> length dest" "terminated src \<or> n \<le> length src"
  shows "strncpy dest src n = Some (take n (str_of src)
    @ replicate (n - length (str_of src)) 0 @ drop n dest)"
  using strncpy_copy_spec [OF assms, of 0] assms
  by (auto simp: strncpy_def strncpy_pad_spec min_def)

section \<open>Properties\<close>

text \<open>\<open>strcmp\<close> on two strings returns, and its result is 0 exactly when they are equal and
  negative exactly when the first comes before the second in the order of unsigned bytes.\<close>

theorem strcmp_order:
  assumes "terminated xs" "terminated ys"
  shows "\<exists>r. strcmp xs ys = Some r \<and> (r = 0 \<longleftrightarrow> str_of xs = str_of ys)
    \<and> (r < 0 \<longleftrightarrow> str_of xs < str_of ys)"
  using strcmp_zero [OF assms] strcmp_less [OF assms] by auto

theorem strcmp_order_witness:
  "\<exists>r. strcmp (as_cstring (bytes_of ''run'')) (as_cstring (bytes_of ''ls'')) = Some r \<and> \<not> r \<le> 0"
  using strcmp_order [of "as_cstring (bytes_of ''run'')" "as_cstring (bytes_of ''ls'')"]
  by (auto simp: as_cstring_def bytes_of_def char_of_def of_char_def)

text \<open>\<open>strncpy\<close> fills exactly the first \<open>n\<close> bytes of the destination: the string, cut off
  at \<open>n\<close>, then NULs; what follows is unchanged. A string of \<open>n\<close> bytes or more is left without
  a terminator.\<close>

theorem strncpy_fills:
  assumes "n \<le> length dest" "terminated src \<or> n \<le> length src"
  shows "\<exists>d. strncpy dest src n = Some d \<and> length d = length dest \<and> drop n d = drop n dest
    \<and> take n d = take n (str_of src) @ replicate (n - length (str_of src)) 0
    \<and> (terminated (take n d) \<longleftrightarrow> length (str_of src) < n)"
proof -
  have "n - length (str_of src) + min n (length (str_of src)) = n" by simp
  moreover have "terminated (take n (str_of src)) = False"
    using str_of_no_NUL [of src] by (auto simp: terminated_def dest: in_set_takeD)
  ultimately show ?thesis
    using strncpy_spec [OF assms] assms(1) by (auto simp: terminated_def min_def)
qed

theorem strncpy_fills_witness:
  "\<exists>d. strncpy (replicate 4 7) (as_cstring [65, 66, 67, 68]) 4 = Some d \<and> \<not> terminated d"
  using strncpy_fills [of 4 "replicate 4 7" "as_cstring [65, 66, 67, 68]"]
  by (auto simp: as_cstring_def)

text \<open>\<open>strncasecmp\<close> with bound \<open>n\<close> returns, and is 0 exactly when the first \<open>n\<close> bytes of
  the two strings agree up to the case of ASCII letters.\<close>

theorem strncasecmp_caseless:
  assumes "terminated xs" "terminated ys"
  shows "\<exists>r. strncasecmp xs ys n = Some r
    \<and> (r = 0 \<longleftrightarrow> upcase (take n (str_of xs)) = upcase (take n (str_of ys)))"
  using assms by (rule strncasecmp_zero)

theorem strncasecmp_caseless_witness:
  "strncasecmp (as_cstring (bytes_of ''HELLO.ELF'')) (as_cstring (bytes_of ''hello.elf'')) 13 = Some 0"
  using strncasecmp_caseless [of "as_cstring (bytes_of ''HELLO.ELF'')" "as_cstring (bytes_of ''hello.elf'')" 13]
  by (auto simp: as_cstring_def bytes_of_def char_of_def of_char_def toupper_def)

end
