(* ===== verification/FatFormat.thy ===== *)
theory FatFormat
  imports CString
begin

text \<open>
  The FAT16 structures on the disk, \<open>src/fs/fat16.h\<close>: the boot sector and the directory
  item as records, the functions that read them off the bytes (packed, little-endian), and the
  8.3 name of an item, \<open>fat16_get_full_relative_filename\<close>.
\<close>

section \<open>Structures\<close>

definition le16 :: "u8 list \<Rightarrow> nat \<Rightarrow> u16" where
  "le16 b i = ucast (b ! i) OR push_bit 8 (ucast (b ! (i + 1)))"

definition le32 :: "u8 list \<Rightarrow> nat \<Rightarrow> u32" where
  "le32 b i = ucast (le16 b i) OR push_bit 16 (ucast (le16 b (i + 2)))"

definition slice :: "nat \<Rightarrow> nat \<Rightarrow> 'a list \<Rightarrow> 'a list" where
  "slice i n b = take n (drop i b)"

record fat_boot_sector =
  short_jmp_ins :: "u8 list"
  oem_identifier :: "u8 list"
  bytes_per_sector :: u16
  sectors_per_cluster :: u8
  reserved_sectors :: u16
  fat_copies :: u8
  root_dir_entries :: u16
  total_sectors :: u16
  media_type :: u8
  fat_sectors :: u16
  sectors_per_track :: u16
  number_of_heads :: u16
  hidden_sectors :: u32
  sectors_big :: u32
  drive_number :: u8
  bs_reserved :: u8
  signature :: u8
  volume_id :: u32
  volume_label :: "u8 list"
  system_id :: "u8 list"
  boot_code :: "u8 list"
  boot_signature :: u16

definition read_boot_sector :: "u8 list \<Rightarrow> fat_boot_sector" where
  "read_boot_sector b = \<lparr>
     short_jmp_ins = slice 0 3 b, oem_identifier = slice 3 8 b, bytes_per_sector = le16 b 11,
     sectors_per_cluster = b ! 13, reserved_sectors = le16 b 14, fat_copies = b ! 16,
     root_dir_entries = le16 b 17, total_sectors = le16 b 19, media_type = b ! 21,
     fat_sectors = le16 b 22, sectors_per_track = le16 b 24, number_of_heads = le16 b 26,
     hidden_sectors = le32 b 28, sectors_big = le32 b 32, drive_number = b ! 36,
     bs_reserved = b ! 37, signature = b ! 38, volume_id = le32 b 39,
     volume_label = slice 43 11 b, system_id = slice 54 8 b, boot_code = slice 62 448 b,
     boot_signature = le16 b 510\<rparr>"

record fat_directory_item =
  filename :: "u8 list"
  ext :: "u8 list"
  attribute :: u8
  di_reserved :: u8
  creation_time_tenth :: u8
  creation_time :: u16
  creation_date :: u16
  last_access_date :: u16
  high_16_bits_first_cluster :: u16
  last_mod_time :: u16
  last_mod_date :: u16
  low_16_bits_first_cluster :: u16
  filesize :: u32

definition read_directory_item :: "u8 list \<Rightarrow> fat_directory_item" where
  "read_directory_item b = \<lparr>
     filename = slice 0 8 b, ext = slice 8 3 b, attribute = b ! 11, di_reserved = b ! 12,
     creation_time_tenth = b ! 13, creation_time = le16 b 14, creation_date = le16 b 16,
     last_access_date = le16 b 18, high_16_bits_first_cluster = le16 b 20,
     last_mod_time = le16 b 22, last_mod_date = le16 b 24,
     low_16_bits_first_cluster = le16 b 26, filesize = le32 b 28\<rparr>"

definition FAT_FILE_SUBDIRECTORY :: u8 where "FAT_FILE_SUBDIRECTORY = 0x10"

definition is_directory :: "fat_directory_item \<Rightarrow> bool" where
  "is_directory item \<longleftrightarrow> attribute item AND FAT_FILE_SUBDIRECTORY \<noteq> 0"

section \<open>Names\<close>

text \<open>\<open>**out = in[i]; *out += 1\<close> on the buffer \<open>out\<close> with the position \<open>p\<close>.\<close>

fun fat16_to_proper_string :: "u8 list \<Rightarrow> nat \<Rightarrow> u8 list \<Rightarrow> nat \<Rightarrow> (u8 list \<times> nat) option" where
  "fat16_to_proper_string out p inp 0 = Some (out, p)"
| "fat16_to_proper_string out p [] (Suc limit) = None"
| "fat16_to_proper_string out p (c # inp) (Suc limit) =
     (if c = 0 \<or> c = 0x20 then Some (out, p)
      else do { out \<leftarrow> wr out p c; fat16_to_proper_string out (p + 1) inp limit })"

definition fat16_get_full_relative_filename :: "fat_directory_item \<Rightarrow> u8 list \<Rightarrow> nat \<Rightarrow> u8 list option" where
  "fat16_get_full_relative_filename item out max_len = do {
     out \<leftarrow> memset out 0 max_len;
     (out, p) \<leftarrow> fat16_to_proper_string out 0 (filename item) 8;
     e \<leftarrow> rd (ext item) 0;
     if e \<noteq> 0 \<and> e \<noteq> 0x20 then do {
       out \<leftarrow> wr out p 46;
       (out, p) \<leftarrow> fat16_to_proper_string out (p + 1) (ext item) 3;
       Some out
     } else Some out
   }"

definition fat16_get_total_items_for_directory :: "fat_directory_item \<Rightarrow> int" where
  "fat16_get_total_items_for_directory item = 0"

section \<open>What the name of an item is\<close>

definition trimmed :: "u8 list \<Rightarrow> u8 list" where
  "trimmed f = takeWhile (\<lambda>c. c \<noteq> 0 \<and> c \<noteq> 0x20) f"

definition item_name :: "fat_directory_item \<Rightarrow> u8 list" where
  "item_name item = trimmed (filename item) @ (if trimmed (ext item) = [] then [] else 46 # trimmed (ext item))"

definition item_ok :: "fat_directory_item \<Rightarrow> bool" where
  "item_ok item \<longleftrightarrow> length (filename item) = 8 \<and> length (ext item) = 3"

lemma read_item_ok: "length b = 32 \<Longrightarrow> item_ok (read_directory_item b)"
  by (simp add: item_ok_def read_directory_item_def slice_def)

lemma trimmed_no_NUL: "0 \<notin> set (trimmed f)"
  by (auto simp: trimmed_def dest: set_takeWhileD)

lemma item_name_no_NUL: "0 \<notin> set (item_name item)"
  by (simp add: item_name_def trimmed_no_NUL)

lemma trimmed_length: "length (trimmed f) \<le> length f"
  by (simp add: trimmed_def length_takeWhile_le)

lemma item_name_length: "item_ok item \<Longrightarrow> length (item_name item) \<le> 12"
  using trimmed_length [of "filename item"] trimmed_length [of "ext item"]
  by (simp add: item_name_def item_ok_def)

lemma to_proper_string_spec:
  assumes "length inp = limit" "length pre + length (trimmed inp) \<le> length pre + length post" "p = length pre"
  shows "fat16_to_proper_string (pre @ post) p inp limit
    = Some (pre @ trimmed inp @ drop (length (trimmed inp)) post, p + length (trimmed inp))"
  using assms
proof (induction inp arbitrary: pre post p limit)
  case (Cons c inp)
  then obtain n where n: "limit = Suc n" "length inp = n" by auto
  show ?case
  proof (cases "c = 0 \<or> c = 0x20")
    case False
    then obtain x post' where post: "post = x # post'"
      using Cons.prems(2) by (cases post) (auto simp: trimmed_def)
    have "wr (pre @ post) p c = Some ((pre @ [c]) @ post')"
      using Cons.prems(3) post by (simp add: wr_def list_update_append)
    then show ?thesis
      using Cons.IH [of n "pre @ [c]" post' "Suc p"] Cons.prems False n post by (simp add: trimmed_def)
  qed (use Cons.prems n in \<open>auto simp: trimmed_def\<close>)
qed (simp add: trimmed_def)

lemma memset_zero: "length xs = n \<Longrightarrow> memset xs 0 n = Some (replicate n 0)"
  using memset_spec [of n xs 0] by simp

lemma full_relative_filename_spec:
  assumes ok: "item_ok item" and "length out = 13"
  shows "fat16_get_full_relative_filename item out 13
    = Some (item_name item @ replicate (13 - length (item_name item)) 0)"
proof -
  let ?f = "trimmed (filename item)" and ?e = "trimmed (ext item)"
  have len: "length (filename item) = 8" "length (ext item) = 3" "length ?f \<le> 8" "length ?e \<le> 3"
    using ok trimmed_length [of "filename item"] trimmed_length [of "ext item"] by (simp_all add: item_ok_def)
  obtain e es where e: "ext item = e # es" using len(2) by (cases "ext item") auto
  have m: "memset out 0 13 = Some (replicate 13 0)" using assms(2) by (rule memset_zero)
  have f: "fat16_to_proper_string (replicate 13 0) 0 (filename item) 8
      = Some (?f @ replicate (13 - length ?f) 0, length ?f)"
    using to_proper_string_spec [of "filename item" 8 "[]" "replicate 13 0" 0] len by simp
  show ?thesis
  proof (cases "e = 0 \<or> e = 0x20")
    case True
    then have "?e = []" by (auto simp: e trimmed_def)
    then show ?thesis
      using True by (auto simp: fat16_get_full_relative_filename_def m f rd_def e item_name_def)
  next
    case False
    then have ne: "?e \<noteq> []" by (auto simp: e trimmed_def)
    have "13 - length ?f = Suc (12 - length ?f)" using len(3) by simp
    then have w: "wr (?f @ replicate (13 - length ?f) 0) (length ?f) 46 = Some ((?f @ [46]) @ replicate (12 - length ?f) 0)"
      by (simp add: wr_def list_update_append)
    have x: "fat16_to_proper_string ((?f @ [46]) @ replicate (12 - length ?f) 0) (length ?f + 1) (ext item) 3
        = Some ((?f @ [46]) @ ?e @ drop (length ?e) (replicate (12 - length ?f) 0), length ?f + 1 + length ?e)"
      by (rule to_proper_string_spec) (use len in auto)
    have "rd (ext item) 0 = Some e" by (simp add: e rd_def)
    then show ?thesis
      using False ne w x by (simp add: fat16_get_full_relative_filename_def m f item_name_def)
  qed
qed

end
