(* ===== verification/Machine.thy ===== *)
theory Machine
  imports Prelude
begin

text \<open>
  The bottom of the kernel: the record of RAM and devices, the four port instructions of
  \<open>src/drivers/ports.c\<close> and the UART of \<open>src/drivers/serial.c\<close>. The hardware behind the
  ports is not code of the repository: it is the parameter \<open>io\<close>, four functions that say
  how the state \<open>'d\<close> of the devices answers an \<open>in\<close> or \<open>out\<close> instruction. Whatever a
  theorem needs of a device is a named hypothesis over \<open>io\<close>.
\<close>

section \<open>Ports\<close>

record 'd port_io =
  inb :: "'d \<Rightarrow> u16 \<Rightarrow> u8 \<times> 'd"
  outb :: "'d \<Rightarrow> u16 \<Rightarrow> u8 \<Rightarrow> 'd"
  inw :: "'d \<Rightarrow> u16 \<Rightarrow> u16 \<times> 'd"
  outw :: "'d \<Rightarrow> u16 \<Rightarrow> u16 \<Rightarrow> 'd"

record 'd machine =
  mem :: ram
  dev :: 'd

definition port_byte_in ::
  "'d port_io \<Rightarrow> u16 \<Rightarrow> ('d, 'z) machine_scheme \<Rightarrow> u8 \<times> ('d, 'z) machine_scheme" where
  "port_byte_in io port s = (let (v, d) = inb io (dev s) port in (v, s\<lparr>dev := d\<rparr>))"

definition port_byte_out ::
  "'d port_io \<Rightarrow> u16 \<Rightarrow> u8 \<Rightarrow> ('d, 'z) machine_scheme \<Rightarrow> ('d, 'z) machine_scheme" where
  "port_byte_out io port v s = s\<lparr>dev := outb io (dev s) port v\<rparr>"

definition port_word_in ::
  "'d port_io \<Rightarrow> u16 \<Rightarrow> ('d, 'z) machine_scheme \<Rightarrow> u16 \<times> ('d, 'z) machine_scheme" where
  "port_word_in io port s = (let (v, d) = inw io (dev s) port in (v, s\<lparr>dev := d\<rparr>))"

definition port_word_out ::
  "'d port_io \<Rightarrow> u16 \<Rightarrow> u16 \<Rightarrow> ('d, 'z) machine_scheme \<Rightarrow> ('d, 'z) machine_scheme" where
  "port_word_out io port v s = s\<lparr>dev := outw io (dev s) port v\<rparr>"

text \<open>The effect of a sequence of byte writes on the devices alone.\<close>

definition outs :: "'d port_io \<Rightarrow> (u16 \<times> u8) list \<Rightarrow> 'd \<Rightarrow> 'd" where
  "outs io pvs d = fold (\<lambda>(p, v) d. outb io d p v) pvs d"

lemma outs_Nil [simp]: "outs io [] d = d"
  by (simp add: outs_def)

lemma outs_Cons [simp]: "outs io ((p, v) # pvs) d = outs io pvs (outb io d p v)"
  by (simp add: outs_def)

lemma outs_append [simp]: "outs io (xs @ ys) d = outs io ys (outs io xs d)"
  by (simp add: outs_def)

text \<open>A device that only records what is written to it, for closed instances.\<close>

definition log_io :: "(u16 \<times> u8) list port_io" where
  "log_io = \<lparr>inb = (\<lambda>d p. (if p = 0x3FD then 0x20 else 0, d)), outb = (\<lambda>d p v. d @ [(p, v)]),
     inw = (\<lambda>d p. (0, d)), outw = (\<lambda>d p v. d)\<rparr>"

lemma outs_log_io: "outs log_io pvs d = d @ pvs"
  by (induction pvs arbitrary: d) (auto simp: log_io_def)

section \<open>The serial line\<close>

definition COM1 :: u16 where
  "COM1 = 0x3F8"

definition serial_init :: "'d port_io \<Rightarrow> ('d, 'z) machine_scheme \<Rightarrow> ('d, 'z) machine_scheme" where
  "serial_init io s =
     (let s = port_byte_out io (COM1 + 1) 0x00 s;
          s = port_byte_out io (COM1 + 3) 0x80 s;
          s = port_byte_out io (COM1 + 0) 0x03 s;
          s = port_byte_out io (COM1 + 1) 0x00 s;
          s = port_byte_out io (COM1 + 3) 0x03 s;
          s = port_byte_out io (COM1 + 4) 0x0B s
      in s)"

definition is_transmit_empty ::
  "'d port_io \<Rightarrow> ('d, 'z) machine_scheme \<Rightarrow> u8 \<times> ('d, 'z) machine_scheme" where
  "is_transmit_empty io s = (let (v, s) = port_byte_in io (COM1 + 5) s in (v AND 0x20, s))"

text \<open>The busy-wait of \<open>serial_putc\<close>: it returns only if the UART becomes ready.\<close>

partial_function (option) serial_wait ::
  "'d port_io \<Rightarrow> ('d, 'z) machine_scheme \<Rightarrow> ('d, 'z) machine_scheme option" where
  "serial_wait io s =
     (let (v, s) = is_transmit_empty io s in if v = 0 then serial_wait io s else Some s)"

definition serial_putc ::
  "'d port_io \<Rightarrow> u8 \<Rightarrow> ('d, 'z) machine_scheme \<Rightarrow> ('d, 'z) machine_scheme option" where
  "serial_putc io c s = do { s \<leftarrow> serial_wait io s; Some (port_byte_out io COM1 c s) }"

text \<open>The loop reads the string up to its NUL; a string with none is read past its end.\<close>

fun serial_print ::
  "'d port_io \<Rightarrow> u8 list \<Rightarrow> ('d, 'z) machine_scheme \<Rightarrow> ('d, 'z) machine_scheme option" where
  "serial_print io [] s = None"
| "serial_print io (c # cs) s =
     (if c = 0 then Some s else do { s \<leftarrow> serial_putc io c s; serial_print io cs s })"

definition uart_ready :: "'d port_io \<Rightarrow> bool" where
  "uart_ready io \<longleftrightarrow> (\<forall>d. fst (inb io d 0x3FD) AND 0x20 \<noteq> 0 \<and> snd (inb io d 0x3FD) = d)"

lemma uart_ready_log_io: "uart_ready log_io"
  by (simp add: uart_ready_def log_io_def)

lemma serial_putc_ready:
  assumes "uart_ready io"
  shows "serial_putc io c s = Some (s\<lparr>dev := outb io (dev s) 0x3F8 c\<rparr>)"
proof -
  obtain v where v: "inb io (dev s) 0x3FD = (v, dev s)" "v AND 0x20 \<noteq> 0"
    using assms unfolding uart_ready_def by (metis prod.collapse)
  have "serial_wait io s = Some s"
    using v by (subst serial_wait.simps)
      (simp add: is_transmit_empty_def port_byte_in_def COM1_def)
  then show ?thesis by (simp add: serial_putc_def port_byte_out_def COM1_def)
qed

text \<open>The UART sees the bytes of the string.\<close>

definition serial_out :: "'d port_io \<Rightarrow> u8 list \<Rightarrow> 'd \<Rightarrow> 'd" where
  "serial_out io cs d = outs io (map (\<lambda>c. (0x3F8, c)) cs) d"

lemma serial_out_simps [simp]:
  "serial_out io [] d = d" "serial_out io (c # cs) d = serial_out io cs (outb io d 0x3F8 c)"
  "serial_out io (xs @ ys) d = serial_out io ys (serial_out io xs d)"
  by (simp_all add: serial_out_def)

lemma serial_print_ready:
  assumes "uart_ready io" "0 \<in> set msg"
  shows "serial_print io msg s = Some (s\<lparr>dev := serial_out io (takeWhile (\<lambda>c. c \<noteq> 0) msg) (dev s)\<rparr>)"
  using assms(2) by (induction msg arbitrary: s) (auto simp: serial_putc_ready [OF assms(1)])

text \<open>A NUL-terminated string goes out on COM1 byte by byte, in order, up to its NUL.\<close>

theorem serial_print_sends:
  assumes "uart_ready io" and "0 \<notin> set cs"
  shows "serial_print io (cs @ 0 # rest) s
    = Some (s\<lparr>dev := outs io (map (\<lambda>c. (0x3F8, c)) cs) (dev s)\<rparr>)"
  using assms(2)
  by (induction cs arbitrary: s) (auto simp: serial_putc_ready [OF assms(1)])

theorem serial_print_sends_witness:
  "serial_print log_io ([72, 105] @ 0 # []) \<lparr>mem = (\<lambda>_. 0), dev = []\<rparr>
    = Some \<lparr>mem = (\<lambda>_. 0), dev = [(0x3F8, 72), (0x3F8, 105)]\<rparr>"
  using serial_print_sends [OF uart_ready_log_io, of "[72, 105]" "[]" "\<lparr>mem = (\<lambda>_. 0), dev = []\<rparr>"]
  by (simp add: log_io_def)

end
