(* ===== verification/Screen.thy ===== *)
theory Screen
  imports Machine
begin

text \<open>
  The text screen of \<open>src/drivers/screen.c\<close>: characters and attributes in the video memory
  at \<open>0xB8000\<close>, the two globals \<open>cursor_offset\<close> and \<open>screen_color\<close>, and the cursor
  registers of the VGA controller behind two ports.
\<close>

record 'd screen = "'d machine" +
  cursor_offset :: int
  screen_color :: u8

definition VIDEO_ADDRESS :: u32 where "VIDEO_ADDRESS = 0xB8000"
definition MAX_ROWS :: int where "MAX_ROWS = 25"
definition MAX_COLS :: int where "MAX_COLS = 80"
definition WHITE_ON_BLACK :: u8 where "WHITE_ON_BLACK = 0x0F"
definition REG_SCREEN_CTRL :: u16 where "REG_SCREEN_CTRL = 0x3D4"
definition REG_SCREEN_DATA :: u16 where "REG_SCREEN_DATA = 0x3D5"

lemmas screen_consts =
  VIDEO_ADDRESS_def MAX_ROWS_def MAX_COLS_def WHITE_ON_BLACK_def
  REG_SCREEN_CTRL_def REG_SCREEN_DATA_def

definition get_offset :: "int \<Rightarrow> int \<Rightarrow> int" where
  "get_offset col row = 2 * (row * MAX_COLS + col)"

definition get_offset_row :: "int \<Rightarrow> int" where
  "get_offset_row offset = offset sdiv (2 * MAX_COLS)"

definition get_offset_col :: "int \<Rightarrow> int" where
  "get_offset_col offset = (offset - get_offset_row offset * 2 * MAX_COLS) sdiv 2"

definition print_set_colour :: "u8 \<Rightarrow> ('d, 'z) screen_scheme \<Rightarrow> ('d, 'z) screen_scheme" where
  "print_set_colour color s = s\<lparr>screen_color := color\<rparr>"

definition set_cursor_offset ::
  "'d port_io \<Rightarrow> int \<Rightarrow> ('d, 'z) screen_scheme \<Rightarrow> ('d, 'z) screen_scheme" where
  "set_cursor_offset io offset s =
     (let offset = offset sdiv 2;
          s = port_byte_out io REG_SCREEN_CTRL 14 s;
          s = port_byte_out io REG_SCREEN_DATA (word_of_int (drop_bit 8 offset)) s;
          s = port_byte_out io REG_SCREEN_CTRL 15 s;
          s = port_byte_out io REG_SCREEN_DATA (word_of_int (offset AND 0xFF)) s
      in s)"

text \<open>\<open>vidmem[i]\<close>: the byte at the video address plus \<open>i\<close>.\<close>

definition vid :: "int \<Rightarrow> u32" where
  "vid i = VIDEO_ADDRESS + word_of_int i"

definition print_char ::
  "'d port_io \<Rightarrow> u8 \<Rightarrow> int \<Rightarrow> int \<Rightarrow> u8 \<Rightarrow> ('d, 'z) screen_scheme \<Rightarrow> int \<times> ('d, 'z) screen_scheme" where
  "print_char io c col row attr s =
     (let attr = (if attr = 0 then WHITE_ON_BLACK else attr);
          s = (if col \<ge> 0 \<and> row \<ge> 0 then s\<lparr>cursor_offset := get_offset col row\<rparr> else s);
          s = (if c = 10 then
                 (let rows = cursor_offset s sdiv (2 * MAX_COLS)
                  in s\<lparr>cursor_offset := get_offset 0 (rows + 1)\<rparr>)
               else if c = 8 then
                 (if cursor_offset s > 0 then s\<lparr>cursor_offset := cursor_offset s - 2\<rparr> else s)
               else
                 s\<lparr>mem := (mem s)(vid (cursor_offset s) := c, vid (cursor_offset s + 1) := attr),
                   cursor_offset := cursor_offset s + 2\<rparr>);
          s = set_cursor_offset io (cursor_offset s) s
      in (cursor_offset s, s))"

text \<open>The loop of \<open>print_at\<close>: each iteration passes \<open>col\<close> and \<open>row\<close> on unchanged.\<close>

fun print_at_loop ::
  "'d port_io \<Rightarrow> u8 list \<Rightarrow> int \<Rightarrow> int \<Rightarrow> ('d, 'z) screen_scheme \<Rightarrow> ('d, 'z) screen_scheme option" where
  "print_at_loop io [] col row s = None"
| "print_at_loop io (c # cs) col row s =
     (if c = 0 then Some s
      else (let (off, s) = print_char io c col row (screen_color s) s
            in print_at_loop io cs col row (s\<lparr>cursor_offset := off\<rparr>)))"

definition print_at ::
  "'d port_io \<Rightarrow> u8 list \<Rightarrow> int \<Rightarrow> int \<Rightarrow> ('d, 'z) screen_scheme \<Rightarrow> ('d, 'z) screen_scheme option" where
  "print_at io message col row s =
     print_at_loop io message col row
       (if col \<ge> 0 \<and> row \<ge> 0 then s\<lparr>cursor_offset := get_offset col row\<rparr> else s)"

definition print_string ::
  "'d port_io \<Rightarrow> u8 list \<Rightarrow> ('d, 'z) screen_scheme \<Rightarrow> ('d, 'z) screen_scheme option" where
  "print_string io message s = print_at io message (-1) (-1) s"

definition clear_screen :: "'d port_io \<Rightarrow> ('d, 'z) screen_scheme \<Rightarrow> ('d, 'z) screen_scheme" where
  "clear_screen io s =
     (let screen_size = nat (MAX_COLS * MAX_ROWS);
          m = fold (\<lambda>i m. m(vid (int i * 2) := 32, vid (int i * 2 + 1) := WHITE_ON_BLACK))
                [0..<screen_size] (mem s);
          s = s\<lparr>mem := m, cursor_offset := 0\<rparr>
      in set_cursor_offset io (cursor_offset s) s)"

section \<open>Cursor positions\<close>

text \<open>The offset of a cell determines its row and column: both inverses undo \<open>get_offset\<close>
  for every cell of the screen (and of any longer buffer of the same width).\<close>

theorem get_offset_roundtrip:
  assumes "0 \<le> col" and "col < MAX_COLS" and "0 \<le> row"
  shows "get_offset_row (get_offset col row) = row \<and> get_offset_col (get_offset col row) = col"
proof -
  have row: "get_offset_row (get_offset col row) = row"
    using assms by (simp add: get_offset_row_def get_offset_def screen_consts sdiv_nonneg)
  moreover have "get_offset_col (get_offset col row) = col"
    using assms unfolding get_offset_col_def row
    by (simp add: get_offset_def screen_consts sdiv_nonneg)
  ultimately show ?thesis by simp
qed

theorem get_offset_roundtrip_witness:
  "get_offset_row (get_offset 79 24) = 24 \<and> get_offset_col (get_offset 79 24) = 79"
  by (rule get_offset_roundtrip) (simp_all add: MAX_COLS_def)

lemma vid_eq_iff:
  assumes "0 \<le> i" "i < 4294967296" "0 \<le> j" "j < 4294967296"
  shows "vid i = vid j \<longleftrightarrow> i = j"
  using assms by (simp add: vid_def word_of_int_eq_iff take_bit_int_eq_self)

lemma vid_in_screen:
  assumes "0 \<le> i" "i < 4000"
  shows "vid i \<in> region VIDEO_ADDRESS 4000"
proof -
  have "vid i = VIDEO_ADDRESS + of_nat (nat i)"
    using assms by (simp add: vid_def)
  moreover have "unat (VIDEO_ADDRESS + of_nat (nat i)) = unat VIDEO_ADDRESS + nat i"
    by (rule unat_plus_of_nat) (use assms in \<open>simp add: VIDEO_ADDRESS_def\<close>)
  ultimately have "unat (vid i) = unat VIDEO_ADDRESS + nat i" by simp
  then show ?thesis using assms by simp
qed

lemma set_cursor_offset_frame [simp]:
  "mem (set_cursor_offset io off s) = mem s"
  "cursor_offset (set_cursor_offset io off s) = cursor_offset s"
  "screen_color (set_cursor_offset io off s) = screen_color s"
  by (simp_all add: set_cursor_offset_def port_byte_out_def Let_def)

lemma set_cursor_offset_dev:
  "set_cursor_offset io off s = s\<lparr>dev := outs io
     [(REG_SCREEN_CTRL, 14), (REG_SCREEN_DATA, word_of_int (drop_bit 8 (off sdiv 2))),
      (REG_SCREEN_CTRL, 15), (REG_SCREEN_DATA, word_of_int ((off sdiv 2) AND 0xFF))] (dev s)\<rparr>"
  by (simp add: set_cursor_offset_def port_byte_out_def Let_def)

section \<open>Printing\<close>

text \<open>How one character moves the cursor.\<close>

fun cursor_step :: "int \<Rightarrow> u8 \<Rightarrow> int" where
  "cursor_step off c =
     (if c = 10 then 160 * (off div 160 + 1)
      else if c = 8 then (if 0 < off then off - 2 else off)
      else off + 2)"

declare cursor_step.simps [simp del]

definition cursor_ok :: "int \<Rightarrow> bool" where
  "cursor_ok off \<longleftrightarrow> 0 \<le> off \<and> even off"

lemma cursor_step_ok: "cursor_ok off \<Longrightarrow> cursor_ok (cursor_step off c)"
  by (auto simp: cursor_ok_def cursor_step.simps)

lemma print_char_cursor:
  assumes "0 \<le> cursor_offset s"
  shows "fst (print_char io c (-1) (-1) attr s) = cursor_step (cursor_offset s) c
    \<and> cursor_offset (snd (print_char io c (-1) (-1) attr s)) = cursor_step (cursor_offset s) c
    \<and> screen_color (snd (print_char io c (-1) (-1) attr s)) = screen_color s"
  using assms
  by (simp add: print_char_def Let_def cursor_step.simps get_offset_def screen_consts
      sdiv_nonneg)

text \<open>Printing any NUL-terminated string returns, and leaves the cursor where moving it
  once per character takes it: newline to the start of the next row, backspace one cell back
  but never below 0, every other character one cell on. The cursor stays even and
  non-negative.\<close>

theorem print_string_cursor:
  assumes "0 \<notin> set cs" and "cursor_ok (cursor_offset s)"
  shows "\<exists>s'. print_string io (cs @ 0 # rest) s = Some s'
    \<and> cursor_offset s' = foldl cursor_step (cursor_offset s) cs
    \<and> cursor_ok (cursor_offset s') \<and> screen_color s' = screen_color s"
proof -
  have "\<exists>s'. print_at_loop io (cs @ 0 # rest) (-1) (-1) s = Some s'
      \<and> cursor_offset s' = foldl cursor_step (cursor_offset s) cs
      \<and> cursor_ok (cursor_offset s') \<and> screen_color s' = screen_color s"
    using assms
  proof (induction cs arbitrary: s)
    case (Cons c cs)
    obtain off t where t: "print_char io c (-1) (-1) (screen_color s) s = (off, t)"
      by fastforce
    have "off = cursor_step (cursor_offset s) c" "screen_color t = screen_color s"
      using print_char_cursor [of s io c "screen_color s"] Cons.prems(2) t
      by (auto simp: cursor_ok_def)
    moreover have "cursor_ok off"
      using calculation(1) Cons.prems(2) by (simp add: cursor_step_ok)
    ultimately show ?case
      using Cons.prems(1) t Cons.IH [of "t\<lparr>cursor_offset := off\<rparr>"] by auto
  qed simp
  then show ?thesis by (simp add: print_string_def print_at_def)
qed

text \<open>The cells that a printable string fills, one character and one attribute each.\<close>

fun put_cells :: "ram \<Rightarrow> int \<Rightarrow> u8 list \<Rightarrow> u8 \<Rightarrow> ram" where
  "put_cells m off [] a = m"
| "put_cells m off (c # cs) a = put_cells (m(vid off := c, vid (off + 1) := a)) (off + 2) cs a"

lemma put_cells_outside:
  "(\<And>k. off \<le> k \<Longrightarrow> k < off + 2 * int (length cs) \<Longrightarrow> x \<noteq> vid k) \<Longrightarrow> put_cells m off cs a x = m x"
  by (induction cs arbitrary: m off) auto

lemma put_cells_inside:
  assumes "0 \<le> off" "off + 2 * int (length cs) < 4294967296" "i < length cs"
  shows "put_cells m off cs a (vid (off + 2 * int i)) = cs ! i
    \<and> put_cells m off cs a (vid (off + 2 * int i + 1)) = a"
  using assms
proof (induction cs arbitrary: m off i)
  case (Cons c cs)
  show ?case
  proof (cases i)
    case 0
    have "put_cells (m(vid off := c, vid (off + 1) := a)) (off + 2) cs a (vid off) = c"
      "put_cells (m(vid off := c, vid (off + 1) := a)) (off + 2) cs a (vid (off + 1)) = a"
      using Cons.prems by (subst put_cells_outside; auto simp: vid_eq_iff)+
    then show ?thesis using 0 by simp
  next
    case (Suc j)
    then show ?thesis
      using Cons.prems Cons.IH [of "off + 2" j] by (simp add: algebra_simps)
  qed
qed simp

definition printable :: "u8 \<Rightarrow> bool" where
  "printable c \<longleftrightarrow> c \<noteq> 0 \<and> c \<noteq> 8 \<and> c \<noteq> 10"

definition cell_attr :: "u8 \<Rightarrow> u8" where
  "cell_attr color = (if color = 0 then WHITE_ON_BLACK else color)"

lemma print_at_loop_printable:
  assumes "list_all printable cs"
  shows "\<exists>d. print_at_loop io (cs @ 0 # rest) (-1) (-1) s = Some (s\<lparr>
      mem := put_cells (mem s) (cursor_offset s) cs (cell_attr (screen_color s)),
      dev := d, cursor_offset := cursor_offset s + 2 * int (length cs)\<rparr>)"
  using assms
proof (induction cs arbitrary: s)
  case Nil
  show ?case by (rule exI [of _ "dev s"]) simp
next
  case (Cons c cs)
  define t where "t = s\<lparr>mem := (mem s)(vid (cursor_offset s) := c,
      vid (cursor_offset s + 1) := cell_attr (screen_color s)),
      dev := dev (snd (print_char io c (-1) (-1) (screen_color s) s)),
      cursor_offset := cursor_offset s + 2\<rparr>"
  have "print_char io c (-1) (-1) (screen_color s) s = (cursor_offset s + 2, t)"
    using Cons.prems
    by (simp add: t_def print_char_def Let_def printable_def cell_attr_def set_cursor_offset_dev)
  moreover have "t\<lparr>cursor_offset := cursor_offset s + 2\<rparr> = t"
    by (simp add: t_def)
  ultimately have step: "print_at_loop io ((c # cs) @ 0 # rest) (-1) (-1) s
      = print_at_loop io (cs @ 0 # rest) (-1) (-1) t"
    using Cons.prems by (simp add: printable_def)
  obtain d where "print_at_loop io (cs @ 0 # rest) (-1) (-1) t = Some (t\<lparr>
      mem := put_cells (mem t) (cursor_offset t) cs (cell_attr (screen_color t)),
      dev := d, cursor_offset := cursor_offset t + 2 * int (length cs)\<rparr>)"
    using Cons.IH [of t] Cons.prems by auto
  then show ?case
    unfolding step by (intro exI [of _ d]) (simp add: t_def)
qed

text \<open>C40: a printable string that fits on the screen appears there character by character, in
  the current colour, from the cursor on; nothing else in RAM changes.\<close>

theorem print_string_shows:
  assumes "list_all printable cs" and "0 \<le> cursor_offset s"
    and "cursor_offset s + 2 * int (length cs) \<le> 2 * MAX_COLS * MAX_ROWS"
  shows "\<exists>s'. print_string io (cs @ 0 # rest) s = Some s'
    \<and> (\<forall>i < length cs. mem s' (vid (cursor_offset s + 2 * int i)) = cs ! i
        \<and> mem s' (vid (cursor_offset s + 2 * int i + 1)) = cell_attr (screen_color s))
    \<and> (\<forall>x. (\<forall>k. cursor_offset s \<le> k \<and> k < cursor_offset s + 2 * int (length cs) \<longrightarrow> x \<noteq> vid k)
        \<longrightarrow> mem s' x = mem s x)
    \<and> cursor_offset s' = cursor_offset s + 2 * int (length cs)"
proof -
  obtain d where d: "print_string io (cs @ 0 # rest) s = Some (s\<lparr>
      mem := put_cells (mem s) (cursor_offset s) cs (cell_attr (screen_color s)),
      dev := d, cursor_offset := cursor_offset s + 2 * int (length cs)\<rparr>)"
    using print_at_loop_printable [OF assms(1), of io rest s]
    by (auto simp: print_string_def print_at_def)
  have "cursor_offset s + 2 * int (length cs) < 4294967296"
    using assms(3) by (simp add: screen_consts)
  then show ?thesis
    using put_cells_inside [OF assms(2)] put_cells_outside by (simp add: d)
qed

definition boot_screen :: "(u16 \<times> u8) list screen" where
  "boot_screen = \<lparr>mem = (\<lambda>_. 0), dev = [], cursor_offset = 0, screen_color = 0x0F\<rparr>"

theorem print_string_shows_witness:
  "\<exists>s'. print_string log_io [72, 105, 0] boot_screen = Some s'
    \<and> mem s' (vid 0) = 72 \<and> mem s' (vid 2) = 105 \<and> mem s' (vid 3) = 0x0F \<and> cursor_offset s' = 4"
proof -
  obtain s' where "print_string log_io ([72, 105] @ 0 # []) boot_screen = Some s'"
    and c: "\<forall>i < length [72 :: u8, 105]. mem s' (vid (cursor_offset boot_screen + 2 * int i)) = [72, 105] ! i
      \<and> mem s' (vid (cursor_offset boot_screen + 2 * int i + 1)) = cell_attr (screen_color boot_screen)"
    and "cursor_offset s' = cursor_offset boot_screen + 2 * int (length [72 :: u8, 105])"
    using print_string_shows [of "[72, 105]" boot_screen log_io "[]"]
    by (auto simp: printable_def boot_screen_def screen_consts)
  moreover from c [rule_format, of 0] c [rule_format, of 1]
  have "mem s' (vid 0) = 72" "mem s' (vid 2) = 105" "mem s' (vid 3) = 0x0F"
    by (simp_all add: boot_screen_def cell_attr_def)
  ultimately show ?thesis by (simp add: boot_screen_def)
qed

theorem print_string_cursor_witness:
  "\<exists>s'. print_string log_io ([65, 8, 66, 10, 67] @ 0 # []) boot_screen = Some s' \<and> cursor_offset s' = 162"
  using print_string_cursor [of "[65, 8, 66, 10, 67]" boot_screen log_io "[]"]
  by (auto simp: boot_screen_def cursor_ok_def cursor_step.simps)

section \<open>What printing touches\<close>

text \<open>Whatever is printed, only the RAM, the cursor and the two registers of the video
  controller change, and printing a string that ends returns.\<close>

definition screen_only ::
  "'d port_io \<Rightarrow> ('d, 'z) screen_scheme \<Rightarrow> ('d, 'z) screen_scheme \<Rightarrow> bool" where
  "screen_only io s s' \<longleftrightarrow> (\<exists>m off ops. s' = s\<lparr>mem := m, dev := outs io ops (dev s), cursor_offset := off\<rparr>
     \<and> fst ` set ops \<subseteq> {REG_SCREEN_CTRL, REG_SCREEN_DATA})"

lemma screen_only_refl: "screen_only io s s"
  unfolding screen_only_def
  by (intro exI [of _ "mem s"] exI [of _ "cursor_offset s"] exI [of _ "[]"]) simp

lemma screen_only_trans:
  assumes "screen_only io s s'" "screen_only io s' s''"
  shows "screen_only io s s''"
proof -
  obtain m off ops m' off' ops' where "s' = s\<lparr>mem := m, dev := outs io ops (dev s), cursor_offset := off\<rparr>"
    "s'' = s'\<lparr>mem := m', dev := outs io ops' (dev s'), cursor_offset := off'\<rparr>"
    "fst ` set ops \<subseteq> {REG_SCREEN_CTRL, REG_SCREEN_DATA}" "fst ` set ops' \<subseteq> {REG_SCREEN_CTRL, REG_SCREEN_DATA}"
    using assms unfolding screen_only_def by blast
  then show ?thesis
    unfolding screen_only_def
    by (intro exI [of _ m'] exI [of _ off'] exI [of _ "ops @ ops'"]) (auto simp: image_Un)
qed

lemma screen_only_cursor:
  "screen_only io s (set_cursor_offset io off' (s\<lparr>mem := m, cursor_offset := off\<rparr>))"
  unfolding screen_only_def set_cursor_offset_dev
  by (intro exI [of _ m] exI [of _ off] exI [of _ "[(REG_SCREEN_CTRL, 14),
      (REG_SCREEN_DATA, word_of_int (drop_bit 8 (off' sdiv 2))), (REG_SCREEN_CTRL, 15),
      (REG_SCREEN_DATA, word_of_int ((off' sdiv 2) AND 0xFF))]"]) simp

lemma print_char_only: "screen_only io s (snd (print_char io c col row attr s))"
proof -
  obtain m off off' where "snd (print_char io c col row attr s)
    = set_cursor_offset io off' (s\<lparr>mem := m, cursor_offset := off\<rparr>)"
  proof (rule that)
    show "snd (print_char io c col row attr s) = set_cursor_offset io
      (cursor_offset (snd (print_char io c col row attr s)))
      (s\<lparr>mem := mem (snd (print_char io c col row attr s)),
         cursor_offset := cursor_offset (snd (print_char io c col row attr s))\<rparr>)"
      by (simp add: print_char_def Let_def)
  qed
  then show ?thesis by (simp add: screen_only_cursor)
qed

lemma print_at_loop_returns:
  "0 \<in> set msg \<Longrightarrow> \<exists>s'. print_at_loop io msg col row s = Some s' \<and> screen_only io s s'"
proof (induction msg arbitrary: s)
  case (Cons c cs)
  show ?case
  proof (cases "c = 0")
    case True
    then show ?thesis by (simp add: screen_only_refl)
  next
    case False
    obtain off s1 where p: "print_char io c col row (screen_color s) s = (off, s1)" by fastforce
    then have "screen_only io s s1" using print_char_only [of io s c col row "screen_color s"] by simp
    moreover have "screen_only io s1 (s1\<lparr>cursor_offset := off\<rparr>)"
      unfolding screen_only_def by (intro exI [of _ "mem s1"] exI [of _ off] exI [of _ "[]"]) simp
    ultimately have "screen_only io s (s1\<lparr>cursor_offset := off\<rparr>)" by (rule screen_only_trans)
    then show ?thesis
      using Cons False p screen_only_trans by (fastforce split: if_splits)
  qed
qed simp

lemma print_string_returns:
  assumes "0 \<in> set msg"
  obtains s' where "print_string io msg s = Some s'" "screen_only io s s'"
  using print_at_loop_returns [OF assms, of io "-1" "-1" s] by (auto simp: print_string_def print_at_def)

definition blank_loop :: "nat \<Rightarrow> u8 \<Rightarrow> ram \<Rightarrow> ram" where
  "blank_loop n a m = fold (\<lambda>i m. m(vid (int i * 2) := 32, vid (int i * 2 + 1) := a)) [0..<n] m"

lemma blank_loop_Suc:
  "blank_loop (Suc n) a m = (blank_loop n a m)(vid (2 * int n) := 32, vid (2 * int n + 1) := a)"
  by (simp add: blank_loop_def mult.commute)

lemma blank_loop_inside:
  assumes "n \<le> 2000" "i < n"
  shows "blank_loop n a m (vid (2 * int i)) = 32 \<and> blank_loop n a m (vid (2 * int i + 1)) = a"
  using assms
proof (induction n)
  case (Suc n)
  have neq: "2 * int i \<noteq> 2 * int n + 1" "2 * int i + 1 \<noteq> 2 * int n" by presburger+
  show ?case
  proof (cases "i = n")
    case True
    then show ?thesis using Suc.prems by (simp add: blank_loop_Suc vid_eq_iff)
  next
    case False
    then show ?thesis using Suc neq by (simp add: blank_loop_Suc vid_eq_iff)
  qed
qed simp

lemma blank_loop_outside:
  assumes "n \<le> 2000" "x \<notin> region VIDEO_ADDRESS 4000"
  shows "blank_loop n a m x = m x"
  using assms
proof (induction n)
  case (Suc n)
  have "vid (2 * int n) \<in> region VIDEO_ADDRESS 4000" "vid (2 * int n + 1) \<in> region VIDEO_ADDRESS 4000"
    using Suc.prems(1) by (intro vid_in_screen; simp)+
  then have "x \<noteq> vid (2 * int n)" "x \<noteq> vid (2 * int n + 1)" using Suc.prems(2) by blast+
  then show ?case using Suc by (simp add: blank_loop_Suc)
qed (simp add: blank_loop_def)

text \<open>\<open>clear_screen\<close> blanks all 2000 cells, puts the cursor home, and writes nothing outside
  the video memory of the 80 by 25 text screen.\<close>

theorem clear_screen_blank:
  "(\<forall>i < 2000. mem (clear_screen io s) (vid (2 * int i)) = 32
      \<and> mem (clear_screen io s) (vid (2 * int i + 1)) = WHITE_ON_BLACK)
    \<and> (\<forall>x. x \<notin> region VIDEO_ADDRESS 4000 \<longrightarrow> mem (clear_screen io s) x = mem s x)
    \<and> cursor_offset (clear_screen io s) = 0 \<and> screen_color (clear_screen io s) = screen_color s"
proof -
  have "mem (clear_screen io s) = blank_loop 2000 WHITE_ON_BLACK (mem s)"
    by (simp add: clear_screen_def blank_loop_def Let_def MAX_COLS_def MAX_ROWS_def)
  moreover have "cursor_offset (clear_screen io s) = 0" "screen_color (clear_screen io s) = screen_color s"
    by (simp_all add: clear_screen_def Let_def)
  ultimately show ?thesis
    using blank_loop_inside [of 2000] blank_loop_outside [of 2000] by simp
qed

theorem clear_screen_blank_witness:
  "mem (clear_screen log_io boot_screen) (vid 10) = 32 \<and> mem (clear_screen log_io boot_screen) 0 = 0"
proof -
  have "(0 :: u32) \<notin> region VIDEO_ADDRESS 4000" by (simp add: VIDEO_ADDRESS_def)
  then show ?thesis
    using clear_screen_blank [of log_io boot_screen]
    by (auto simp: boot_screen_def dest: spec [of _ "5 :: nat"])
qed

section \<open>What the screen does not do\<close>

lemma print_at_loop_newlines:
  assumes "cursor_offset s = 160 * int k"
  shows "\<exists>d. print_at_loop io (replicate n 10 @ cs) (-1) (-1) s
    = print_at_loop io cs (-1) (-1) (s\<lparr>dev := d, cursor_offset := 160 * int (k + n)\<rparr>)"
  using assms
proof (induction n arbitrary: s k)
  case 0
  have "s\<lparr>dev := dev s, cursor_offset := 160 * int k\<rparr> = s" using 0 by simp
  then show ?case by (metis add_0_right append_Nil replicate_0)
next
  case (Suc n)
  define t where "t = s\<lparr>dev := dev (snd (print_char io 10 (-1) (-1) (screen_color s) s)),
      cursor_offset := 160 * int (k + 1)\<rparr>"
  have "print_char io 10 (-1) (-1) (screen_color s) s = (160 * int (k + 1), t)"
    using Suc.prems by (simp add: t_def print_char_def Let_def set_cursor_offset_dev get_offset_def
        screen_consts sdiv_nonneg algebra_simps)
  moreover have "t\<lparr>cursor_offset := 160 * int (k + 1)\<rparr> = t" by (simp add: t_def)
  ultimately have "print_at_loop io (replicate (Suc n) 10 @ cs) (-1) (-1) s
      = print_at_loop io (replicate n 10 @ cs) (-1) (-1) t" by simp
  moreover obtain d where "print_at_loop io (replicate n 10 @ cs) (-1) (-1) t
      = print_at_loop io cs (-1) (-1) (t\<lparr>dev := d, cursor_offset := 160 * int (k + 1 + n)\<rparr>)"
    using Suc.IH [of t "k + 1"] by (auto simp: t_def)
  ultimately show ?case by (intro exI [of _ d]) (simp add: t_def)
qed

text \<open>There is no scrolling and no wrap-around. From the top of a screen, 25 line feeds put
  the cursor behind the last cell, and the next character is stored outside of the text
  buffer.\<close>

theorem print_string_leaves_screen:
  assumes "cursor_offset s = 0" and "printable c"
  shows "\<exists>s'. print_string io (replicate 25 10 @ [c, 0]) s = Some s' \<and> mem s' (vid 4000) = c
    \<and> vid 4000 \<notin> region VIDEO_ADDRESS 4000 \<and> cursor_offset s' = 4002"
proof -
  obtain d where "print_at_loop io (replicate 25 10 @ [c, 0]) (-1) (-1) s
      = print_at_loop io [c, 0] (-1) (-1) (s\<lparr>dev := d, cursor_offset := 160 * int (0 + 25)\<rparr>)"
    using print_at_loop_newlines [of s 0 io 25 "[c, 0]"] assms(1) by auto
  moreover obtain e where "print_at_loop io ([c] @ 0 # []) (-1) (-1) (s\<lparr>dev := d, cursor_offset := 4000\<rparr>)
      = Some (s\<lparr>mem := put_cells (mem s) 4000 [c] (cell_attr (screen_color s)),
          dev := e, cursor_offset := 4002\<rparr>)"
    using print_at_loop_printable [of "[c]" io "[]" "s\<lparr>dev := d, cursor_offset := 4000\<rparr>"] assms(2)
    by auto
  moreover have "put_cells (mem s) 4000 [c] a (vid 4000) = c" for a
    by (simp add: vid_eq_iff)
  moreover have "vid 4000 \<notin> region VIDEO_ADDRESS 4000"
    by (simp add: vid_def VIDEO_ADDRESS_def)
  ultimately show ?thesis by (simp add: print_string_def print_at_def)
qed

theorem print_string_leaves_screen_witness:
  "\<exists>s'. print_string log_io (replicate 25 10 @ [65, 0]) boot_screen = Some s' \<and> mem s' (vid 4000) = 65"
  using print_string_leaves_screen [of boot_screen 65 log_io] by (auto simp: boot_screen_def printable_def)

lemma print_at_loop_fixed:
  assumes "list_all printable cs" "cs \<noteq> []" "0 \<le> col" "0 \<le> row" "get_offset col row + 1 < 4294967296"
  shows "\<exists>s'. print_at_loop io (cs @ 0 # rest) col row s = Some s'
    \<and> mem s' = (mem s)(vid (get_offset col row) := last cs,
         vid (get_offset col row + 1) := cell_attr (screen_color s))
    \<and> cursor_offset s' = get_offset col row + 2"
  using assms(1,2)
proof (induction cs arbitrary: s)
  case (Cons c cs)
  have off: "0 \<le> get_offset col row"
    using assms(3,4) by (simp add: get_offset_def screen_consts)
  obtain t where t: "print_char io c col row (screen_color s) s = (get_offset col row + 2, t)"
    and m: "mem t = (mem s)(vid (get_offset col row) := c,
        vid (get_offset col row + 1) := cell_attr (screen_color s))"
    and col: "screen_color t = screen_color s"
    using Cons.prems assms(3,4)
    by (simp add: print_char_def Let_def printable_def cell_attr_def set_cursor_offset_dev)
  have step: "print_at_loop io ((c # cs) @ 0 # rest) col row s
      = print_at_loop io (cs @ 0 # rest) col row (t\<lparr>cursor_offset := get_offset col row + 2\<rparr>)"
    using t Cons.prems by (simp add: printable_def)
  show ?case
  proof (cases "cs = []")
    case True
    then show ?thesis unfolding step using m by (simp add: fun_upd_def)
  next
    case False
    then obtain s' where "print_at_loop io (cs @ 0 # rest) col row
          (t\<lparr>cursor_offset := get_offset col row + 2\<rparr>) = Some s'"
      and "mem s' = (mem t)(vid (get_offset col row) := last cs,
         vid (get_offset col row + 1) := cell_attr (screen_color s))"
      and "cursor_offset s' = get_offset col row + 2"
      using Cons.IH [of "t\<lparr>cursor_offset := get_offset col row + 2\<rparr>"] Cons.prems col
      by (auto simp: fun_upd_def)
    moreover have "vid (get_offset col row) \<noteq> vid (get_offset col row + 1)"
      using off assms(5) by (simp add: vid_eq_iff)
    ultimately show ?thesis
      unfolding step using m False by (auto simp: fun_eq_iff)
  qed
qed simp

text \<open>\<open>print_at\<close> with a position prints every character of the message into the same cell,
  since the loop passes the position on to \<open>print_char\<close>: only the last one remains.\<close>

theorem print_at_overprints:
  assumes "list_all printable cs" and "cs \<noteq> []" and "0 \<le> col" and "col < MAX_COLS"
    and "0 \<le> row" and "row < MAX_ROWS"
  shows "\<exists>s'. print_at io (cs @ 0 # rest) col row s = Some s'
    \<and> mem s' = (mem s)(vid (get_offset col row) := last cs,
         vid (get_offset col row + 1) := cell_attr (screen_color s))"
proof -
  have "get_offset col row + 1 < 4294967296"
    using assms(3-6) by (simp add: get_offset_def screen_consts)
  then show ?thesis
    using print_at_loop_fixed [OF assms(1,2,3,5), of io rest "s\<lparr>cursor_offset := get_offset col row\<rparr>"]
      assms(3,5) by (auto simp: print_at_def)
qed

theorem print_at_overprints_witness:
  "\<exists>s'. print_at log_io [72, 105, 0] 3 4 boot_screen = Some s'
    \<and> mem s' = (\<lambda>_. 0)(vid (get_offset 3 4) := 105, vid (get_offset 3 4 + 1) := 0x0F)"
  using print_at_overprints [of "[72, 105]" 3 4 log_io "[]" boot_screen]
  by (simp add: printable_def boot_screen_def screen_consts cell_attr_def)

end
