(* ===== verification/Chain.thy ===== *)
theory Chain
  imports Prelude
begin

text \<open>
  NULL-terminated singly linked lists, as the kernel keeps them for heap blocks, path parts,
  processes and tasks. A list is described by the function \<open>nxt\<close> that reads the \<open>next\<close>
  field of the node at an address: \<open>chain nxt p xs\<close> says that following it from \<open>p\<close>
  visits the addresses \<open>xs\<close> and then NULL.
\<close>

named_theorems chain_simps \<open>a linked list after a write to one of its next fields\<close>

fun chain :: "(u32 \<Rightarrow> u32) \<Rightarrow> u32 \<Rightarrow> u32 list \<Rightarrow> bool" where
  "chain nxt p [] \<longleftrightarrow> p = 0"
| "chain nxt p (x # xs) \<longleftrightarrow> p \<noteq> 0 \<and> x = p \<and> chain nxt (nxt p) xs"

lemma chain_NULL [simp]: "chain nxt 0 xs \<longleftrightarrow> xs = []"
  by (cases xs) auto

lemma chain_not_NULL: "chain nxt p xs \<Longrightarrow> p \<noteq> 0 \<Longrightarrow> \<exists>ys. xs = p # ys \<and> chain nxt (nxt p) ys"
  by (cases xs) auto

lemma chain_nonzero: "chain nxt p xs \<Longrightarrow> x \<in> set xs \<Longrightarrow> x \<noteq> 0"
  by (induction xs arbitrary: p) auto

lemma chain_cong:
  "(\<And>x. x \<in> set xs \<Longrightarrow> nxt x = nxt' x) \<Longrightarrow> chain nxt p xs \<longleftrightarrow> chain nxt' p xs"
  by (induction xs arbitrary: p) auto

lemma chain_unique: "chain nxt p xs \<Longrightarrow> chain nxt p ys \<Longrightarrow> xs = ys"
proof (induction xs arbitrary: p ys)
  case (Cons x xs)
  then show ?case by (cases ys) auto
qed auto

text \<open>A list segment: from \<open>p\<close> through \<open>xs\<close> up to \<open>q\<close>.\<close>

fun segment :: "(u32 \<Rightarrow> u32) \<Rightarrow> u32 \<Rightarrow> u32 list \<Rightarrow> u32 \<Rightarrow> bool" where
  "segment nxt p [] q \<longleftrightarrow> p = q"
| "segment nxt p (x # xs) q \<longleftrightarrow> p \<noteq> 0 \<and> x = p \<and> segment nxt (nxt p) xs q"

lemma segment_cong:
  "(\<And>x. x \<in> set xs \<Longrightarrow> nxt x = nxt' x) \<Longrightarrow> segment nxt p xs q \<longleftrightarrow> segment nxt' p xs q"
  by (induction xs arbitrary: p) auto

lemma chain_append [chain_simps]:
  "chain nxt p (xs @ ys) \<longleftrightarrow> (\<exists>q. segment nxt p xs q \<and> chain nxt q ys)"
  by (induction xs arbitrary: p) auto

lemma segment_fun_upd [chain_simps]:
  "t \<notin> set xs \<Longrightarrow> segment (nxt(t := v)) p xs q \<longleftrightarrow> segment nxt p xs q"
  by (rule segment_cong) auto

lemma chain_fun_upd [chain_simps]:
  "t \<notin> set xs \<Longrightarrow> chain (nxt(t := v)) p xs \<longleftrightarrow> chain nxt p xs"
  by (rule chain_cong) auto

text \<open>Linking a new node behind node \<open>t\<close>: whatever followed \<open>t\<close> is cut off.\<close>

lemma chain_link:
  assumes "chain nxt p (xs @ t # ys)" "distinct (xs @ [t])" "q \<noteq> 0" "q \<notin> set (xs @ [t])"
  shows "chain (nxt(t := q, q := 0)) p (xs @ [t, q])"
  using assms by (auto simp: chain_simps)

text \<open>Unlinking node \<open>x\<close> behind node \<open>a\<close>.\<close>

lemma chain_unlink:
  assumes "chain nxt p (xs @ a # x # ys)" "distinct (xs @ a # x # ys)"
  shows "chain (nxt(a := nxt x)) p (xs @ a # ys)"
  using assms by (auto simp: chain_simps)

end
