(* ===== verification/Allocator.thy ===== *)
theory Allocator
  imports Prelude
begin

text \<open>
  The interface between the heap and its clients (page tables, path parts, descriptors,
  processes, tasks): a locale with the operations a client calls and the laws it relies on,
  and what follows for clients that allocate several regions. \<open>src/memory/heap/kheap.c\<close>
  provides it twice, in the theory \<open>KHeap\<close>: with \<open>kmalloc\<close> and with \<open>kmalloc_a\<close>.
\<close>

text \<open>Several allocations in a row, as the constructors of the kernel make them.\<close>

fun alloc_all ::
  "(u32 \<Rightarrow> 'h \<Rightarrow> (u32 \<times> 'h) option) \<Rightarrow> u32 list \<Rightarrow> 'h \<Rightarrow> (u32 list \<times> 'h) option" where
  "alloc_all al [] h = Some ([], h)"
| "alloc_all al (n # ns) h =
     do { (p, h) \<leftarrow> al n h; (ps, h) \<leftarrow> alloc_all al ns h; Some (p # ps, h) }"

definition sum_sizes :: "nat \<Rightarrow> u32 list \<Rightarrow> nat" where
  "sum_sizes overhead ns = (\<Sum>n\<leftarrow>ns. overhead + unat n)"

lemma sum_sizes_simps [simp]:
  "sum_sizes v [] = 0" "sum_sizes v (n # ns) = v + unat n + sum_sizes v ns"
  by (simp_all add: sum_sizes_def)

locale allocator =
  fixes owns :: "'h \<Rightarrow> (u32 \<times> nat) set \<Rightarrow> bool"
    and ram_of :: "'h \<Rightarrow> ram"
    and used :: "'h \<Rightarrow> nat"
    and alloc :: "u32 \<Rightarrow> 'h \<Rightarrow> (u32 \<times> 'h) option"
    and dealloc :: "u32 \<Rightarrow> 'h \<Rightarrow> 'h"
    and admissible :: "u32 \<Rightarrow> bool"
    and overhead :: nat
  assumes owns_apart:
      "owns h L \<Longrightarrow> (p, n) \<in> L \<Longrightarrow> (q, k) \<in> L \<Longrightarrow> p \<noteq> q \<Longrightarrow> region p n \<inter> region q k = {}"
    and alloc_law:
      "owns h L \<Longrightarrow> admissible sz \<Longrightarrow> used h + overhead + unat sz < 4294967296 \<Longrightarrow>
       \<exists>p h'. alloc sz h = Some (p, h') \<and> p \<noteq> 0 \<and> owns h' (insert (p, unat sz) L)
         \<and> (\<forall>q k. (q, k) \<in> L \<longrightarrow> q \<noteq> p \<and> (\<forall>x \<in> region q k. ram_of h' x = ram_of h x))
         \<and> used h' \<le> used h + overhead + unat sz"
    and dealloc_law:
      "owns h L \<Longrightarrow> (p, n) \<in> L \<Longrightarrow> owns (dealloc p h) (L - {(p, n)})
         \<and> (\<forall>q k. (q, k) \<in> L \<longrightarrow> (\<forall>x \<in> region q k. ram_of (dealloc p h) x = ram_of h x))"
begin

lemma alloc_fresh:
  assumes "owns h L" "admissible n" "used h + overhead + unat n < 4294967296"
  shows "\<exists>p h'. alloc n h = Some (p, h') \<and> p \<noteq> 0 \<and> owns h' (insert (p, unat n) L)
    \<and> (\<forall>q k. (q, k) \<in> L \<longrightarrow> region q k \<inter> region p (unat n) = {}
        \<and> (\<forall>x \<in> region q k. ram_of h' x = ram_of h x))"
proof -
  obtain p h' where k: "alloc n h = Some (p, h')" "p \<noteq> 0" "owns h' (insert (p, unat n) L)"
    "\<forall>q k. (q, k) \<in> L \<longrightarrow> q \<noteq> p \<and> (\<forall>x \<in> region q k. ram_of h' x = ram_of h x)"
    using alloc_law [OF assms] by blast
  have "region q m \<inter> region p (unat n) = {}" if "(q, m) \<in> L" for q m
    using owns_apart [OF k(3)] k(4) that by blast
  then show ?thesis using k by blast
qed

lemma alloc_all_owns:
  assumes "owns h L" "list_all admissible ns" "used h + sum_sizes overhead ns < 4294967296"
  shows "\<exists>ps h'. alloc_all alloc ns h = Some (ps, h') \<and> length ps = length ns \<and> distinct ps
    \<and> owns h' (set (zip ps (map unat ns)) \<union> L)
    \<and> (\<forall>q k. (q, k) \<in> L \<longrightarrow> q \<notin> set ps \<and> (\<forall>x \<in> region q k. ram_of h' x = ram_of h x))"
  using assms
proof (induction ns arbitrary: h L)
  case Nil
  then show ?case by auto
next
  case (Cons n ns)
  obtain p h1 where k: "alloc n h = Some (p, h1)" "owns h1 (insert (p, unat n) L)"
    "\<forall>q k. (q, k) \<in> L \<longrightarrow> q \<noteq> p \<and> (\<forall>x \<in> region q k. ram_of h1 x = ram_of h x)"
    "used h1 \<le> used h + overhead + unat n"
    using alloc_law [OF Cons.prems(1), of n] Cons.prems(2,3) by auto
  obtain ps h' where r: "alloc_all alloc ns h1 = Some (ps, h')" "length ps = length ns" "distinct ps"
    "owns h' (set (zip ps (map unat ns)) \<union> insert (p, unat n) L)"
    "\<forall>q k. (q, k) \<in> insert (p, unat n) L \<longrightarrow> q \<notin> set ps \<and> (\<forall>x \<in> region q k. ram_of h' x = ram_of h1 x)"
    using Cons.IH [OF k(2)] Cons.prems(2,3) k(4) by auto
  have "ram_of h' x = ram_of h x" if "(q, m) \<in> L" "x \<in> region q m" for q m x
    using k(3) r(5) that by simp
  moreover have "q \<notin> set (p # ps)" if "(q, m) \<in> L" for q m
    using k(3) r(5) that by simp
  moreover have "p \<notin> set ps" using r(5) by blast
  ultimately show ?case
    using k(1) r by (intro exI [of _ "p # ps"] exI [of _ h']) (simp del: in_region)
qed

lemma alloc_all_disjoint:
  assumes "owns h L" "list_all admissible ns" "used h + sum_sizes overhead ns < 4294967296"
  shows "\<exists>ps h'. alloc_all alloc ns h = Some (ps, h') \<and> length ps = length ns
    \<and> owns h' (set (zip ps (map unat ns)) \<union> L)
    \<and> (\<forall>i < length ns. \<forall>j < length ns. i \<noteq> j \<longrightarrow>
        region (ps ! i) (unat (ns ! i)) \<inter> region (ps ! j) (unat (ns ! j)) = {})
    \<and> (\<forall>q k. (q, k) \<in> L \<longrightarrow> (\<forall>x \<in> region q k. ram_of h' x = ram_of h x))"
proof -
  obtain ps h' where k: "alloc_all alloc ns h = Some (ps, h')" "length ps = length ns" "distinct ps"
    "owns h' (set (zip ps (map unat ns)) \<union> L)"
    "\<forall>q k. (q, k) \<in> L \<longrightarrow> q \<notin> set ps \<and> (\<forall>x \<in> region q k. ram_of h' x = ram_of h x)"
    using alloc_all_owns [OF assms] by blast
  have "(ps ! i, unat (ns ! i)) \<in> set (zip ps (map unat ns)) \<union> L" if "i < length ns" for i
    using that k(2) by (auto simp: set_zip)
  then have "region (ps ! i) (unat (ns ! i)) \<inter> region (ps ! j) (unat (ns ! j)) = {}"
    if "i < length ns" "j < length ns" "i \<noteq> j" for i j
    using owns_apart [OF k(4)] that k(2,3) by (metis nth_eq_iff_index_eq)
  then show ?thesis using k by (intro exI [of _ ps] exI [of _ h']) (simp del: in_region)
qed

lemma alloc_dealloc:
  assumes "owns h L" "admissible n" "used h + overhead + unat n < 4294967296"
  shows "\<exists>p h'. alloc n h = Some (p, h') \<and> owns (dealloc p h') L
    \<and> (\<forall>q k. (q, k) \<in> L \<longrightarrow> (\<forall>x \<in> region q k. ram_of (dealloc p h') x = ram_of h x))"
proof -
  obtain p h' where k: "alloc n h = Some (p, h')" "owns h' (insert (p, unat n) L)"
    "\<forall>q k. (q, k) \<in> L \<longrightarrow> q \<noteq> p \<and> (\<forall>x \<in> region q k. ram_of h' x = ram_of h x)"
    using alloc_law [OF assms] by blast
  then have "(p, unat n) \<notin> L" by blast
  then have L: "insert (p, unat n) L - {(p, unat n)} = L" by blast
  note d = dealloc_law [OF k(2), of p "unat n", unfolded L]
  have "ram_of (dealloc p h') x = ram_of h x" if "(q, m) \<in> L" "x \<in> region q m" for q m x
    using d k(3) that by simp
  then show ?thesis
    using k(1) d by (intro exI [of _ p] exI [of _ h']) (simp del: in_region)
qed

end

end
