(* ===== verification/KHeap.thy ===== *)
theory KHeap
  imports Screen Chain Allocator
begin

text \<open>
  The kernel heap of \<open>src/memory/heap/kheap.c\<close>: a first-fit allocator over a singly linked
  list of blocks, each a 16-byte header (\<open>block_meta_t\<close>) in RAM followed by its payload.
  New blocks are carved off at \<open>placement_address\<close>, which only grows by design.
\<close>

section \<open>State and operations\<close>

record 'd kheap = "'d screen" +
  placement_address :: u32
  global_base :: u32

text \<open>\<open>sizeof(block_meta_t)\<close> and the four fields of the header at address \<open>b\<close>.\<close>

definition META_SIZE :: u32 where "META_SIZE = 16"

definition meta_size :: "ram \<Rightarrow> u32 \<Rightarrow> u32" where "meta_size m b = read32 m b"
definition meta_next :: "ram \<Rightarrow> u32 \<Rightarrow> u32" where "meta_next m b = read32 m (b + 4)"
definition meta_free :: "ram \<Rightarrow> u32 \<Rightarrow> u32" where "meta_free m b = read32 m (b + 8)"
definition meta_magic :: "ram \<Rightarrow> u32 \<Rightarrow> u32" where "meta_magic m b = read32 m (b + 12)"

definition set_size :: "u32 \<Rightarrow> u32 \<Rightarrow> ram \<Rightarrow> ram" where "set_size b v m = write32 m b v"
definition set_next :: "u32 \<Rightarrow> u32 \<Rightarrow> ram \<Rightarrow> ram" where "set_next b v m = write32 m (b + 4) v"
definition set_free :: "u32 \<Rightarrow> u32 \<Rightarrow> ram \<Rightarrow> ram" where "set_free b v m = write32 m (b + 8) v"
definition set_magic :: "u32 \<Rightarrow> u32 \<Rightarrow> ram \<Rightarrow> ram" where "set_magic b v m = write32 m (b + 12) v"

lemmas meta_defs = meta_size_def meta_next_def meta_free_def meta_magic_def
  set_size_def set_next_def set_free_def set_magic_def

definition MAGIC_NEW :: u32 where "MAGIC_NEW = 0x12345678"
definition MAGIC_REUSED :: u32 where "MAGIC_REUSED = 0x77777777"

definition kheap_init :: "'d port_io \<Rightarrow> ('d, 'z) kheap_scheme \<Rightarrow> ('d, 'z) kheap_scheme option" where
  "kheap_init io h = print_string io (bytes_of ''Initializing Heap...'' @ [10, 0]) h"

text \<open>The walk of \<open>find_free_block\<close>: the first block that is free and large enough, with the
  node visited just before it. It does not return when the list has a cycle.\<close>

partial_function (option) find_free_loop ::
  "ram \<Rightarrow> u32 \<Rightarrow> u32 \<Rightarrow> u32 \<Rightarrow> (u32 \<times> u32) option" where
  "find_free_loop m lastb current sz =
     (if current \<noteq> 0 \<and> \<not> (meta_free m current \<noteq> 0 \<and> sz \<le> meta_size m current)
      then find_free_loop m current (meta_next m current) sz
      else Some (lastb, current))"

definition find_free_block ::
  "u32 \<Rightarrow> u32 \<Rightarrow> ('d, 'z) kheap_scheme \<Rightarrow> (u32 \<times> u32) option" where
  "find_free_block lastb sz h = find_free_loop (mem h) lastb (global_base h) sz"

definition request_space ::
  "u32 \<Rightarrow> u32 \<Rightarrow> ('d, 'z) kheap_scheme \<Rightarrow> u32 \<times> ('d, 'z) kheap_scheme" where
  "request_space lastb sz h =
     (let block = placement_address h;
          h = h\<lparr>placement_address := placement_address h + (sz + META_SIZE)\<rparr>;
          h = (if lastb \<noteq> 0 then h\<lparr>mem := set_next lastb block (mem h)\<rparr> else h);
          h = h\<lparr>mem := set_size block sz (mem h)\<rparr>;
          h = h\<lparr>mem := set_next block 0 (mem h)\<rparr>;
          h = h\<lparr>mem := set_free block 0 (mem h)\<rparr>;
          h = h\<lparr>mem := set_magic block MAGIC_NEW (mem h)\<rparr>
      in (block, h))"

text \<open>The adjustment made before a page-aligned block is carved off.\<close>

definition align_placement :: "('d, 'z) kheap_scheme \<Rightarrow> ('d, 'z) kheap_scheme" where
  "align_placement h =
     (let addr = placement_address h + META_SIZE
      in if addr AND 0xFFF \<noteq> 0
         then (let h = h\<lparr>placement_address := placement_address h AND 0xFFFFF000\<rparr>;
                   h = h\<lparr>placement_address := placement_address h + 0x1000\<rparr>;
                   h = h\<lparr>placement_address := placement_address h - META_SIZE\<rparr>
               in h)
         else h)"

text \<open>\<open>kmalloc_int sz align phys\<close>; the pointer \<open>phys\<close> is 0 for NULL.\<close>

definition kmalloc_int ::
  "u32 \<Rightarrow> int \<Rightarrow> u32 \<Rightarrow> ('d, 'z) kheap_scheme \<Rightarrow> (u32 \<times> ('d, 'z) kheap_scheme) option" where
  "kmalloc_int sz align phys h =
     (if sz = 0 then Some (0, h)
      else do {
        (block, h) \<leftarrow>
          (if global_base h = 0
           then (let h = (if align = 1 then align_placement h else h);
                     (block, h) = request_space 0 sz h
                 in Some (block, if block = 0 then h else h\<lparr>global_base := block\<rparr>))
           else do {
             (lastb, block) \<leftarrow> find_free_block (global_base h) sz h;
             let block =
               (if block \<noteq> 0 \<and> align \<noteq> 0 \<and> (block + META_SIZE) AND 0xFFF \<noteq> 0 then 0 else block);
             Some (if block = 0
                   then request_space lastb sz (if align = 1 then align_placement h else h)
                   else (block, h\<lparr>mem := set_magic block MAGIC_REUSED (set_free block 0 (mem h))\<rparr>))
           });
        if block = 0 then Some (0, h)
        else (let v_addr = block + META_SIZE
              in Some (v_addr, if phys \<noteq> 0 then h\<lparr>mem := write32 (mem h) phys v_addr\<rparr> else h))
      })"

definition kmalloc :: "u32 \<Rightarrow> ('d, 'z) kheap_scheme \<Rightarrow> (u32 \<times> ('d, 'z) kheap_scheme) option" where
  "kmalloc sz h = kmalloc_int sz 0 0 h"

definition kmalloc_a :: "u32 \<Rightarrow> ('d, 'z) kheap_scheme \<Rightarrow> (u32 \<times> ('d, 'z) kheap_scheme) option" where
  "kmalloc_a sz h = kmalloc_int sz 1 0 h"

definition kmalloc_p ::
  "u32 \<Rightarrow> u32 \<Rightarrow> ('d, 'z) kheap_scheme \<Rightarrow> (u32 \<times> ('d, 'z) kheap_scheme) option" where
  "kmalloc_p sz phys h = kmalloc_int sz 0 phys h"

definition kmalloc_ap ::
  "u32 \<Rightarrow> u32 \<Rightarrow> ('d, 'z) kheap_scheme \<Rightarrow> (u32 \<times> ('d, 'z) kheap_scheme) option" where
  "kmalloc_ap sz phys h = kmalloc_int sz 1 phys h"

definition kfree :: "u32 \<Rightarrow> ('d, 'z) kheap_scheme \<Rightarrow> ('d, 'z) kheap_scheme" where
  "kfree ptr h =
     (if ptr = 0 then h
      else (let block = ptr - META_SIZE
            in if meta_magic (mem h) block \<noteq> MAGIC_NEW \<and> meta_magic (mem h) block \<noteq> MAGIC_REUSED
               then h
               else h\<lparr>mem := set_free block 1 (mem h)\<rparr>))"

section \<open>Headers\<close>

text \<open>A header at \<open>b\<close> is the region of 16 bytes there; it must not wrap around.\<close>

definition fits_ram :: "u32 \<Rightarrow> nat \<Rightarrow> bool" where
  "fits_ram b n \<longleftrightarrow> unat b + n \<le> 4294967296"

lemma header_addrs:
  assumes "fits_ram b 16"
  shows "unat (b + 4) = unat b + 4" "unat (b + 8) = unat b + 8" "unat (b + 12) = unat b + 12"
  using assms by (simp_all add: fits_ram_def unat_plus)

lemma set_meta_outside [ram_simps]:
  assumes "fits_ram b 16" "x \<notin> region b 16"
  shows "set_size b v m x = m x" "set_next b v m x = m x"
    "set_free b v m x = m x" "set_magic b v m x = m x"
  using assms
  by (auto simp: meta_defs fits_ram_def header_addrs [OF assms(1)] intro!: write32_outside)

lemma meta_cong:
  assumes "fits_ram b 16" "\<And>x. x \<in> region b 16 \<Longrightarrow> m x = m' x"
  shows "meta_size m b = meta_size m' b" "meta_next m b = meta_next m' b"
    "meta_free m b = meta_free m' b" "meta_magic m b = meta_magic m' b"
  using assms(1) unfolding meta_defs
  by (auto intro!: read32_cong assms(2) simp: fits_ram_def header_addrs [OF assms(1)])

lemma meta_set_same [ram_simps]:
  assumes "fits_ram b 16"
  shows "meta_size (set_size b v m) b = v" "meta_next (set_size b v m) b = meta_next m b"
    "meta_free (set_size b v m) b = meta_free m b" "meta_magic (set_size b v m) b = meta_magic m b"
    "meta_size (set_next b v m) b = meta_size m b" "meta_next (set_next b v m) b = v"
    "meta_free (set_next b v m) b = meta_free m b" "meta_magic (set_next b v m) b = meta_magic m b"
    "meta_size (set_free b v m) b = meta_size m b" "meta_next (set_free b v m) b = meta_next m b"
    "meta_free (set_free b v m) b = v" "meta_magic (set_free b v m) b = meta_magic m b"
    "meta_size (set_magic b v m) b = meta_size m b" "meta_next (set_magic b v m) b = meta_next m b"
    "meta_free (set_magic b v m) b = meta_free m b" "meta_magic (set_magic b v m) b = v"
  using assms
  by (simp_all add: meta_defs read32_write32_disj fits_ram_def header_addrs [OF assms])

text \<open>Two headers that do not overlap do not see each other's writes.\<close>

definition apart :: "u32 \<Rightarrow> u32 \<Rightarrow> bool" where
  "apart b c \<longleftrightarrow> unat b + 16 \<le> unat c \<or> unat c + 16 \<le> unat b"

lemma apart_sym: "apart b c \<Longrightarrow> apart c b"
  by (auto simp: apart_def)

lemma meta_set_apart [ram_simps]:
  assumes "fits_ram b 16" "fits_ram c 16" "apart b c"
  shows "meta_size (set_size c v m) b = meta_size m b" "meta_next (set_size c v m) b = meta_next m b"
    "meta_free (set_size c v m) b = meta_free m b" "meta_magic (set_size c v m) b = meta_magic m b"
    "meta_size (set_next c v m) b = meta_size m b" "meta_next (set_next c v m) b = meta_next m b"
    "meta_free (set_next c v m) b = meta_free m b" "meta_magic (set_next c v m) b = meta_magic m b"
    "meta_size (set_free c v m) b = meta_size m b" "meta_next (set_free c v m) b = meta_next m b"
    "meta_free (set_free c v m) b = meta_free m b" "meta_magic (set_free c v m) b = meta_magic m b"
    "meta_size (set_magic c v m) b = meta_size m b" "meta_next (set_magic c v m) b = meta_next m b"
    "meta_free (set_magic c v m) b = meta_free m b" "meta_magic (set_magic c v m) b = meta_magic m b"
  using assms
  by (auto intro!: meta_cong set_meta_outside simp: apart_def)

section \<open>The invariant of the block list\<close>

definition blk_top :: "ram \<Rightarrow> u32 \<Rightarrow> nat" where
  "blk_top m b = unat b + 16 + unat (meta_size m b)"

definition good_magic :: "ram \<Rightarrow> u32 \<Rightarrow> bool" where
  "good_magic m b \<longleftrightarrow> meta_magic m b = MAGIC_NEW \<or> meta_magic m b = MAGIC_REUSED"

text \<open>\<open>bs\<close> are all blocks ever carved off, by address: they do not overlap and lie below
  \<open>placement_address\<close>. \<open>cs\<close> are the blocks that the list from \<open>global_base\<close> reaches:
  not always all of \<open>bs\<close> (see \<open>kmalloc_a_drops_blocks\<close>).\<close>

definition heap_blocks :: "('d, 'z) kheap_scheme \<Rightarrow> u32 list \<Rightarrow> u32 list \<Rightarrow> bool" where
  "heap_blocks h bs cs \<longleftrightarrow>
     sorted_wrt (\<lambda>b c. blk_top (mem h) b \<le> unat c) bs
     \<and> (\<forall>b \<in> set bs. b \<noteq> 0 \<and> blk_top (mem h) b \<le> unat (placement_address h) \<and> good_magic (mem h) b)
     \<and> set cs \<subseteq> set bs \<and> distinct cs \<and> chain (meta_next (mem h)) (global_base h) cs
     \<and> placement_address h \<noteq> 0"

lemma sorted_wrt_total:
  "sorted_wrt R xs \<Longrightarrow> x \<in> set xs \<Longrightarrow> y \<in> set xs \<Longrightarrow> x = y \<or> R x y \<or> R y x"
  by (induction xs) auto

lemma heap_blocks_total:
  assumes "heap_blocks h bs cs" "b \<in> set bs" "c \<in> set bs" "b \<noteq> c"
  shows "blk_top (mem h) b \<le> unat c \<or> blk_top (mem h) c \<le> unat b"
  using assms sorted_wrt_total [of _ bs b c] by (auto simp: heap_blocks_def)

lemma heap_blocks_below:
  assumes "heap_blocks h bs cs" "b \<in> set bs"
  shows "b \<noteq> 0" "unat b + 16 + unat (meta_size (mem h) b) \<le> unat (placement_address h)"
    "fits_ram b 16" "fits_ram (b + 16) (unat (meta_size (mem h) b))" "unat (b + 16) = unat b + 16"
proof -
  show "b \<noteq> 0" and b: "unat b + 16 + unat (meta_size (mem h) b) \<le> unat (placement_address h)"
    using assms by (auto simp: heap_blocks_def blk_top_def)
  have "unat b + 16 + unat (meta_size (mem h) b) < 4294967296"
    using b unat_less_2p32 [of "placement_address h"] by (rule le_less_trans)
  then show "unat (b + 16) = unat b + 16" "fits_ram b 16"
    "fits_ram (b + 16) (unat (meta_size (mem h) b))"
    by (simp_all add: fits_ram_def unat_plus)
qed

lemma heap_blocks_apart:
  assumes "heap_blocks h bs cs" "b \<in> set bs" "c \<in> set bs" "b \<noteq> c"
  shows "apart b c"
  using heap_blocks_total [OF assms] by (auto simp: apart_def blk_top_def)

lemma heap_blocks_distinct:
  assumes "heap_blocks h bs cs"
  shows "distinct bs"
proof -
  have "sorted_wrt (\<lambda>b c. blk_top (mem h) b \<le> unat c) bs"
    using assms by (simp add: heap_blocks_def)
  then show ?thesis by (induction bs) (auto simp: blk_top_def)
qed

lemma heap_blocks_subset: "heap_blocks h bs cs \<Longrightarrow> set cs \<subseteq> set bs"
  by (simp add: heap_blocks_def)

lemma heap_blocks_chain_distinct: "heap_blocks h bs cs \<Longrightarrow> distinct cs"
  by (simp add: heap_blocks_def)

text \<open>Moving the placement address up keeps the invariant.\<close>

lemma heap_blocks_raise:
  assumes "heap_blocks h bs cs" "unat (placement_address h) \<le> unat P"
  shows "heap_blocks (h\<lparr>placement_address := P\<rparr>) bs cs"
proof -
  have "0 < unat (placement_address h)"
    using assms(1) by (simp add: heap_blocks_def unat_gt_0)
  then have "P \<noteq> 0" using assms(2) by auto
  then show ?thesis using assms by (auto simp: heap_blocks_def intro: order.trans)
qed

text \<open>A write that leaves every header as it is keeps the invariant.\<close>

lemma heap_blocks_cong:
  assumes "heap_blocks h bs cs"
    and "\<And>b x. b \<in> set bs \<Longrightarrow> x \<in> region b 16 \<Longrightarrow> m x = mem h x"
  shows "heap_blocks (h\<lparr>mem := m\<rparr>) bs cs"
proof -
  have eq: "meta_size m b = meta_size (mem h) b" "meta_next m b = meta_next (mem h) b"
    "meta_free m b = meta_free (mem h) b" "meta_magic m b = meta_magic (mem h) b"
    if "b \<in> set bs" for b
    using meta_cong [OF heap_blocks_below(3) [OF assms(1) that]] assms(2) that by blast+
  have "chain (meta_next m) (global_base h) cs \<longleftrightarrow> chain (meta_next (mem h)) (global_base h) cs"
    by (rule chain_cong) (use eq(2) heap_blocks_subset [OF assms(1)] in blast)
  moreover have "sorted_wrt (\<lambda>b c. blk_top m b \<le> unat c) bs"
    by (rule sorted_wrt_mono_rel [of bs "\<lambda>b c. blk_top (mem h) b \<le> unat c"])
      (use assms(1) in \<open>auto simp: blk_top_def eq heap_blocks_def\<close>)
  ultimately show ?thesis
    using assms(1) by (simp add: heap_blocks_def blk_top_def good_magic_def eq)
qed

section \<open>The search for a free block\<close>

definition fits :: "ram \<Rightarrow> u32 \<Rightarrow> u32 \<Rightarrow> bool" where
  "fits m sz b \<longleftrightarrow> meta_free m b \<noteq> 0 \<and> sz \<le> meta_size m b"

text \<open>On an acyclic list the walk returns: the first fitting block and its predecessor, or
  NULL and the last block.\<close>

lemma find_free_loop_chain:
  assumes "chain (meta_next m) p cs"
  shows "\<exists>l b. find_free_loop m l0 p sz = Some (l, b)
    \<and> (b = 0 \<and> (\<forall>c \<in> set cs. \<not> fits m sz c) \<and> l = last (l0 # cs)
       \<or> (\<exists>xs ys. cs = xs @ b # ys \<and> fits m sz b \<and> (\<forall>c \<in> set xs. \<not> fits m sz c)
            \<and> l = last (l0 # xs)))"
  using assms
proof (induction cs arbitrary: p l0)
  case Nil
  then show ?case by (simp add: find_free_loop.simps)
next
  case (Cons c cs)
  then have p: "p = c" "p \<noteq> 0" "chain (meta_next m) (meta_next m c) cs" by auto
  show ?case
  proof (cases "fits m sz c")
    case True
    then have "find_free_loop m l0 p sz = Some (l0, c)"
      using p by (subst find_free_loop.simps) (auto simp: fits_def)
    then show ?thesis using True by fastforce
  next
    case False
    then have step: "find_free_loop m l0 p sz = find_free_loop m c (meta_next m c) sz"
      using p by (subst find_free_loop.simps) (auto simp: fits_def)
    obtain l b where lb: "find_free_loop m c (meta_next m c) sz = Some (l, b)"
      "b = 0 \<and> (\<forall>c \<in> set cs. \<not> fits m sz c) \<and> l = last (c # cs)
       \<or> (\<exists>xs ys. cs = xs @ b # ys \<and> fits m sz b \<and> (\<forall>c \<in> set xs. \<not> fits m sz c)
            \<and> l = last (c # xs))"
      using Cons.IH [OF p(3), of c] by blast
    from lb(2) show ?thesis
    proof (elim disjE exE conjE)
      assume "b = 0" "\<forall>c \<in> set cs. \<not> fits m sz c" "l = last (c # cs)"
      then show ?thesis using lb(1) step False by simp
    next
      fix xs ys
      assume xs: "cs = xs @ b # ys" "fits m sz b" "\<forall>c \<in> set xs. \<not> fits m sz c" "l = last (c # xs)"
      have "c # cs = (c # xs) @ b # ys" "\<forall>c \<in> set (c # xs). \<not> fits m sz c"
        "l = last (l0 # c # xs)"
        using xs False by simp_all
      then show ?thesis using lb(1) step xs(2) by metis
    qed
  qed
qed

section \<open>Carving a block off\<close>

definition carve :: "u32 \<Rightarrow> u32 \<Rightarrow> u32 \<Rightarrow> ram \<Rightarrow> ram" where
  "carve lastb sz P m =
     set_magic P MAGIC_NEW (set_free P 0 (set_next P 0 (set_size P sz
       (if lastb \<noteq> 0 then set_next lastb P m else m))))"

lemma request_space_eq:
  "request_space lastb sz h = (placement_address h,
     h\<lparr>placement_address := placement_address h + (sz + 16),
       mem := carve lastb sz (placement_address h) (mem h)\<rparr>)"
  by (simp add: request_space_def carve_def META_SIZE_def Let_def)

lemma carve_outside:
  assumes "fits_ram P 16" "x \<notin> region P 16" "lastb \<noteq> 0 \<Longrightarrow> fits_ram lastb 16 \<and> x \<notin> region lastb 16"
  shows "carve lastb sz P m x = m x"
  using assms by (simp add: carve_def ram_simps del: in_region)

lemma carve_new:
  assumes "fits_ram P 16"
  shows "meta_size (carve lastb sz P m) P = sz" "meta_next (carve lastb sz P m) P = 0"
    "meta_free (carve lastb sz P m) P = 0" "meta_magic (carve lastb sz P m) P = MAGIC_NEW"
  using assms by (simp_all add: carve_def ram_simps)

lemma carve_old:
  assumes "fits_ram P 16" "fits_ram b 16" "apart b P"
    and "lastb \<noteq> 0 \<Longrightarrow> fits_ram lastb 16 \<and> (b = lastb \<or> apart b lastb)"
  shows "meta_size (carve lastb sz P m) b = meta_size m b"
    "meta_free (carve lastb sz P m) b = meta_free m b"
    "meta_magic (carve lastb sz P m) b = meta_magic m b"
    "meta_next (carve lastb sz P m) b = (if lastb \<noteq> 0 \<and> b = lastb then P else meta_next m b)"
  using assms by (auto simp: carve_def ram_simps)

text \<open>The list after a block has been carved off and linked behind \<open>lastb\<close>, whatever came
  after \<open>lastb\<close> before; \<open>lastb = 0\<close> for the first block of all.\<close>

lemma carve_blocks:
  fixes h :: "('d, 'z) kheap_scheme"
  assumes inv: "heap_blocks h bs cs"
    and room: "unat (placement_address h) + 16 + unat sz < 4294967296"
    and lastb: "lastb = 0 \<and> cs' = [placement_address h] \<and> base = placement_address h
      \<or> cs = xs @ lastb # ys \<and> cs' = xs @ [lastb, placement_address h] \<and> base = global_base h"
  shows "heap_blocks (h\<lparr>placement_address := placement_address h + (sz + 16),
      mem := carve lastb sz (placement_address h) (mem h), global_base := base\<rparr>)
      (bs @ [placement_address h]) cs'"
proof -
  let ?P = "placement_address h"
  let ?m = "carve lastb sz ?P (mem h)"
  have P: "fits_ram ?P 16" "?P \<noteq> 0" "unat (?P + (sz + 16)) = unat ?P + 16 + unat sz"
    using room inv by (simp_all add: fits_ram_def heap_blocks_def unat_plus)
  have lastin: "lastb \<in> set bs" if "lastb \<noteq> 0"
    using lastb that heap_blocks_subset [OF inv] by auto
  have PA: "apart b ?P" "b \<noteq> ?P" if "b \<in> set bs" for b
    using heap_blocks_below [OF inv that] by (auto simp: apart_def)
  have old: "meta_size ?m b = meta_size (mem h) b" "meta_free ?m b = meta_free (mem h) b"
    "meta_magic ?m b = meta_magic (mem h) b"
    "meta_next ?m b = (if lastb \<noteq> 0 \<and> b = lastb then ?P else meta_next (mem h) b)"
    if "b \<in> set bs" for b
  proof -
    have "fits_ram lastb 16 \<and> (b = lastb \<or> apart b lastb)" if "lastb \<noteq> 0"
      using heap_blocks_below(3) [OF inv lastin [OF that]]
        heap_blocks_apart [OF inv \<open>b \<in> set bs\<close> lastin [OF that]] by blast
    note c = carve_old [OF P(1) heap_blocks_below(3) [OF inv that] PA(1) [OF that], OF this]
    show "meta_size ?m b = meta_size (mem h) b" "meta_free ?m b = meta_free (mem h) b"
      "meta_magic ?m b = meta_magic (mem h) b"
      "meta_next ?m b = (if lastb \<noteq> 0 \<and> b = lastb then ?P else meta_next (mem h) b)"
      by (rule c; assumption)+
  qed
  have "sorted_wrt (\<lambda>b c. blk_top ?m b \<le> unat c) bs"
    by (rule sorted_wrt_mono_rel [of bs "\<lambda>b c. blk_top (mem h) b \<le> unat c"])
      (use inv in \<open>simp_all add: blk_top_def old heap_blocks_def\<close>)
  moreover have top: "blk_top ?m b \<le> unat ?P" if "b \<in> set bs" for b
    using heap_blocks_below(2) [OF inv that] by (simp add: blk_top_def old that)
  ultimately have sorted: "sorted_wrt (\<lambda>b c. blk_top ?m b \<le> unat c) (bs @ [?P])"
    by (simp add: sorted_wrt_append)
  have all: "b \<noteq> 0 \<and> blk_top ?m b \<le> unat ?P + 16 + unat sz \<and> good_magic ?m b"
    if "b \<in> set (bs @ [?P])" for b
  proof (cases "b = ?P")
    case True
    then show ?thesis using P by (simp add: blk_top_def good_magic_def carve_new)
  next
    case False
    then have "b \<in> set bs" using that by simp
    then show ?thesis
      using inv top [of b] by (simp add: good_magic_def old heap_blocks_def)
  qed
  have "chain (meta_next ?m) base cs' \<and> set cs' \<subseteq> set (bs @ [?P]) \<and> distinct cs'"
    using lastb
  proof (elim disjE conjE)
    assume "lastb = 0" "cs' = [?P]" "base = ?P"
    then show ?thesis using P by (simp add: carve_new)
  next
    assume cs: "cs = xs @ lastb # ys" "cs' = xs @ [lastb, ?P]" "base = global_base h"
    have ch: "chain (meta_next (mem h)) (global_base h) cs" "set cs \<subseteq> set bs" "distinct cs"
      using inv heap_blocks_chain_distinct [OF inv] by (auto simp: heap_blocks_def)
    have new: "?P \<notin> set cs" using PA(2) heap_blocks_subset [OF inv] by blast
    have last0: "lastb \<noteq> 0" using chain_nonzero [OF ch(1)] cs(1) by auto
    have "chain ((meta_next (mem h))(lastb := ?P, ?P := 0)) (global_base h) (xs @ [lastb, ?P])"
      using ch(1,3) new P(2) unfolding cs(1) by (intro chain_link) auto
    moreover have "chain (meta_next ?m) (global_base h) (xs @ [lastb, ?P]) \<longleftrightarrow>
      chain ((meta_next (mem h))(lastb := ?P, ?P := 0)) (global_base h) (xs @ [lastb, ?P])"
    proof (rule chain_cong)
      fix x
      assume "x \<in> set (xs @ [lastb, ?P])"
      then show "meta_next ?m x = ((meta_next (mem h))(lastb := ?P, ?P := 0)) x"
        using heap_blocks_subset [OF inv] cs(1) last0 carve_new(2) [OF P(1)] PA(2)
        by (auto simp: old)
    qed
    ultimately have "chain (meta_next ?m) base cs'"
      using cs by simp
    moreover have "set cs' \<subseteq> set (bs @ [?P])" "distinct cs'"
      using ch(2,3) new cs by auto
    ultimately show ?thesis by blast
  qed
  moreover have "?P + (sz + 16) \<noteq> 0"
    using P(3) by (metis add_is_0 unat_0 zero_neq_numeral)
  ultimately show ?thesis
    using sorted all P(3) unfolding heap_blocks_def by simp
qed

section \<open>Allocation\<close>

text \<open>Where \<open>kmalloc_int\<close> takes the block from: a fitting block of the list, or a new one
  linked behind some block of the list (or made the first).\<close>

definition linked_at ::
  "u32 list \<Rightarrow> u32 \<Rightarrow> u32 \<Rightarrow> u32 \<Rightarrow> u32 list \<Rightarrow> u32 \<Rightarrow> u32 list \<Rightarrow> u32 list \<Rightarrow> bool" where
  "linked_at cs gb P l cs' base xs ys \<longleftrightarrow>
     l = 0 \<and> cs' = [P] \<and> base = P \<or> cs = xs @ l # ys \<and> cs' = xs @ [l, P] \<and> base = gb"

definition reuse :: "u32 \<Rightarrow> ('d, 'z) kheap_scheme \<Rightarrow> ('d, 'z) kheap_scheme" where
  "reuse b h = h\<lparr>mem := set_magic b MAGIC_REUSED (set_free b 0 (mem h))\<rparr>"

definition grow :: "u32 \<Rightarrow> u32 \<Rightarrow> u32 \<Rightarrow> ('d, 'z) kheap_scheme \<Rightarrow> ('d, 'z) kheap_scheme" where
  "grow l sz base h = h\<lparr>placement_address := placement_address h + (sz + 16),
     mem := carve l sz (placement_address h) (mem h), global_base := base\<rparr>"

lemma align_placement_frame [simp]:
  "mem (align_placement h) = mem h" "global_base (align_placement h) = global_base h"
  by (simp_all add: align_placement_def Let_def)

lemma kmalloc_int_cases:
  assumes inv: "heap_blocks h bs cs" and sz: "sz \<noteq> 0"
    and h1: "h1 = (if align = 1 then align_placement h else h)" "placement_address h1 \<noteq> 0"
  shows "(\<exists>b \<in> set cs. fits (mem h) sz b \<and> (align \<noteq> 0 \<longrightarrow> (b + 16) AND 0xFFF = 0)
        \<and> kmalloc_int sz align 0 h = Some (b + 16, reuse b h))
    \<or> (\<exists>l cs' base xs ys. linked_at cs (global_base h) (placement_address h1) l cs' base xs ys
        \<and> kmalloc_int sz align 0 h = Some (placement_address h1 + 16, grow l sz base h1))"
proof (cases "global_base h = 0")
  case True
  then have "kmalloc_int sz align 0 h
      = Some (placement_address h1 + 16, grow 0 sz (placement_address h1) h1)"
    using sz h1 by (auto simp: kmalloc_int_def request_space_eq META_SIZE_def grow_def Let_def)
  then show ?thesis by (auto simp: linked_at_def)
next
  case False
  have ch: "chain (meta_next (mem h)) (global_base h) cs"
    using inv by (simp add: heap_blocks_def)
  obtain ds where cs: "cs = global_base h # ds"
    using chain_not_NULL [OF ch False] by blast
  obtain l b where lb: "find_free_loop (mem h) (global_base h) (global_base h) sz = Some (l, b)"
    "b = 0 \<and> l = last (global_base h # cs)
     \<or> (\<exists>xs ys. cs = xs @ b # ys \<and> fits (mem h) sz b \<and> l = last (global_base h # xs))"
    using find_free_loop_chain [OF ch, of "global_base h" sz] by blast
  have base: "grow l sz (global_base h) h1 = h1\<lparr>placement_address := placement_address h1 + (sz + 16),
      mem := carve l sz (placement_address h1) (mem h)\<rparr>"
    using h1(1) by (simp add: grow_def)
  have link: "\<exists>xs ys. cs = xs @ l # ys"
    using lb(2)
  proof (elim disjE exE conjE)
    assume "l = last (global_base h # cs)"
    then have "l \<in> set cs" using cs by simp
    then show ?thesis by (rule split_list)
  next
    fix xs ys
    assume x: "cs = xs @ b # ys" "l = last (global_base h # xs)"
    have "l \<in> set cs"
      using x cs by (cases xs) auto
    then show ?thesis by (rule split_list)
  qed
  have new: "kmalloc_int sz align 0 h = Some (placement_address h1 + 16, grow l sz (global_base h) h1)"
    if "b = 0 \<or> align \<noteq> 0 \<and> (b + 16) AND 0xFFF \<noteq> 0"
    using that False sz h1 lb(1) unfolding base
    by (auto simp: kmalloc_int_def find_free_block_def request_space_eq META_SIZE_def Let_def)
  show ?thesis
  proof (cases "b = 0 \<or> align \<noteq> 0 \<and> (b + 16) AND 0xFFF \<noteq> 0")
    case True
    obtain xs ys where "cs = xs @ l # ys" using link by blast
    then have "linked_at cs (global_base h) (placement_address h1) l
        (xs @ [l, placement_address h1]) (global_base h) xs ys"
      by (simp add: linked_at_def)
    then show ?thesis using new [OF True] by blast
  next
    case b: False
    then have "kmalloc_int sz align 0 h = Some (b + 16, reuse b h)"
      using False sz lb(1)
      by (auto simp: kmalloc_int_def find_free_block_def META_SIZE_def reuse_def Let_def)
    moreover have "b \<in> set cs" "fits (mem h) sz b" using lb(2) b by auto
    ultimately show ?thesis using b by blast
  qed
qed

text \<open>\<open>heap_owns h L\<close>: the regions \<open>L\<close> (pointer and length) are allocated to clients.\<close>

definition backed :: "ram \<Rightarrow> u32 list \<Rightarrow> u32 \<Rightarrow> nat \<Rightarrow> bool" where
  "backed m bs p n \<longleftrightarrow>
     0 < n \<and> (\<exists>b \<in> set bs. p = b + 16 \<and> meta_free m b = 0 \<and> n \<le> unat (meta_size m b))"

definition heap_owns :: "('d, 'z) kheap_scheme \<Rightarrow> (u32 \<times> nat) set \<Rightarrow> bool" where
  "heap_owns h L \<longleftrightarrow> (\<exists>bs cs. heap_blocks h bs cs
     \<and> (\<forall>(p, n) \<in> L. backed (mem h) bs p n)
     \<and> (\<forall>(p, n) \<in> L. \<forall>(q, k) \<in> L. p = q \<longrightarrow> n = k))"

lemma heap_ownsI:
  assumes "heap_blocks h bs cs" "\<And>p n. (p, n) \<in> L \<Longrightarrow> backed (mem h) bs p n"
    and "\<And>p n k. (p, n) \<in> L \<Longrightarrow> (p, k) \<in> L \<Longrightarrow> n = k"
  shows "heap_owns h L"
proof -
  have "\<forall>(p, n) \<in> L. backed (mem h) bs p n"
    using assms(2) by auto
  moreover have "\<forall>(p, n) \<in> L. \<forall>(q, k) \<in> L. p = q \<longrightarrow> n = k"
    using assms(3) by auto
  ultimately show ?thesis using assms(1) unfolding heap_owns_def by blast
qed

lemma heap_ownsE:
  assumes "heap_owns h L"
  obtains bs cs where "heap_blocks h bs cs" "\<forall>p n. (p, n) \<in> L \<longrightarrow> backed (mem h) bs p n"
    "\<forall>p n k. (p, n) \<in> L \<longrightarrow> (p, k) \<in> L \<longrightarrow> n = k"
proof -
  obtain bs cs where o: "heap_blocks h bs cs" "\<forall>(p, n) \<in> L. backed (mem h) bs p n"
    "\<forall>(p, n) \<in> L. \<forall>(q, k) \<in> L. p = q \<longrightarrow> n = k"
    using assms by (auto simp: heap_owns_def)
  show thesis by (rule that [OF o(1)]) (use o(2,3) in auto)
qed

lemma backed_bounds:
  assumes "heap_blocks h bs cs" "backed (mem h) bs p n"
  shows "16 \<le> unat p" "unat p + n \<le> unat (placement_address h)" "0 < n" "p \<noteq> 0"
proof -
  obtain b where b: "b \<in> set bs" "p = b + 16" "n \<le> unat (meta_size (mem h) b)" "0 < n"
    using assms(2) by (auto simp: backed_def)
  note t = heap_blocks_below [OF assms(1) b(1)]
  show "0 < n" by fact
  show p: "16 \<le> unat p" "unat p + n \<le> unat (placement_address h)"
    using t(2,5) b by simp_all
  show "p \<noteq> 0" using p(1) by auto
qed

lemma backed_disjoint:
  assumes "heap_blocks h bs cs" "backed (mem h) bs p n" "backed (mem h) bs q k" "p \<noteq> q"
  shows "region p n \<inter> region q k = {}"
proof -
  obtain b where b: "b \<in> set bs" "p = b + 16" "n \<le> unat (meta_size (mem h) b)"
    using assms(2) by (auto simp: backed_def)
  obtain c where c: "c \<in> set bs" "q = c + 16" "k \<le> unat (meta_size (mem h) c)"
    using assms(3) by (auto simp: backed_def)
  have "unat p + n \<le> unat q \<or> unat q + k \<le> unat p"
    using heap_blocks_total [OF assms(1) b(1) c(1)] heap_blocks_below(5) [OF assms(1) b(1)]
      heap_blocks_below(5) [OF assms(1) c(1)] b c assms(4) by (auto simp: blk_top_def)
  then show ?thesis by (rule region_disjoint)
qed

text \<open>No payload overlaps a header.\<close>

lemma backed_header_disjoint:
  assumes "heap_blocks h bs cs" "backed (mem h) bs p n" "c \<in> set bs"
  shows "region p n \<inter> region c 16 = {}"
proof -
  obtain b where b: "b \<in> set bs" "p = b + 16" "n \<le> unat (meta_size (mem h) b)"
    using assms(2) by (auto simp: backed_def)
  have "unat p + n \<le> unat c \<or> unat c + 16 \<le> unat p"
  proof (cases "b = c")
    case True
    then show ?thesis using heap_blocks_below(5) [OF assms(1) b(1)] b by simp
  next
    case False
    then show ?thesis
      using heap_blocks_total [OF assms(1) b(1) assms(3)] heap_blocks_below(5) [OF assms(1) b(1)] b
      by (auto simp: blk_top_def)
  qed
  then show ?thesis by (rule region_disjoint)
qed

text \<open>What an allocation leaves alone: everything of the state but RAM and the two globals.\<close>

definition heap_only :: "('d, 'z) kheap_scheme \<Rightarrow> ('d, 'z) kheap_scheme \<Rightarrow> bool" where
  "heap_only h h' \<longleftrightarrow> h' = h\<lparr>mem := mem h', placement_address := placement_address h',
     global_base := global_base h'\<rparr>"

lemma heap_only_refl [simp]: "heap_only h h"
  by (simp add: heap_only_def)

lemma reuse_owns:
  assumes inv: "heap_blocks h bs cs" and L: "\<And>p n. (p, n) \<in> L \<Longrightarrow> backed (mem h) bs p n"
    "\<And>p n k. (p, n) \<in> L \<Longrightarrow> (p, k) \<in> L \<Longrightarrow> n = k"
    and b: "b \<in> set cs" "fits (mem h) sz b" and sz: "sz \<noteq> 0"
  shows "heap_owns (reuse b h) (insert (b + 16, unat sz) L)
    \<and> (\<forall>q k. (q, k) \<in> L \<longrightarrow> q \<noteq> b + 16 \<and> (\<forall>x \<in> region q k. mem (reuse b h) x = mem h x))"
proof -
  let ?m = "set_magic b MAGIC_REUSED (set_free b 0 (mem h))"
  have bin: "b \<in> set bs" using b(1) heap_blocks_subset [OF inv] by blast
  note fb = heap_blocks_below(3) [OF inv bin]
  have eq: "meta_size ?m c = meta_size (mem h) c" "meta_next ?m c = meta_next (mem h) c"
    "meta_free ?m c = (if c = b then 0 else meta_free (mem h) c)"
    "good_magic ?m c \<longleftrightarrow> c = b \<or> good_magic (mem h) c" if "c \<in> set bs" for c
    using heap_blocks_below(3) [OF inv that] fb heap_blocks_apart [OF inv that bin]
    by (cases "c = b"; simp add: ram_simps good_magic_def)+
  have chain: "chain (meta_next ?m) (global_base h) cs"
    using inv chain_cong [of cs "meta_next ?m" "meta_next (mem h)"] eq(2) heap_blocks_subset [OF inv]
    unfolding heap_blocks_def by blast
  have "sorted_wrt (\<lambda>b c. blk_top ?m b \<le> unat c) bs"
    by (rule sorted_wrt_mono_rel [of bs "\<lambda>b c. blk_top (mem h) b \<le> unat c"])
      (use inv in \<open>simp_all add: blk_top_def eq heap_blocks_def\<close>)
  then have inv': "heap_blocks (reuse b h) bs cs"
    using inv chain by (simp add: heap_blocks_def reuse_def blk_top_def eq)
  have other: "q \<noteq> b + 16" "backed ?m bs q k" if qk: "(q, k) \<in> L" for q k
  proof -
    obtain c where c: "c \<in> set bs" "q = c + 16" "meta_free (mem h) c = 0"
      "k \<le> unat (meta_size (mem h) c)" "0 < k"
      using L(1) [OF qk] by (auto simp: backed_def)
    then have "c \<noteq> b" using b(2) by (auto simp: fits_def)
    then show "q \<noteq> b + 16" "backed ?m bs q k"
      using c by (auto simp: backed_def eq intro!: bexI [of _ c])
  qed
  have "backed ?m bs (b + 16) (unat sz)"
    using b(2) bin sz by (auto simp: backed_def eq fits_def word_le_nat_alt unat_gt_0 intro!: bexI [of _ b])
  then have "heap_owns (reuse b h) (insert (b + 16, unat sz) L)"
    using inv' other L(2) by (intro heap_ownsI [OF inv']) (auto simp: reuse_def)
  moreover have "mem (reuse b h) x = mem h x" if "(q, k) \<in> L" "x \<in> region q k" for q k x
  proof -
    have "x \<notin> region b 16"
      using backed_header_disjoint [OF inv L(1) [OF that(1)] bin] that(2) by blast
    then show ?thesis using fb by (simp add: reuse_def ram_simps del: in_region)
  qed
  ultimately show ?thesis using other(1) by blast
qed

lemma grow_owns:
  fixes h :: "('d, 'z) kheap_scheme"
  assumes inv: "heap_blocks h bs cs" and L: "\<And>p n. (p, n) \<in> L \<Longrightarrow> backed (mem h) bs p n"
    "\<And>p n k. (p, n) \<in> L \<Longrightarrow> (p, k) \<in> L \<Longrightarrow> n = k"
    and link: "linked_at cs (global_base h) (placement_address h) l cs' base xs ys" and sz: "sz \<noteq> 0"
    and room: "unat (placement_address h) + 16 + unat sz < 4294967296"
  shows "heap_owns (grow l sz base h) (insert (placement_address h + 16, unat sz) L)
    \<and> (\<forall>q k. (q, k) \<in> L \<longrightarrow> q \<noteq> placement_address h + 16
        \<and> (\<forall>x \<in> region q k. mem (grow l sz base h) x = mem h x))"
proof -
  let ?P = "placement_address h"
  let ?m = "carve l sz ?P (mem h)"
  have inv': "heap_blocks (grow l sz base h) (bs @ [?P]) cs'"
    unfolding grow_def by (rule carve_blocks [OF inv room]) (use link in \<open>simp add: linked_at_def\<close>)
  have P: "fits_ram ?P 16" "unat (?P + 16) = unat ?P + 16"
    using room by (simp_all add: fits_ram_def unat_plus)
  have lin: "l \<in> set bs" if "l \<noteq> 0"
    using link that heap_blocks_subset [OF inv] by (auto simp: linked_at_def)
  have bP: "apart b ?P" if "b \<in> set bs" for b
    using heap_blocks_below(2) [OF inv that] by (auto simp: apart_def)
  have old: "meta_size ?m b = meta_size (mem h) b" "meta_free ?m b = meta_free (mem h) b"
    if "b \<in> set bs" for b
  proof -
    have "fits_ram l 16 \<and> (b = l \<or> apart b l)" if "l \<noteq> 0"
      using heap_blocks_below(3) [OF inv lin [OF that]]
        heap_blocks_apart [OF inv \<open>b \<in> set bs\<close> lin [OF that]] by blast
    note c = carve_old [OF P(1) heap_blocks_below(3) [OF inv that] bP [OF that], OF this]
    show "meta_size ?m b = meta_size (mem h) b" "meta_free ?m b = meta_free (mem h) b"
      by (rule c; assumption)+
  qed
  have other: "q \<noteq> ?P + 16" "backed ?m (bs @ [?P]) q k" if "(q, k) \<in> L" for q k
  proof -
    have k: "backed (mem h) bs q k" using L(1) that by blast
    show "backed ?m (bs @ [?P]) q k" using k by (auto simp: backed_def old)
    show "q \<noteq> ?P + 16" using backed_bounds [OF inv k] P(2) by auto
  qed
  have "backed ?m (bs @ [?P]) (?P + 16) (unat sz)"
    using sz carve_new [OF P(1)] by (auto simp: backed_def unat_gt_0)
  then have "heap_owns (grow l sz base h) (insert (?P + 16, unat sz) L)"
    using other L(2) by (intro heap_ownsI [OF inv']) (auto simp: grow_def)
  moreover have "mem (grow l sz base h) x = mem h x" if "(q, k) \<in> L" "x \<in> region q k" for q k x
  proof -
    have k: "backed (mem h) bs q k" using L(1) that(1) by blast
    have "x \<notin> region ?P 16"
      using backed_bounds(2) [OF inv k] that(2) by auto
    moreover have "fits_ram l 16 \<and> x \<notin> region l 16" if "l \<noteq> 0"
      using backed_header_disjoint [OF inv k lin [OF that]] \<open>x \<in> region q k\<close>
        heap_blocks_below(3) [OF inv lin [OF that]] by blast
    ultimately have "?m x = mem h x" by (rule carve_outside [OF P(1)])
    then show ?thesis by (simp add: grow_def)
  qed
  ultimately show ?thesis using other(1) by blast
qed

lemma heap_only_reuse: "heap_only h (reuse b h)"
  by (simp add: heap_only_def reuse_def)

lemma heap_only_grow: "heap_only h (grow l sz base h)"
  by (simp add: heap_only_def grow_def)

lemma align_placement_eq:
  "align_placement h = h\<lparr>placement_address := placement_address (align_placement h)\<rparr>"
  by (simp add: align_placement_def Let_def)

lemma heap_only_align_grow: "heap_only h (grow l sz base (align_placement h))"
  by (subst align_placement_eq) (simp add: heap_only_def grow_def)

text \<open>The allocation theorem behind both entry points.\<close>

lemma kmalloc_int_owns:
  fixes h :: "('d, 'z) kheap_scheme"
  assumes own: "heap_owns h L" and sz: "sz \<noteq> 0"
    and h1: "h1 = (if align = 1 then align_placement h else h)"
      "unat (placement_address h) \<le> unat (placement_address h1)"
    and room: "unat (placement_address h1) + 16 + unat sz < 4294967296"
  shows "\<exists>p h'. kmalloc_int sz align 0 h = Some (p, h') \<and> p \<noteq> 0 \<and> heap_only h h'
    \<and> heap_owns h' (insert (p, unat sz) L)
    \<and> (\<forall>q k. (q, k) \<in> L \<longrightarrow> q \<noteq> p \<and> (\<forall>x \<in> region q k. mem h' x = mem h x))
    \<and> (placement_address h' = placement_address h
        \<and> (align \<noteq> 0 \<longrightarrow> p AND 0xFFF = 0)
       \<or> placement_address h' = placement_address h1 + (sz + 16)
        \<and> p = placement_address h1 + 16)"
proof -
  obtain bs cs where inv: "heap_blocks h bs cs" and "\<forall>p n. (p, n) \<in> L \<longrightarrow> backed (mem h) bs p n"
    and "\<forall>p n k. (p, n) \<in> L \<longrightarrow> (p, k) \<in> L \<longrightarrow> n = k"
    using own by (rule heap_ownsE)
  then have L: "\<And>p n. (p, n) \<in> L \<Longrightarrow> backed (mem h) bs p n"
    "\<And>p n k. (p, n) \<in> L \<Longrightarrow> (p, k) \<in> L \<Longrightarrow> n = k" by blast+
  have h1eq: "h1 = h\<lparr>placement_address := placement_address h1\<rparr>"
    using h1(1) align_placement_eq [of h] by (cases "align = 1") simp_all
  have inv1: "heap_blocks h1 bs cs"
    using heap_blocks_raise [OF inv h1(2)] h1eq by simp
  have P1: "placement_address h1 \<noteq> 0" using inv1 by (simp add: heap_blocks_def)
  have m1: "mem h1 = mem h" "global_base h1 = global_base h" using h1(1) by simp_all
  from kmalloc_int_cases [OF inv sz h1(1) P1]
  show ?thesis
  proof (elim disjE bexE exE conjE)
    fix b
    assume b: "b \<in> set cs" "fits (mem h) sz b" "align \<noteq> 0 \<longrightarrow> (b + 16) AND 0xFFF = 0"
      "kmalloc_int sz align 0 h = Some (b + 16, reuse b h)"
    have "b \<in> set bs" using b(1) heap_blocks_subset [OF inv] by blast
    then have "b + 16 \<noteq> 0"
      using heap_blocks_below(5) [OF inv] by (metis add_is_0 unat_0 zero_neq_numeral)
    then show ?thesis
      using b(3,4) reuse_owns [OF inv L b(1,2) sz] heap_only_reuse
      by (intro exI [of _ "b + 16"] exI [of _ "reuse b h"]) (simp add: reuse_def)
  next
    fix l cs' base xs ys
    assume k: "linked_at cs (global_base h) (placement_address h1) l cs' base xs ys"
      "kmalloc_int sz align 0 h = Some (placement_address h1 + 16, grow l sz base h1)"
    have "unat (placement_address h1 + 16) = unat (placement_address h1) + 16"
      using room by (simp add: unat_plus)
    then have "placement_address h1 + 16 \<noteq> 0"
      by (metis add_is_0 unat_0 zero_neq_numeral)
    moreover have "heap_only h (grow l sz base h1)"
      using h1(1) heap_only_grow [of h] heap_only_align_grow [of h] by simp
    moreover have "heap_owns (grow l sz base h1) (insert (placement_address h1 + 16, unat sz) L)
      \<and> (\<forall>q k. (q, k) \<in> L \<longrightarrow> q \<noteq> placement_address h1 + 16
        \<and> (\<forall>x \<in> region q k. mem (grow l sz base h1) x = mem h1 x))"
      using L k(1) sz room by (intro grow_owns [OF inv1]) (simp_all add: m1)
    ultimately show ?thesis
      using k(2) by (intro exI [of _ "placement_address h1 + 16"] exI [of _ "grow l sz base h1"])
        (simp add: m1, simp add: grow_def)
  qed
qed

lemma kmalloc_spec:
  assumes "heap_owns h L" and "sz \<noteq> 0"
    and "unat (placement_address h) + 16 + unat sz < 4294967296"
  shows "\<exists>p h'. kmalloc sz h = Some (p, h') \<and> p \<noteq> 0 \<and> heap_only h h'
    \<and> heap_owns h' (insert (p, unat sz) L)
    \<and> (\<forall>q k. (q, k) \<in> L \<longrightarrow> q \<noteq> p \<and> (\<forall>x \<in> region q k. mem h' x = mem h x))
    \<and> unat (placement_address h') \<le> unat (placement_address h) + 16 + unat sz"
proof -
  have "unat (placement_address h + (sz + 16)) = unat (placement_address h) + 16 + unat sz"
    using assms(3) by (simp add: unat_plus)
  then show ?thesis
    using kmalloc_int_owns [OF assms(1,2), of h 0] assms(3) unfolding kmalloc_def by fastforce
qed

text \<open>The adjustment for an aligned block moves the placement address up, and puts the
  payload on a page boundary, as long as the new header would start no later than 16 bytes
  before the end of its page. The code does not check this: see \<open>kmalloc_a_overlap\<close>.\<close>

definition header_fits_page :: "('d, 'z) kheap_scheme \<Rightarrow> bool" where
  "header_fits_page h \<longleftrightarrow> unat (placement_address h) mod 4096 \<le> 4080"

lemma align_placement_up:
  assumes "header_fits_page h" "unat (placement_address h) + 4112 < 4294967296"
  shows "unat (placement_address h) \<le> unat (placement_address (align_placement h))"
    "unat (placement_address (align_placement h)) \<le> unat (placement_address h) + 4096"
    "(unat (placement_address (align_placement h)) + 16) mod 4096 = 0"
proof -
  let ?P = "placement_address h"
  let ?A = "placement_address (align_placement h)"
  have a: "unat (?P + 16) = unat ?P + 16" using assms(2) by (simp add: unat_plus)
  consider (al) "(unat ?P + 16) mod 4096 = 0" "?A = ?P"
    | (mv) "(unat ?P + 16) mod 4096 \<noteq> 0" "?A = ((?P AND 0xFFFFF000) + 0x1000) - 16"
  proof (cases "(?P + 16) AND 0xFFF = 0")
    case True
    then have "unat ((?P + 16) AND 0xFFF) = 0" by simp
    then have "(unat ?P + 16) mod 4096 = 0" unfolding unat_low12 a .
    moreover have "?A = ?P" using True by (simp add: align_placement_def META_SIZE_def)
    ultimately show ?thesis by (rule al)
  next
    case False
    then have "unat ((?P + 16) AND 0xFFF) \<noteq> 0" by (simp only: unsigned_eq_0_iff not_False_eq_True)
    then have "(unat ?P + 16) mod 4096 \<noteq> 0" unfolding unat_low12 a .
    moreover have "?A = ((?P AND 0xFFFFF000) + 0x1000) - 16"
      using False by (simp add: align_placement_def META_SIZE_def Let_def)
    ultimately show ?thesis by (rule mv)
  qed
  then have "unat ?P \<le> unat ?A \<and> unat ?A \<le> unat ?P + 4096 \<and> (unat ?A + 16) mod 4096 = 0"
  proof cases
    case al
    then show ?thesis by simp
  next
    case mv
    have "unat ((?P AND 0xFFFFF000) + 0x1000) = unat ?P - unat ?P mod 4096 + 4096"
    proof -
      have "unat ?P - unat ?P mod 4096 + 4096 < 4294967296" using assms(2) by linarith
      then show ?thesis by (subst unat_plus) (simp_all add: unat_high12)
    qed
    then have u: "unat ?A = unat ?P - unat ?P mod 4096 + 4096 - 16"
      unfolding mv(2) by (subst unat_minus_le) simp_all
    have "unat ?P mod 4096 \<le> unat ?P" "unat ?P mod 4096 \<le> 4080"
      using assms(1) by (simp_all add: header_fits_page_def)
    moreover have "unat ?A + 16 = 4096 * (unat ?P div 4096 + 1)"
      unfolding u minus_mod_eq_mult_div by simp
    then have "(unat ?A + 16) mod 4096 = 0" by (metis mod_mult_self1_is_0)
    ultimately show ?thesis unfolding u by auto
  qed
  then show "unat ?P \<le> unat ?A" "unat ?A \<le> unat ?P + 4096" "(unat ?A + 16) mod 4096 = 0" by auto
qed

lemma kmalloc_a_placed:
  assumes own: "heap_owns h L" and sz: "sz \<noteq> 0" and page: "header_fits_page h"
    and room: "unat (placement_address h) + 4112 + unat sz < 4294967296"
  shows "\<exists>p h'. kmalloc_a sz h = Some (p, h') \<and> p \<noteq> 0 \<and> p AND 0xFFF = 0 \<and> heap_only h h'
    \<and> heap_owns h' (insert (p, unat sz) L)
    \<and> (\<forall>q k. (q, k) \<in> L \<longrightarrow> q \<noteq> p \<and> (\<forall>x \<in> region q k. mem h' x = mem h x))
    \<and> (placement_address h' = placement_address h \<or> unat (placement_address h') mod 4096 = unat sz mod 4096)
    \<and> unat (placement_address h') \<le> unat (placement_address h) + 4112 + unat sz"
proof -
  let ?A = "placement_address (align_placement h)"
  have "unat (placement_address h) + 4112 < 4294967296" using room by simp
  note up = align_placement_up [OF page this]
  have A: "unat (?A + 16) = unat ?A + 16" "unat (?A + (sz + 16)) = unat ?A + 16 + unat sz"
    using up(2) room by (simp_all add: unat_plus)
  have "unat ((?A + 16) AND 0xFFF) = 0"
    by (simp add: unat_low12 A up(3))
  then have al: "(?A + 16) AND 0xFFF = 0" by (simp add: unsigned_eq_0_iff)
  have "unat ?A + 16 + unat sz < 4294967296" using up(2) room by simp
  then obtain p h' where k: "kmalloc_int sz 1 0 h = Some (p, h')" "p \<noteq> 0" "heap_only h h'"
    "heap_owns h' (insert (p, unat sz) L)"
    "\<forall>q k. (q, k) \<in> L \<longrightarrow> q \<noteq> p \<and> (\<forall>x \<in> region q k. mem h' x = mem h x)"
    "placement_address h' = placement_address h \<and> p AND 0xFFF = 0
     \<or> placement_address h' = ?A + (sz + 16) \<and> p = ?A + 16"
    using kmalloc_int_owns [OF own sz, of "align_placement h" 1, OF _ up(1)] by auto
  have "(unat ?A + 16 + unat sz) mod 4096 = unat sz mod 4096"
    using up(3) by (metis add_0 mod_add_left_eq)
  then have "p AND 0xFFF = 0
      \<and> (placement_address h' = placement_address h \<or> unat (placement_address h') mod 4096 = unat sz mod 4096)
      \<and> unat (placement_address h') \<le> unat (placement_address h) + 4112 + unat sz"
    using k(6) al up(2) A by auto
  then show ?thesis
    using k(1-5) by (intro exI [of _ p] exI [of _ h']) (simp add: kmalloc_a_def del: in_region)
qed

lemma kmalloc_a_spec:
  assumes own: "heap_owns h L" and sz: "sz \<noteq> 0" and page: "header_fits_page h"
    and room: "unat (placement_address h) + 4112 + unat sz < 4294967296"
  shows "\<exists>p h'. kmalloc_a sz h = Some (p, h') \<and> p \<noteq> 0 \<and> p AND 0xFFF = 0 \<and> heap_only h h'
    \<and> heap_owns h' (insert (p, unat sz) L)
    \<and> (\<forall>q k. (q, k) \<in> L \<longrightarrow> q \<noteq> p \<and> (\<forall>x \<in> region q k. mem h' x = mem h x))
    \<and> (unat sz mod 4096 \<le> 4080 \<longrightarrow> header_fits_page h')
    \<and> unat (placement_address h') \<le> unat (placement_address h) + 4112 + unat sz"
proof -
  obtain p h' where k: "kmalloc_a sz h = Some (p, h')" "p \<noteq> 0" "p AND 0xFFF = 0" "heap_only h h'"
    "heap_owns h' (insert (p, unat sz) L)"
    "\<forall>q k. (q, k) \<in> L \<longrightarrow> q \<noteq> p \<and> (\<forall>x \<in> region q k. mem h' x = mem h x)"
    "placement_address h' = placement_address h \<or> unat (placement_address h') mod 4096 = unat sz mod 4096"
    "unat (placement_address h') \<le> unat (placement_address h) + 4112 + unat sz"
    using kmalloc_a_placed [OF assms] by blast
  have "unat sz mod 4096 \<le> 4080 \<longrightarrow> header_fits_page h'" using k(7) page by (auto simp: header_fits_page_def)
  then show ?thesis using k by blast
qed

text \<open>How much may still be carved off before a header no longer fits its page.\<close>

definition page_room :: "('d, 'z) kheap_scheme \<Rightarrow> nat \<Rightarrow> bool" where
  "page_room h n \<longleftrightarrow> unat (placement_address h) mod 4096 + n \<le> 4080"

lemma page_room_fits: "page_room h n \<Longrightarrow> header_fits_page h"
  by (simp add: page_room_def header_fits_page_def)

lemma page_room_0: "page_room h 0 \<longleftrightarrow> header_fits_page h"
  by (simp add: page_room_def header_fits_page_def)

lemma page_room_le: "page_room h n \<Longrightarrow> m \<le> n \<Longrightarrow> page_room h m"
  by (simp add: page_room_def)

lemma page_room_same: "placement_address h' = placement_address h \<Longrightarrow> page_room h' n \<longleftrightarrow> page_room h n"
  by (simp add: page_room_def)

lemma page_room_aligned:
  assumes "page_room h m" "k + m \<le> 4080"
    and "placement_address h' = placement_address h \<or> unat (placement_address h') mod 4096 = k"
  shows "page_room h' m"
  using assms by (auto simp: page_room_def)

lemma page_room_grows:
  assumes page: "page_room h (n mod 4096 + m)" and grows: "unat (placement_address h') = unat (placement_address h) + n"
  shows "page_room h' m"
proof -
  let ?a = "unat (placement_address h)"
  have b: "?a mod 4096 + (n mod 4096 + m) \<le> 4080" using page by (simp add: page_room_def)
  have "(?a + n) mod 4096 = (?a mod 4096 + n mod 4096) mod 4096" by (simp add: mod_add_eq)
  also have "\<dots> = ?a mod 4096 + n mod 4096" using b by (intro mod_less) linarith
  finally show ?thesis using b grows by (simp add: page_room_def)
qed

lemma kmalloc_page_room:
  assumes "heap_owns h L" and "sz \<noteq> 0" and room: "unat (placement_address h) + 16 + unat sz < 4294967296"
    and run: "kmalloc sz h = Some (p, h')" and page: "page_room h ((16 + unat sz) mod 4096 + m)"
  shows "page_room h' m"
proof -
  have e: "unat (placement_address h + (sz + 16)) = unat (placement_address h) + (16 + unat sz)"
    using room by (simp add: unat_plus)
  have "placement_address h' = placement_address h \<or> placement_address h' = placement_address h + (sz + 16)"
    using kmalloc_int_owns [OF assms(1,2), of h 0] room run unfolding kmalloc_def by fastforce
  then show ?thesis
  proof
    assume "placement_address h' = placement_address h"
    then show ?thesis using page_room_le [OF page, of m] by (simp add: page_room_def)
  next
    assume "placement_address h' = placement_address h + (sz + 16)"
    then show ?thesis using e page by (intro page_room_grows [OF page]) simp
  qed
qed

section \<open>Release, and writes of the clients\<close>

lemma kfree_spec:
  assumes own: "heap_owns h L" and p: "(p, n) \<in> L"
  shows "heap_owns (kfree p h) (L - {(p, n)}) \<and> heap_only h (kfree p h)
    \<and> (\<forall>q k. (q, k) \<in> L \<longrightarrow> (\<forall>x \<in> region q k. mem (kfree p h) x = mem h x))
    \<and> placement_address (kfree p h) = placement_address h"
proof -
  obtain bs cs where inv: "heap_blocks h bs cs" and L: "\<forall>p n. (p, n) \<in> L \<longrightarrow> backed (mem h) bs p n"
    and uniq: "\<forall>p n k. (p, n) \<in> L \<longrightarrow> (p, k) \<in> L \<longrightarrow> n = k"
    using own by (rule heap_ownsE)
  obtain b where b: "b \<in> set bs" "p = b + 16" using L p by (auto simp: backed_def)
  let ?m = "set_free b 1 (mem h)"
  note fb = heap_blocks_below(3) [OF inv b(1)]
  have eq: "meta_size ?m c = meta_size (mem h) c" "meta_next ?m c = meta_next (mem h) c"
    "c \<noteq> b \<Longrightarrow> meta_free ?m c = meta_free (mem h) c" "meta_magic ?m c = meta_magic (mem h) c"
    if "c \<in> set bs" for c
    using heap_blocks_below(3) [OF inv that] fb heap_blocks_apart [OF inv that b(1)]
    by (cases "c = b"; simp add: ram_simps)+
  have "good_magic (mem h) b" using inv b(1) by (simp add: heap_blocks_def)
  then have k: "kfree p h = h\<lparr>mem := ?m\<rparr>"
    using backed_bounds(4) [OF inv] L p b(2)
    by (auto simp: kfree_def META_SIZE_def good_magic_def Let_def)
  have chain: "chain (meta_next ?m) (global_base h) cs"
    using inv chain_cong [of cs "meta_next ?m" "meta_next (mem h)"] eq(2) heap_blocks_subset [OF inv]
    unfolding heap_blocks_def by blast
  have "sorted_wrt (\<lambda>b c. blk_top ?m b \<le> unat c) bs"
    by (rule sorted_wrt_mono_rel [of bs "\<lambda>b c. blk_top (mem h) b \<le> unat c"])
      (use inv in \<open>simp_all add: blk_top_def eq heap_blocks_def\<close>)
  then have inv': "heap_blocks (kfree p h) bs cs"
    using inv chain by (simp add: heap_blocks_def k blk_top_def good_magic_def eq)
  have "backed ?m bs q k" if "(q, k) \<in> L" "(q, k) \<noteq> (p, n)" for q k
  proof -
    have "q \<noteq> p" using that uniq p by blast
    then show ?thesis using L that b(2) eq by (fastforce simp: backed_def)
  qed
  then have "heap_owns (kfree p h) (L - {(p, n)})"
    using uniq by (intro heap_ownsI [OF inv']) (auto simp: k)
  moreover have "mem (kfree p h) x = mem h x" if "(q, k) \<in> L" "x \<in> region q k" for q k x
  proof -
    have "x \<notin> region b 16"
      using backed_header_disjoint [OF inv _ b(1)] L that by blast
    then show ?thesis using fb by (simp add: k ram_simps del: in_region)
  qed
  ultimately show ?thesis by (auto simp: k heap_only_def)
qed

text \<open>A client that writes only inside its own regions does not disturb the heap.\<close>

lemma heap_owns_write:
  assumes "heap_owns h L" "\<And>x. (\<forall>q k. (q, k) \<in> L \<longrightarrow> x \<notin> region q k) \<Longrightarrow> m x = mem h x"
  shows "heap_owns (h\<lparr>mem := m\<rparr>) L"
proof -
  obtain bs cs where inv: "heap_blocks h bs cs" and L: "\<forall>p n. (p, n) \<in> L \<longrightarrow> backed (mem h) bs p n"
    and uniq: "\<forall>p n k. (p, n) \<in> L \<longrightarrow> (p, k) \<in> L \<longrightarrow> n = k"
    using assms(1) by (rule heap_ownsE)
  have hdr: "m x = mem h x" if "b \<in> set bs" "x \<in> region b 16" for b x
    using backed_header_disjoint [OF inv _ that(1)] L that(2) by (intro assms(2)) blast
  have "meta_size m b = meta_size (mem h) b" "meta_free m b = meta_free (mem h) b"
    if "b \<in> set bs" for b
    using meta_cong [OF heap_blocks_below(3) [OF inv that]] hdr [OF that] by blast+
  then show ?thesis
    using L uniq by (intro heap_ownsI [OF heap_blocks_cong [OF inv hdr]]) (auto simp: backed_def)
qed

text \<open>Only the RAM and the two globals of the heap matter.\<close>

lemma heap_owns_same:
  fixes h :: "('d, 'z) kheap_scheme" and h' :: "('e, 'y) kheap_scheme"
  assumes "mem h' = mem h" "placement_address h' = placement_address h"
    and "global_base h' = global_base h"
  shows "heap_owns h' L \<longleftrightarrow> heap_owns h L"
  using assms by (simp add: heap_owns_def heap_blocks_def)

lemma heap_owns_empty: "global_base h = 0 \<Longrightarrow> placement_address h \<noteq> 0 \<Longrightarrow> heap_owns h {}"
  by (rule heap_ownsI [of h "[]" "[]"]) (simp_all add: heap_blocks_def)

lemma heap_owns_subset: "heap_owns h L \<Longrightarrow> K \<subseteq> L \<Longrightarrow> heap_owns h K"
  by (erule heap_ownsE, rule heap_ownsI) blast+

lemma heap_owns_disjoint:
  assumes "heap_owns h L" "(p, n) \<in> L" "(q, k) \<in> L" "p \<noteq> q"
  shows "region p n \<inter> region q k = {}"
  using assms backed_disjoint by (metis heap_ownsE)

lemma heap_owns_bounds:
  assumes "heap_owns h L" "(p, n) \<in> L"
  shows "16 \<le> unat p" "unat p + n \<le> unat (placement_address h)" "0 < n"
    "unat p + n < 4294967296" "p \<noteq> 0"
proof -
  show b: "16 \<le> unat p" "unat p + n \<le> unat (placement_address h)" "0 < n" "p \<noteq> 0"
    using assms backed_bounds by (metis heap_ownsE)+
  show "unat p + n < 4294967296"
    using b(2) unat_less_2p32 [of "placement_address h"] by (rule le_less_trans)
qed

section \<open>The allocator's contract, provided\<close>

text \<open>Both entry points keep the contract: \<open>kmalloc\<close> for every size but 0, and
  \<open>kmalloc_a\<close>, on a heap whose next header fits its page, for the sizes after which the
  next one does again (all multiples of the page size are among them).\<close>

interpretation kh: allocator heap_owns mem "\<lambda>h. unat (placement_address h)" kmalloc kfree
  "\<lambda>n. n \<noteq> 0" 16
proof unfold_locales
  fix h :: "('d, 'z) kheap_scheme" and L p n q k
  show "heap_owns h L \<Longrightarrow> (p, n) \<in> L \<Longrightarrow> (q, k) \<in> L \<Longrightarrow> p \<noteq> q \<Longrightarrow> region p n \<inter> region q k = {}"
    by (rule heap_owns_disjoint)
next
  fix h :: "('d, 'z) kheap_scheme" and L and n :: u32
  assume "heap_owns h L" "n \<noteq> 0" "unat (placement_address h) + 16 + unat n < 4294967296"
  from kmalloc_spec [OF this]
  show "\<exists>p h'. kmalloc n h = Some (p, h') \<and> p \<noteq> 0 \<and> heap_owns h' (insert (p, unat n) L)
      \<and> (\<forall>q k. (q, k) \<in> L \<longrightarrow> q \<noteq> p \<and> (\<forall>x \<in> region q k. mem h' x = mem h x))
      \<and> unat (placement_address h') \<le> unat (placement_address h) + 16 + unat n"
    by blast
next
  fix h :: "('d, 'z) kheap_scheme" and L and p :: u32 and n :: nat
  assume "heap_owns h L" "(p, n) \<in> L"
  from kfree_spec [OF this]
  show "heap_owns (kfree p h) (L - {(p, n)})
      \<and> (\<forall>q k. (q, k) \<in> L \<longrightarrow> (\<forall>x \<in> region q k. mem (kfree p h) x = mem h x))" by blast
qed

definition heap_owns_a :: "('d, 'z) kheap_scheme \<Rightarrow> (u32 \<times> nat) set \<Rightarrow> bool" where
  "heap_owns_a h L \<longleftrightarrow> heap_owns h L \<and> header_fits_page h"

definition page_size_ok :: "u32 \<Rightarrow> bool" where
  "page_size_ok n \<longleftrightarrow> n \<noteq> 0 \<and> unat n mod 4096 \<le> 4080"

interpretation kh_a: allocator heap_owns_a mem "\<lambda>h. unat (placement_address h)" kmalloc_a kfree
  page_size_ok 4112
proof unfold_locales
  fix h :: "('d, 'z) kheap_scheme" and L p n q k
  show "heap_owns_a h L \<Longrightarrow> (p, n) \<in> L \<Longrightarrow> (q, k) \<in> L \<Longrightarrow> p \<noteq> q \<Longrightarrow> region p n \<inter> region q k = {}"
    unfolding heap_owns_a_def by (blast dest: heap_owns_disjoint)
next
  fix h :: "('d, 'z) kheap_scheme" and L and n :: u32
  assume "heap_owns_a h L" "page_size_ok n" "unat (placement_address h) + 4112 + unat n < 4294967296"
  then show "\<exists>p h'. kmalloc_a n h = Some (p, h') \<and> p \<noteq> 0 \<and> heap_owns_a h' (insert (p, unat n) L)
      \<and> (\<forall>q k. (q, k) \<in> L \<longrightarrow> q \<noteq> p \<and> (\<forall>x \<in> region q k. mem h' x = mem h x))
      \<and> unat (placement_address h') \<le> unat (placement_address h) + 4112 + unat n"
    using kmalloc_a_spec [of h L n] by (auto simp: heap_owns_a_def page_size_ok_def)
next
  fix h :: "('d, 'z) kheap_scheme" and L and p :: u32 and n :: nat
  assume "heap_owns_a h L" "(p, n) \<in> L"
  then show "heap_owns_a (kfree p h) (L - {(p, n)})
      \<and> (\<forall>q k. (q, k) \<in> L \<longrightarrow> (\<forall>x \<in> region q k. mem (kfree p h) x = mem h x))"
    using kfree_spec [of h L p n] by (simp add: heap_owns_a_def header_fits_page_def)
qed

section \<open>Which block an allocation takes\<close>

lemma find_free_loop_hit:
  assumes "chain (meta_next m) p (xs @ b # ys)" "\<forall>c \<in> set xs. \<not> fits m sz c" "fits m sz b"
  shows "find_free_loop m l0 p sz = Some (last (l0 # xs), b)"
  using assms
proof (induction xs arbitrary: p l0)
  case Nil
  then show ?case by (subst find_free_loop.simps) (auto simp: fits_def)
next
  case (Cons c xs)
  then have "find_free_loop m l0 p sz = find_free_loop m c (meta_next m c) sz"
    by (subst find_free_loop.simps) (auto simp: fits_def)
  moreover have "find_free_loop m c (meta_next m c) sz = Some (last (c # xs), b)"
    using Cons by auto
  ultimately show ?case by simp
qed

lemma find_free_loop_miss:
  assumes "chain (meta_next m) p xs" "\<forall>c \<in> set xs. \<not> fits m sz c"
  shows "find_free_loop m l0 p sz = Some (last (l0 # xs), 0)"
  using assms
proof (induction xs arbitrary: p l0)
  case Nil
  then show ?case by (simp add: find_free_loop.simps)
next
  case (Cons c xs)
  then have "find_free_loop m l0 p sz = find_free_loop m c (meta_next m c) sz"
    by (subst find_free_loop.simps) (auto simp: fits_def)
  moreover have "find_free_loop m c (meta_next m c) sz = Some (last (c # xs), 0)"
    using Cons by auto
  ultimately show ?case by simp
qed

lemma chain_head: "chain nxt p (xs @ b # ys) \<Longrightarrow> p \<noteq> 0"
  by (cases xs) auto

text \<open>First fit. The block of a list reached first that is free and large enough is handed
  out again, marked as used and with the magic number of reused blocks; nothing is carved off.\<close>

theorem kmalloc_first_fit:
  assumes "heap_blocks h bs (xs @ b # ys)" and "\<forall>c \<in> set xs. \<not> fits (mem h) sz c"
    and "fits (mem h) sz b" and "sz \<noteq> 0"
  shows "kmalloc sz h = Some (b + 16, h\<lparr>mem := set_magic b MAGIC_REUSED (set_free b 0 (mem h))\<rparr>)"
proof -
  have ch: "chain (meta_next (mem h)) (global_base h) (xs @ b # ys)"
    using assms(1) by (simp add: heap_blocks_def)
  have "b \<noteq> 0" using chain_nonzero [OF ch, of b] by simp
  then show ?thesis
    using find_free_loop_hit [OF ch assms(2,3)] chain_head [OF ch] assms(4)
    by (simp add: kmalloc_def kmalloc_int_def find_free_block_def META_SIZE_def)
qed

text \<open>C38: an aligned request that meets a fitting but misaligned block cuts the list: the new
  block is linked behind that block's predecessor, so the misaligned block and every block
  after it can no longer be found by any later allocation.\<close>

theorem kmalloc_a_drops_blocks:
  assumes "heap_blocks h bs (xs @ a # b # ys)" and "\<forall>c \<in> set (xs @ [a]). \<not> fits (mem h) sz c"
    and "fits (mem h) sz b" and "(b + 16) AND 0xFFF \<noteq> 0" and "sz \<noteq> 0"
    and "header_fits_page h" and "unat (placement_address h) + 4112 + unat sz < 4294967296"
  shows "\<exists>p h'. kmalloc_a sz h = Some (p + 16, h')
    \<and> chain (meta_next (mem h')) (global_base h') (xs @ [a, p])
    \<and> b \<notin> set (xs @ [a, p]) \<and> set ys \<inter> set (xs @ [a, p]) = {}"
proof -
  let ?h = "align_placement h"
  let ?P = "placement_address ?h"
  have ch: "chain (meta_next (mem h)) (global_base h) ((xs @ [a]) @ b # ys)"
    using assms(1) by (simp add: heap_blocks_def)
  have "b \<noteq> 0" using chain_nonzero [OF ch, of b] by simp
  have "unat (placement_address h) + 4112 < 4294967296" using assms(7) by simp
  note up = align_placement_up [OF assms(6) this]
  have inv: "heap_blocks ?h bs (xs @ a # b # ys)"
    using heap_blocks_raise [OF assms(1) up(1)] align_placement_eq [of h] by simp
  have room: "unat ?P + 16 + unat sz < 4294967296" using up(2) assms(7) by simp
  have "find_free_loop (mem h) (global_base h) (global_base h) sz = Some (a, b)"
    using find_free_loop_hit [OF ch assms(2,3)] by simp
  then have k: "kmalloc_a sz h = Some (?P + 16, grow a sz (global_base h) ?h)"
    using chain_head [OF ch] assms(4,5) inv \<open>b \<noteq> 0\<close>
    by (simp add: kmalloc_a_def kmalloc_int_def find_free_block_def META_SIZE_def Let_def
        request_space_eq heap_blocks_def grow_def)
  have "heap_blocks (grow a sz (global_base h) ?h) (bs @ [?P]) (xs @ [a, ?P])"
    unfolding grow_def
    by (rule carve_blocks [OF inv room, of a _ "global_base h" xs "b # ys"]) simp
  then have "chain (meta_next (mem (grow a sz (global_base h) ?h)))
      (global_base (grow a sz (global_base h) ?h)) (xs @ [a, ?P])"
    by (simp add: heap_blocks_def)
  moreover have "?P \<notin> set bs" using heap_blocks_below(2) [OF inv, of ?P] by auto
  then have "b \<notin> set (xs @ [a, ?P]) \<and> set ys \<inter> set (xs @ [a, ?P]) = {}"
    using inv by (auto simp: heap_blocks_def)
  ultimately show ?thesis using k by blast
qed

section \<open>Sequences of allocations\<close>


definition boot_heap :: "u32 \<Rightarrow> unit kheap" where
  "boot_heap P = \<lparr>mem = (\<lambda>_. 0), dev = (), cursor_offset = 0, screen_color = 0x0F,
     placement_address = P, global_base = 0\<rparr>"

lemma boot_heap_simps [simp]:
  "mem (boot_heap P) = (\<lambda>_. 0)" "placement_address (boot_heap P) = P" "global_base (boot_heap P) = 0"
  by (simp_all add: boot_heap_def)

lemma heap_owns_boot: "P \<noteq> 0 \<Longrightarrow> heap_owns (boot_heap P) {}"
  by (rule heap_owns_empty) simp_all


text \<open>\<open>kmalloc_a\<close> on a heap whose next header fits its page returns a page-aligned block,
  disjoint from every region allocated before, and leaves their contents untouched.\<close>

theorem kmalloc_a_aligned:
  assumes "heap_owns h L" and "sz \<noteq> 0" and "header_fits_page h"
    and "unat (placement_address h) + 4112 + unat sz < 4294967296"
  shows "\<exists>p h'. kmalloc_a sz h = Some (p, h') \<and> p \<noteq> 0 \<and> unat p mod 4096 = 0
    \<and> heap_owns h' (insert (p, unat sz) L)
    \<and> (\<forall>q k. (q, k) \<in> L \<longrightarrow> region q k \<inter> region p (unat sz) = {}
        \<and> (\<forall>x \<in> region q k. mem h' x = mem h x))"
proof -
  obtain p h' where k: "kmalloc_a sz h = Some (p, h')" "p \<noteq> 0" "p AND 0xFFF = 0"
    "heap_owns h' (insert (p, unat sz) L)"
    "\<forall>q k. (q, k) \<in> L \<longrightarrow> q \<noteq> p \<and> (\<forall>x \<in> region q k. mem h' x = mem h x)"
    using kmalloc_a_spec [OF assms] by auto
  have "unat p mod 4096 = 0" using k(3) unat_low12 [of p] by simp
  moreover have "region q m \<inter> region p (unat sz) = {}" if "(q, m) \<in> L" for q m
    using heap_owns_disjoint [OF k(4)] k(5) that by blast
  ultimately show ?thesis
    using k by (intro exI [of _ p] exI [of _ h']) (simp del: in_region)
qed

theorem kmalloc_a_aligned_witness:
  "\<exists>p h'. kmalloc_a 4096 (boot_heap 0x20000) = Some (p, h') \<and> unat p mod 4096 = 0
    \<and> heap_owns h' {(p, 4096)}"
  using kmalloc_a_aligned [of "boot_heap 0x20000" "{}" 4096]
  by (auto simp: heap_owns_boot header_fits_page_def)

text \<open>Releasing a block gives the heap back to the owners of the other regions, whose
  contents are those of before the allocation.\<close>

theorem kmalloc_kfree_restores:
  assumes "heap_owns h L" and "sz \<noteq> 0"
    and "unat (placement_address h) + 16 + unat sz < 4294967296"
  shows "\<exists>p h'. kmalloc sz h = Some (p, h') \<and> heap_owns (kfree p h') L
    \<and> (\<forall>q k. (q, k) \<in> L \<longrightarrow> (\<forall>x \<in> region q k. mem (kfree p h') x = mem h x))"
  using assms by (rule kh.alloc_dealloc)

theorem kmalloc_kfree_restores_witness:
  "\<exists>p h'. kmalloc 96 (boot_heap 0x20000) = Some (p, h') \<and> heap_owns (kfree p h') {}"
  using kmalloc_kfree_restores [of "boot_heap 0x20000" "{}" 96]
  by (simp add: heap_owns_boot)

section \<open>What the allocator does not check\<close>

text \<open>\<open>kmalloc\<close> never refuses a request: when no free block fits, it hands out the space at
  \<open>placement_address\<close> whatever the size, and the sum of the address and the size wraps around
  at \<open>2 ^ 32\<close>. The 4 MB of \<open>HEAP_SIZE\<close> are not consulted.\<close>

theorem kmalloc_never_refuses:
  assumes "heap_blocks h bs cs" and "\<forall>c \<in> set cs. \<not> fits (mem h) sz c" and "sz \<noteq> 0"
  shows "\<exists>h'. kmalloc sz h = Some (placement_address h + 16, h')
    \<and> placement_address h' = placement_address h + (sz + 16)"
proof -
  have ch: "chain (meta_next (mem h)) (global_base h) cs" and P: "placement_address h \<noteq> 0"
    using assms(1) by (simp_all add: heap_blocks_def)
  show ?thesis
    using find_free_loop_miss [OF ch assms(2)] assms(3) P
    by (simp add: kmalloc_def kmalloc_int_def find_free_block_def request_space_eq META_SIZE_def Let_def)
qed

text \<open>Near the top of the address space the next block lands in low memory.\<close>

theorem kmalloc_never_refuses_witness:
  "\<exists>h'. kmalloc 0x2000 (boot_heap 0xFFFFF000) = Some (0xFFFFF010, h')
    \<and> placement_address h' = 0x1010"
proof -
  have "heap_blocks (boot_heap 0xFFFFF000) [] []"
    by (simp add: heap_blocks_def)
  from kmalloc_never_refuses [OF this, of "0x2000"]
  have "\<exists>h'. kmalloc 0x2000 (boot_heap 0xFFFFF000) = Some (0xFFFFF010, h')
      \<and> placement_address h' = 0xFFFFF000 + 0x2010" by simp
  moreover have "(0xFFFFF000 + 0x2010 :: u32) = 0x1010" by (simp only: word_uint_eq_iff) simp
  ultimately show ?thesis by (simp only:)
qed


text \<open>Witnesses of the theorems on the list of blocks: a list of two blocks, the second free.\<close>

definition two_blocks :: "unit kheap" where
  "two_blocks = (boot_heap 0x20000)\<lparr>
     mem := set_free 0x21000 1 (carve 0x20000 64 0x21000 (carve 0 64 0x20000 (\<lambda>_. 0))),
     placement_address := 0x22000, global_base := 0x20000\<rparr>"

lemma two_blocks_simps [simp]:
  "placement_address two_blocks = 0x22000" "global_base two_blocks = 0x20000"
  by (simp_all add: two_blocks_def)

lemma two_blocks_meta:
  "meta_size (mem two_blocks) 0x20000 = 64" "meta_next (mem two_blocks) 0x20000 = 0x21000"
  "meta_free (mem two_blocks) 0x20000 = 0" "meta_magic (mem two_blocks) 0x20000 = MAGIC_NEW"
  "meta_size (mem two_blocks) 0x21000 = 64" "meta_next (mem two_blocks) 0x21000 = 0"
  "meta_free (mem two_blocks) 0x21000 = 1" "meta_magic (mem two_blocks) 0x21000 = MAGIC_NEW"
  by (simp_all add: two_blocks_def ram_simps carve_new carve_old fits_ram_def apart_def)

lemma two_blocks_inv: "heap_blocks two_blocks [0x20000, 0x21000] [0x20000, 0x21000]"
  by (simp add: heap_blocks_def blk_top_def good_magic_def two_blocks_meta)

theorem kmalloc_first_fit_witness:
  "kmalloc 48 two_blocks = Some (0x21010, two_blocks\<lparr>mem := set_magic 0x21000 MAGIC_REUSED
      (set_free 0x21000 0 (mem two_blocks))\<rparr>)"
  using kmalloc_first_fit [of two_blocks "[0x20000, 0x21000]" "[0x20000]" "0x21000" "[]" 48] two_blocks_inv
  by (simp add: fits_def two_blocks_meta)

theorem kmalloc_a_drops_blocks_witness:
  "\<exists>p h'. kmalloc_a 48 two_blocks = Some (p + 16, h')
    \<and> chain (meta_next (mem h')) (global_base h') [0x20000, p] \<and> (0x21000 :: u32) \<notin> set [0x20000, p]"
  using kmalloc_a_drops_blocks [of two_blocks "[0x20000, 0x21000]" "[]" "0x20000" "0x21000" "[]" 48]
    two_blocks_inv
  by (auto simp: fits_def two_blocks_meta header_fits_page_def)

end
