(* ===== verification/Paging.thy ===== *)
theory Paging
  imports KHeap
begin

text \<open>
  Two-level page tables, \<open>src/memory/paging/paging.c\<close>. Directories and tables are blocks of
  4096 bytes of the kernel heap, read and written as arrays of 32-bit entries in RAM. The
  processor's side is the function \<open>mmu_walk\<close>: what a translation finds in these tables.
\<close>

section \<open>State and operations\<close>

record 'd paging = "'d kheap" +
  cr3 :: u32
  cr0 :: u32
  current_directory :: u32
  invlpg_log :: "u32 list"

definition PAGING_CACHE_DISABLED :: u32 where "PAGING_CACHE_DISABLED = 0b00010000"
definition PAGING_WRITE_THROUGH :: u32 where "PAGING_WRITE_THROUGH = 0b00001000"
definition PAGING_ACCESS_FROM_ALL :: u32 where "PAGING_ACCESS_FROM_ALL = 0b00000100"
definition PAGING_IS_WRITEABLE :: u32 where "PAGING_IS_WRITEABLE = 0b00000010"
definition PAGING_IS_PRESENT :: u32 where "PAGING_IS_PRESENT = 0b00000001"
definition PAGING_TOTAL_ENTRIES_PER_TABLE_SIZE :: nat where "PAGING_TOTAL_ENTRIES_PER_TABLE_SIZE = 1024"
definition PAGING_PAGE_SIZE :: u32 where "PAGING_PAGE_SIZE = 4096"

lemmas paging_consts =
  PAGING_ACCESS_FROM_ALL_def PAGING_IS_WRITEABLE_def PAGING_IS_PRESENT_def
  PAGING_TOTAL_ENTRIES_PER_TABLE_SIZE_def PAGING_PAGE_SIZE_def

text \<open>\<open>t[i]\<close> for an array of \<open>uint32_t\<close> at \<open>t\<close>, and the loop that assigns \<open>t[i] = f i\<close>.\<close>

definition entry_addr :: "u32 \<Rightarrow> nat \<Rightarrow> u32" where
  "entry_addr t i = t + 4 * of_nat i"

definition fill32 :: "u32 \<Rightarrow> (nat \<Rightarrow> u32) \<Rightarrow> nat \<Rightarrow> ram \<Rightarrow> ram" where
  "fill32 t f n m = fold (\<lambda>i m. write32 m (entry_addr t i) (f i)) [0..<n] m"

text \<open>The loop over the 16 tables of the first 64 MB.\<close>

fun new_tables ::
  "u8 \<Rightarrow> u32 \<Rightarrow> nat list \<Rightarrow> ('d, 'z) kheap_scheme \<Rightarrow> ('d, 'z) kheap_scheme option" where
  "new_tables flags directory [] h = Some h"
| "new_tables flags directory (i # is) h = do {
     (table, h) \<leftarrow> kmalloc_a (4 * of_nat PAGING_TOTAL_ENTRIES_PER_TABLE_SIZE) h;
     let h = h\<lparr>mem := fill32 table
       (\<lambda>b. (of_nat i * of_nat PAGING_TOTAL_ENTRIES_PER_TABLE_SIZE * PAGING_PAGE_SIZE
              + of_nat b * PAGING_PAGE_SIZE) OR ucast flags)
       PAGING_TOTAL_ENTRIES_PER_TABLE_SIZE (mem h)\<rparr>;
     let h = h\<lparr>mem := write32 (mem h) (entry_addr directory i)
       (table OR ucast flags OR PAGING_IS_WRITEABLE OR PAGING_ACCESS_FROM_ALL)\<rparr>;
     new_tables flags directory is h
   }"

definition paging_new_4gb ::
  "u8 \<Rightarrow> ('d, 'z) kheap_scheme \<Rightarrow> (u32 \<times> ('d, 'z) kheap_scheme) option" where
  "paging_new_4gb flags h = do {
     (directory, h) \<leftarrow> kmalloc_a (4 * of_nat PAGING_TOTAL_ENTRIES_PER_TABLE_SIZE) h;
     let h = h\<lparr>mem := fill32 directory (\<lambda>_. 0) PAGING_TOTAL_ENTRIES_PER_TABLE_SIZE (mem h)\<rparr>;
     h \<leftarrow> new_tables flags directory [0..<16] h;
     (chunk, h) \<leftarrow> kmalloc 4 h;
     Some (chunk, h\<lparr>mem := write32 (mem h) chunk directory\<rparr>)
   }"

definition paging_4gb_chunk_get_directory :: "u32 \<Rightarrow> ('d, 'z) kheap_scheme \<Rightarrow> u32" where
  "paging_4gb_chunk_get_directory chunk h = read32 (mem h) chunk"

definition paging_load_directory :: "u32 \<Rightarrow> ('d, 'z) paging_scheme \<Rightarrow> ('d, 'z) paging_scheme" where
  "paging_load_directory directory s = s\<lparr>cr3 := directory\<rparr>"

definition paging_switch :: "u32 \<Rightarrow> ('d, 'z) paging_scheme \<Rightarrow> ('d, 'z) paging_scheme" where
  "paging_switch directory s = (paging_load_directory directory s)\<lparr>current_directory := directory\<rparr>"

definition enable_paging :: "('d, 'z) paging_scheme \<Rightarrow> ('d, 'z) paging_scheme" where
  "enable_paging s = s\<lparr>cr0 := cr0 s OR 0x80000000\<rparr>"

definition paging_is_aligned :: "u32 \<Rightarrow> bool" where
  "paging_is_aligned addr \<longleftrightarrow> addr mod PAGING_PAGE_SIZE = 0"

definition paging_flush_tlb_single :: "u32 \<Rightarrow> ('d, 'z) paging_scheme \<Rightarrow> ('d, 'z) paging_scheme" where
  "paging_flush_tlb_single addr s = s\<lparr>invlpg_log := addr # invlpg_log s\<rparr>"

definition paging_set ::
  "u32 \<Rightarrow> u32 \<Rightarrow> u32 \<Rightarrow> ('d, 'z) paging_scheme \<Rightarrow> (int \<times> ('d, 'z) paging_scheme) option" where
  "paging_set directory virt v s =
     (if \<not> paging_is_aligned virt then Some (-1, s)
      else do {
        let directory_index = unat (drop_bit 22 virt);
        let table_index = unat (drop_bit 12 virt AND 0x3FF);
        let entry = read32 (mem s) (entry_addr directory directory_index);
        let table = entry AND 0xFFFFF000;
        (table, s) \<leftarrow>
          (if table = 0 then do {
             (table, s) \<leftarrow> kmalloc_a (4 * of_nat PAGING_TOTAL_ENTRIES_PER_TABLE_SIZE) s;
             let s = s\<lparr>mem := fill32 table (\<lambda>_. 0) PAGING_TOTAL_ENTRIES_PER_TABLE_SIZE (mem s)\<rparr>;
             let s = s\<lparr>mem := write32 (mem s) (entry_addr directory directory_index)
               (table OR PAGING_IS_PRESENT OR PAGING_IS_WRITEABLE OR PAGING_ACCESS_FROM_ALL)\<rparr>;
             Some (table, s)
           } else Some (table, s));
        let s = s\<lparr>mem := write32 (mem s) (entry_addr table table_index) v\<rparr>;
        Some (0, paging_flush_tlb_single virt s)
      })"

section \<open>The processor's page walk\<close>

definition dir_index :: "u32 \<Rightarrow> nat" where
  "dir_index v = unat (drop_bit 22 v)"

definition table_index :: "u32 \<Rightarrow> nat" where
  "table_index v = unat (drop_bit 12 v AND 0x3FF)"

definition pde :: "ram \<Rightarrow> u32 \<Rightarrow> nat \<Rightarrow> u32" where
  "pde m d i = read32 m (entry_addr d i)"

definition pde_table :: "ram \<Rightarrow> u32 \<Rightarrow> nat \<Rightarrow> u32" where
  "pde_table m d i = pde m d i AND 0xFFFFF000"

text \<open>The entry that maps the page of address \<open>v\<close>, or \<open>None\<close> for a page fault.\<close>

definition mmu_walk :: "ram \<Rightarrow> u32 \<Rightarrow> u32 \<Rightarrow> u32 option" where
  "mmu_walk m d v =
     (if pde m d (dir_index v) AND 1 = 0 then None
      else (let e = read32 m (entry_addr (pde_table m d (dir_index v)) (table_index v))
            in if e AND 1 = 0 then None else Some e))"

text \<open>The address the processor puts on the bus for \<open>v\<close>: \<open>v\<close> itself while bit 31 of \<open>cr0\<close> is
  clear, and otherwise the frame of the entry that the walk from \<open>cr3\<close> finds.\<close>

definition cpu_translate :: "('d, 'z) paging_scheme \<Rightarrow> u32 \<Rightarrow> u32 option" where
  "cpu_translate s v =
     (if cr0 s AND 0x80000000 = 0 then Some v
      else map_option (\<lambda>e. (e AND 0xFFFFF000) + (v AND 0xFFF))
        (mmu_walk (mem s) (cr3 s AND 0xFFFFF000) v))"

section \<open>Arrays of entries in RAM\<close>

lemma unat_entry_addr:
  assumes "unat t + 4 * i < 4294967296"
  shows "unat (entry_addr t i) = unat t + 4 * i"
proof -
  have "entry_addr t i = t + of_nat (4 * i)" by (simp add: entry_addr_def)
  then show ?thesis using assms by (simp only: unat_plus_of_nat)
qed

lemma fill32_Suc: "fill32 t f (Suc n) m = write32 (fill32 t f n m) (entry_addr t n) (f n)"
  by (simp add: fill32_def)

lemma fill32_outside:
  assumes "unat t + 4 * n \<le> 4294967296" "x \<notin> region t (4 * n)"
  shows "fill32 t f n m x = m x"
  using assms
proof (induction n)
  case (Suc n)
  have u: "unat (entry_addr t n) = unat t + 4 * n" using Suc.prems(1) by (simp add: unat_entry_addr)
  have "write32 (fill32 t f n m) (entry_addr t n) (f n) x = fill32 t f n m x"
    using Suc.prems by (intro write32_outside) (auto simp: u)
  moreover have "fill32 t f n m x = m x"
    using Suc.prems by (intro Suc.IH) auto
  ultimately show ?case by (simp add: fill32_Suc)
qed (simp add: fill32_def)

lemma fill32_read:
  assumes "unat t + 4 * n \<le> 4294967296" "i < n"
  shows "read32 (fill32 t f n m) (entry_addr t i) = f i"
  using assms
proof (induction n)
  case (Suc n)
  show ?case
  proof (cases "i = n")
    case True
    then show ?thesis by (simp add: fill32_Suc)
  next
    case False
    have "unat (entry_addr t n) = unat t + 4 * n" "unat (entry_addr t i) = unat t + 4 * i"
      using Suc.prems by (simp_all add: unat_entry_addr)
    then have "read32 (fill32 t f (Suc n) m) (entry_addr t i) = read32 (fill32 t f n m) (entry_addr t i)"
      using Suc.prems False unfolding fill32_Suc by (intro read32_write32_disj) auto
    then show ?thesis using Suc False by simp
  qed
qed simp

text \<open>Reading an entry of a block that a write elsewhere did not touch.\<close>

lemma entry_cong:
  assumes "unat t + 4096 < 4294967296" "i < 1024" "\<And>x. x \<in> region t 4096 \<Longrightarrow> m x = m' x"
  shows "read32 m (entry_addr t i) = read32 m' (entry_addr t i)"
proof -
  have u: "unat (entry_addr t i) = unat t + 4 * i" using assms by (simp add: unat_entry_addr)
  show ?thesis
    using assms(1,2) by (intro read32_cong assms(3)) (simp_all add: u)
qed

lemma entry_write:
  assumes "unat t + 4096 < 4294967296" "i < 1024" "j < 1024"
  shows "read32 (write32 m (entry_addr t i) v) (entry_addr t j)
    = (if i = j then v else read32 m (entry_addr t j))"
proof (cases "i = j")
  case False
  have "unat (entry_addr t i) = unat t + 4 * i" "unat (entry_addr t j) = unat t + 4 * j"
    using assms by (simp_all add: unat_entry_addr)
  then show ?thesis using False assms by (simp, intro read32_write32_disj) auto
qed simp

lemma entry_write_outside:
  assumes "unat t + 4096 < 4294967296" "i < 1024" "x \<notin> region t 4096"
  shows "write32 m (entry_addr t i) v x = m x"
proof -
  have "unat (entry_addr t i) = unat t + 4 * i" using assms by (simp add: unat_entry_addr)
  then show ?thesis using assms by (intro write32_outside) auto
qed

section \<open>Indices and entries\<close>

lemma dir_index_eq: "dir_index v = unat v div 4194304"
  unfolding dir_index_def unat_drop_bit_eq by (simp add: drop_bit_eq_div)

lemma dir_index_less [simp]: "dir_index v < 1024"
proof -
  have "unat v < 1024 * 4194304" using unat_less_2p32 [of v] by linarith
  then show ?thesis unfolding dir_index_eq by (rule less_mult_imp_div_less)
qed

lemma mask10: "(0x3FF :: u32) = mask 10"
  by (simp add: mask_eq_exp_minus_1)

lemma table_index_eq: "table_index v = unat v div 4096 mod 1024"
  unfolding table_index_def mask10 take_bit_eq_mask [symmetric] unsigned_take_bit_eq unat_drop_bit_eq
  by (simp add: take_bit_eq_mod drop_bit_eq_div)

lemma table_index_less [simp]: "table_index v < 1024"
  by (simp add: table_index_eq)

lemma dir_index_page: "dir_index v = unat v div 4096 div 1024"
  by (simp add: dir_index_eq div_mult2_eq [symmetric])

lemma page_of_indices: "dir_index v * 4194304 + table_index v * 4096 = unat v - unat v mod 4096"
proof -
  define k where "k = unat v div 4096"
  have "k div 1024 * 1024 + k mod 1024 = k" by simp
  then have "k div 1024 * 4194304 + k mod 1024 * 4096 = k * 4096" by linarith
  then show ?thesis unfolding dir_index_page table_index_eq k_def by (simp add: minus_mod_eq_div_mult)
qed

lemma same_page_iff:
  "dir_index v = dir_index w \<and> table_index v = table_index w \<longleftrightarrow> unat v div 4096 = unat w div 4096"
proof -
  show ?thesis unfolding dir_index_page table_index_eq by (metis div_mult_mod_eq)
qed

text \<open>A page-aligned table address keeps its bits when flags are ORed in below the page.\<close>

lemma aligned_high12:
  assumes "(t :: u32) AND 0xFFF = 0"
  shows "t AND 0xFFFFF000 = t"
  using low_high12 [of t] assms by simp

lemma or_flags_high12:
  assumes "(t :: u32) AND 0xFFF = 0" "f AND 0xFFFFF000 = 0"
  shows "(t OR f) AND 0xFFFFF000 = t"
  using aligned_high12 [OF assms(1)] assms(2) by (simp add: bit.conj_disj_distrib2)

section \<open>Well-formed page tables\<close>

text \<open>The directory and the tables it names are distinct blocks of the heap, and an entry of
  the directory is either 0 or present.\<close>

definition tables :: "ram \<Rightarrow> u32 \<Rightarrow> u32 set" where
  "tables m d = pde_table m d ` {i. i < 1024 \<and> pde m d i \<noteq> 0}"

definition pd_ok :: "('d, 'z) kheap_scheme \<Rightarrow> (u32 \<times> nat) set \<Rightarrow> u32 \<Rightarrow> bool" where
  "pd_ok h L d \<longleftrightarrow> heap_owns h L \<and> (d, 4096) \<in> L \<and> d AND 0xFFF = 0
    \<and> (\<forall>i<1024. pde (mem h) d i = 0 \<or> pde (mem h) d i AND 1 \<noteq> 0
        \<and> pde_table (mem h) d i \<noteq> d \<and> (pde_table (mem h) d i, 4096) \<in> L)
    \<and> (\<forall>i<1024. \<forall>j<1024. pde (mem h) d i \<noteq> 0 \<longrightarrow> pde (mem h) d j \<noteq> 0
        \<longrightarrow> pde_table (mem h) d i = pde_table (mem h) d j \<longrightarrow> i = j)"

lemma pd_okD:
  assumes "pd_ok h L d"
  shows "heap_owns h L" "(d, 4096) \<in> L" "unat d + 4096 < 4294967296"
    "i < 1024 \<Longrightarrow> pde (mem h) d i \<noteq> 0 \<Longrightarrow> pde (mem h) d i AND 1 \<noteq> 0
      \<and> pde_table (mem h) d i \<noteq> d \<and> (pde_table (mem h) d i, 4096) \<in> L"
    "i < 1024 \<Longrightarrow> j < 1024 \<Longrightarrow> pde (mem h) d i \<noteq> 0 \<Longrightarrow> pde (mem h) d j \<noteq> 0
      \<Longrightarrow> pde_table (mem h) d i = pde_table (mem h) d j \<Longrightarrow> i = j"
proof -
  show 1: "heap_owns h L" "(d, 4096) \<in> L" using assms by (auto simp: pd_ok_def)
  show "unat d + 4096 < 4294967296" by (rule heap_owns_bounds(4) [OF 1])
qed (use assms in \<open>auto simp: pd_ok_def\<close>)

lemma read_block_cong:
  assumes "(t, 4096) \<in> L" "heap_owns h L" "i < 1024" "\<And>x. x \<in> region t 4096 \<Longrightarrow> m x = m' x"
  shows "read32 m (entry_addr t i) = read32 m' (entry_addr t i)"
  using heap_owns_bounds(4) [OF assms(2,1)] assms(3,4) by (rule entry_cong)

lemma pde_zero_walk [simp]: "pde m d (dir_index v) = 0 \<Longrightarrow> mmu_walk m d v = None"
  by (simp add: mmu_walk_def)

text \<open>Installing a freshly allocated and filled table in an empty slot of the directory.\<close>

lemma install_table:
  fixes h h1 :: "('d, 'z) kheap_scheme"
  assumes ok: "pd_ok h L d" and i: "i < 1024" "pde (mem h) d i = 0"
    and own: "heap_owns h1 (insert (t, 4096) L)"
    and keep: "\<forall>q k. (q, k) \<in> L \<longrightarrow> q \<noteq> t \<and> (\<forall>x \<in> region q k. mem h1 x = mem h x)"
    and e: "e AND 1 \<noteq> 0" "e AND 0xFFFFF000 = t"
    and m': "m' = write32 (fill32 t f 1024 (mem h1)) (entry_addr d i) e"
  shows "pd_ok (h1\<lparr>mem := m'\<rparr>) (insert (t, 4096) L) d"
    and "j < 1024 \<Longrightarrow> pde m' d j = (if j = i then e else pde (mem h) d j)"
    and "mmu_walk m' d v = (if dir_index v = i
      then if f (table_index v) AND 1 = 0 then None else Some (f (table_index v))
      else mmu_walk (mem h) d v)"
    and "(q, k) \<in> L \<Longrightarrow> q \<noteq> d \<Longrightarrow> x \<in> region q k \<Longrightarrow> m' x = mem h x"
proof -
  let ?mf = "fill32 t f 1024 (mem h1)"
  note D = pd_okD [OF ok]
  have td: "t \<noteq> d" using keep D(2) by auto
  have T: "unat t + 4096 < 4294967296" "t \<noteq> 0"
    using heap_owns_bounds [OF own, of t 4096] by simp_all
  have mf: "?mf x = mem h x" if "(q, k) \<in> L" "x \<in> region q k" for q k x
  proof -
    have "region q k \<inter> region t 4096 = {}"
      using that(1) keep by (intro heap_owns_disjoint [OF own]) auto
    then have "?mf x = mem h1 x"
      using that(2) T by (intro fill32_outside) (simp_all del: in_region, blast)
    moreover have "mem h1 x = mem h x" using keep that by metis
    ultimately show ?thesis by (rule trans)
  qed
  show frame: "m' x = mem h x" if "(q, k) \<in> L" "q \<noteq> d" "x \<in> region q k" for q k x
  proof -
    have "x \<notin> region d 4096" using heap_owns_disjoint [OF D(1) that(1) D(2)] that by blast
    then show ?thesis
      using mf [OF that(1,3)] entry_write_outside [OF D(3) i(1)] by (simp add: m' del: in_region)
  qed
  show pde': "pde m' d j = (if j = i then e else pde (mem h) d j)" if "j < 1024" for j
  proof -
    have "read32 ?mf (entry_addr d j) = read32 (mem h) (entry_addr d j)"
      using mf [OF D(2)] by (rule read_block_cong [OF D(2,1) that])
    then show ?thesis using entry_write [OF D(3) i(1) that] by (simp add: pde_def m')
  qed
  have et: "e \<noteq> 0" using e(1) by auto
  have tab: "pde_table m' d j = (if j = i then t else pde_table (mem h) d j)" if "j < 1024" for j
    using pde' [OF that] e(2) by (simp add: pde_table_def)
  have "m' x = mem h1 x" if "\<forall>q k. (q, k) \<in> insert (t, 4096) L \<longrightarrow> x \<notin> region q k" for x
  proof -
    have "x \<notin> region t 4096" "x \<notin> region d 4096" using that D(2) by (simp_all del: in_region)
    then show ?thesis
      using T by (simp add: m' entry_write_outside [OF D(3) i(1)] fill32_outside del: in_region)
  qed
  then have own': "heap_owns (h1\<lparr>mem := m'\<rparr>) (insert (t, 4096) L)"
    by (rule heap_owns_write [OF own])
  have fresh: "pde_table (mem h) d j \<noteq> t" if "j < 1024" "pde (mem h) d j \<noteq> 0" for j
    using D(4) [OF that] keep by blast
  show "pd_ok (h1\<lparr>mem := m'\<rparr>) (insert (t, 4096) L) d"
    unfolding pd_ok_def
  proof (intro conjI allI impI)
    fix j :: nat assume j: "j < 1024"
    show "pde (mem (h1\<lparr>mem := m'\<rparr>)) d j = 0 \<or> pde (mem (h1\<lparr>mem := m'\<rparr>)) d j AND 1 \<noteq> 0
        \<and> pde_table (mem (h1\<lparr>mem := m'\<rparr>)) d j \<noteq> d
        \<and> (pde_table (mem (h1\<lparr>mem := m'\<rparr>)) d j, 4096) \<in> insert (t, 4096) L"
      using D(4) [OF j] e(1) td by (auto simp: pde' [OF j] tab [OF j])
    fix k :: nat
    assume k: "k < 1024" and nz: "pde (mem (h1\<lparr>mem := m'\<rparr>)) d j \<noteq> 0"
      "pde (mem (h1\<lparr>mem := m'\<rparr>)) d k \<noteq> 0"
      and eq: "pde_table (mem (h1\<lparr>mem := m'\<rparr>)) d j = pde_table (mem (h1\<lparr>mem := m'\<rparr>)) d k"
    show "j = k"
      using nz eq D(5) [OF j k] fresh [OF j] fresh [OF k]
      by (auto simp: pde' [OF j] tab [OF j] pde' [OF k] tab [OF k] split: if_splits)
  qed (use own' D(2) ok in \<open>simp_all add: pd_ok_def\<close>)
  show "mmu_walk m' d v = (if dir_index v = i
      then if f (table_index v) AND 1 = 0 then None else Some (f (table_index v))
      else mmu_walk (mem h) d v)"
  proof (cases "dir_index v = i")
    case True
    have "read32 m' (entry_addr t (table_index v)) = read32 ?mf (entry_addr t (table_index v))"
    proof (rule entry_cong [OF T(1)])
      fix x assume "x \<in> region t 4096"
      moreover have "region t 4096 \<inter> region d 4096 = {}"
        using td D(2) by (intro heap_owns_disjoint [OF own]) auto
      ultimately have "x \<notin> region d 4096" by blast
      then show "m' x = ?mf x" by (simp add: m' entry_write_outside [OF D(3) i(1)] del: in_region)
    qed simp
    then have "read32 m' (entry_addr t (table_index v)) = f (table_index v)"
      using T by (simp add: fill32_read)
    then show ?thesis using True e i(1) by (simp add: mmu_walk_def tab pde' Let_def)
  next
    case False
    have "read32 m' (entry_addr (pde_table (mem h) d (dir_index v)) (table_index v))
      = read32 (mem h) (entry_addr (pde_table (mem h) d (dir_index v)) (table_index v))"
      if "pde (mem h) d (dir_index v) \<noteq> 0"
    proof -
      have "pde_table (mem h) d (dir_index v) \<noteq> d" "(pde_table (mem h) d (dir_index v), 4096) \<in> L"
        using D(4) [OF dir_index_less that] by auto
      then show ?thesis
        using frame by (intro read_block_cong [OF _ D(1)]) (simp_all del: in_region)
    qed
    then show ?thesis
      using False by (cases "pde (mem h) d (dir_index v) = 0")
        (simp_all add: mmu_walk_def tab pde' Let_def)
  qed
qed

text \<open>Writing one entry of a table the directory names.\<close>

lemma write_pte:
  fixes h :: "('d, 'z) kheap_scheme"
  assumes ok: "pd_ok h L d" and i: "i < 1024" "pde (mem h) d i \<noteq> 0" and j: "j < 1024"
    and m': "m' = write32 (mem h) (entry_addr (pde_table (mem h) d i) j) e"
  shows "pd_ok (h\<lparr>mem := m'\<rparr>) L d"
    and "n < 1024 \<Longrightarrow> pde m' d n = pde (mem h) d n"
    and "mmu_walk m' d v = (if dir_index v = i \<and> table_index v = j
      then if e AND 1 = 0 then None else Some e else mmu_walk (mem h) d v)"
    and "(q, k) \<in> L \<Longrightarrow> q \<noteq> pde_table (mem h) d i \<Longrightarrow> x \<in> region q k \<Longrightarrow> m' x = mem h x"
proof -
  let ?t = "pde_table (mem h) d i"
  note D = pd_okD [OF ok]
  have t: "pde (mem h) d i AND 1 \<noteq> 0" "?t \<noteq> d" "(?t, 4096) \<in> L" using D(4) [OF i] by auto
  note T = heap_owns_bounds(4) [OF D(1) t(3)]
  have out: "m' x = mem h x" if "x \<notin> region ?t 4096" for x
    using entry_write_outside [OF T j that] by (simp add: m')
  show frame: "m' x = mem h x" if "(q, k) \<in> L" "q \<noteq> ?t" "x \<in> region q k" for q k x
    using heap_owns_disjoint [OF D(1) that(1) t(3) that(2)] that(3) by (intro out) blast
  show pde': "pde m' d n = pde (mem h) d n" if "n < 1024" for n
    unfolding pde_def using frame [OF D(2)] t(2)
    by (intro read_block_cong [OF D(2,1) that]) (simp del: in_region)
  have tab: "pde_table m' d n = pde_table (mem h) d n" if "n < 1024" for n
    using pde' [OF that] by (simp add: pde_table_def)
  have "heap_owns (h\<lparr>mem := m'\<rparr>) L"
    using t(3) by (intro heap_owns_write [OF D(1)] out) blast
  then show "pd_ok (h\<lparr>mem := m'\<rparr>) L d"
    using ok by (simp add: pd_ok_def pde' tab)
  show "mmu_walk m' d v = (if dir_index v = i \<and> table_index v = j
      then if e AND 1 = 0 then None else Some e else mmu_walk (mem h) d v)"
  proof (cases "dir_index v = i")
    case True
    have "read32 m' (entry_addr ?t (table_index v))
      = (if table_index v = j then e else read32 (mem h) (entry_addr ?t (table_index v)))"
      using entry_write [OF T j, of "table_index v"] by (auto simp: m')
    then show ?thesis using True t(1) i(1) by (simp add: mmu_walk_def tab pde' Let_def)
  next
    case False
    have "read32 m' (entry_addr (pde_table (mem h) d (dir_index v)) (table_index v))
      = read32 (mem h) (entry_addr (pde_table (mem h) d (dir_index v)) (table_index v))"
      if nz: "pde (mem h) d (dir_index v) \<noteq> 0"
    proof -
      have "(pde_table (mem h) d (dir_index v), 4096) \<in> L" "pde_table (mem h) d (dir_index v) \<noteq> ?t"
        using D(4) [OF dir_index_less nz] D(5) [OF dir_index_less i(1) nz i(2)] False by auto
      then show ?thesis
        using frame by (intro read_block_cong [OF _ D(1)]) (simp_all del: in_region)
    qed
    then show ?thesis
      using False by (cases "pde (mem h) d (dir_index v) = 0")
        (simp_all add: mmu_walk_def tab pde' Let_def)
  qed
qed

section \<open>Mapping a page\<close>

lemma pd_ok_same:
  fixes h :: "('d, 'z) kheap_scheme" and h' :: "('e, 'y) kheap_scheme"
  assumes "pd_ok h L d" "mem h' = mem h" "placement_address h' = placement_address h"
    and "global_base h' = global_base h"
  shows "pd_ok h' L d"
  using assms heap_owns_same [OF assms(2-4)] by (simp add: pd_ok_def)

lemma heap_only_log: "heap_only s s' \<Longrightarrow> invlpg_log s' = invlpg_log s"
  unfolding heap_only_def by (drule arg_cong [of s' _ invlpg_log]) simp

lemma page_size_4096: "4 * of_nat PAGING_TOTAL_ENTRIES_PER_TABLE_SIZE = (4096 :: u32)"
  by (simp add: PAGING_TOTAL_ENTRIES_PER_TABLE_SIZE_def)

lemma bit_nonzero: "bit (a :: u32) n \<Longrightarrow> a \<noteq> 0"
  by auto

lemma or_bit0:
  fixes t f :: u32
  assumes "f AND 1 = 1"
  shows "(t OR f) AND 1 \<noteq> 0"
proof -
  have "bit (f AND 1) 0" unfolding assms by simp
  then have "bit ((t OR f) AND 1) 0" by (simp add: bit_simps)
  then show ?thesis by (rule bit_nonzero)
qed

lemma pde_new_bits:
  assumes "(t :: u32) AND 0xFFF = 0" "f AND 0xFFFFF000 = 0" "f AND 1 = 1"
  shows "(t OR f) AND 1 \<noteq> 0" "(t OR f) AND 0xFFFFF000 = t"
  by (rule or_bit0 [OF assms(3)], rule or_flags_high12 [OF assms(1,2)])

lemma fresh_block: "\<forall>q k. (q, k) \<in> L \<longrightarrow> q \<noteq> t \<and> P q k \<Longrightarrow> t \<notin> fst ` L"
  by (metis imageE prod.collapse)

lemma kmalloc_a_table:
  fixes h :: "('d, 'z) kheap_scheme"
  assumes "heap_owns h L" "header_fits_page h" "unat (placement_address h) + 8208 < 4294967296"
  obtains p h' where "kmalloc_a 4096 h = Some (p, h')" "p \<noteq> 0" "p AND 0xFFF = 0" "heap_only h h'"
    "heap_owns h' (insert (p, 4096) L)"
    "\<forall>q k. (q, k) \<in> L \<longrightarrow> q \<noteq> p \<and> (\<forall>x \<in> region q k. mem h' x = mem h x)"
    "header_fits_page h'"
    "unat (placement_address h') \<le> unat (placement_address h) + 8208"
    "\<And>m. page_room h m \<Longrightarrow> page_room h' m"
proof -
  have size: "unat (4096 :: u32) = 4096" by simp
  have "(4096 :: u32) \<noteq> 0" "unat (placement_address h) + 4112 + unat (4096 :: u32) < 4294967296"
    using assms(3) by simp_all
  from kmalloc_a_placed [OF assms(1) this(1) assms(2) this(2)]
  obtain p h' where k: "kmalloc_a 4096 h = Some (p, h')" "p \<noteq> 0" "p AND 0xFFF = 0" "heap_only h h'"
    "heap_owns h' (insert (p, 4096) L)"
    "\<forall>q k. (q, k) \<in> L \<longrightarrow> q \<noteq> p \<and> (\<forall>x \<in> region q k. mem h' x = mem h x)"
    "placement_address h' = placement_address h \<or> unat (placement_address h') mod 4096 = 0"
    "unat (placement_address h') \<le> unat (placement_address h) + 4112 + 4096"
    unfolding size mod_self by (elim exE conjE) (rule that; assumption)
  have r: "page_room h' m" if "page_room h m" for m
  proof (rule page_room_aligned [OF that _ k(7)])
    show "0 + m \<le> 4080" using that unfolding page_room_def by linarith
  qed
  have "header_fits_page h'" using r [of 0] assms(2) by (simp add: page_room_0)
  moreover have "unat (placement_address h') \<le> unat (placement_address h) + 8208" using k(8) by simp
  ultimately show ?thesis using r by (rule that [OF k(1-6)])
qed

text \<open>What mapping may change of the state: RAM, the heap's variables and the log of flushed pages.\<close>

definition paging_only :: "('d, 'z) paging_scheme \<Rightarrow> ('d, 'z) paging_scheme \<Rightarrow> bool" where
  "paging_only s s' \<longleftrightarrow> s' = s\<lparr>mem := mem s', placement_address := placement_address s',
     global_base := global_base s', invlpg_log := invlpg_log s'\<rparr>"

lemma paging_only_refl [simp]: "paging_only s s"
  by (simp add: paging_only_def)

lemma paging_only_trans: "paging_only s s' \<Longrightarrow> paging_only s' s'' \<Longrightarrow> paging_only s s''"
  unfolding paging_only_def by (erule ssubst [of s'']) (erule ssubst [of s' _ "\<lambda>z. _ z = _ z"] | simp)+

lemma heap_only_paging: "heap_only s s' \<Longrightarrow> paging_only s s'"
  for s :: "('d, 'z) paging_scheme"
  unfolding heap_only_def paging_only_def by (erule ssubst) simp

lemma paging_only_updates [simp]:
  "paging_only s (s\<lparr>mem := m\<rparr>)" "paging_only s (paging_flush_tlb_single v (s\<lparr>mem := m\<rparr>))"
  by (simp_all add: paging_only_def paging_flush_tlb_single_def)

text \<open>The tables of a directory after a write to it or to one of its tables.\<close>

lemma tables_cong: "(\<And>n. n < 1024 \<Longrightarrow> pde m' d n = pde m d n) \<Longrightarrow> tables m' d = tables m d"
  unfolding tables_def pde_table_def by (rule image_cong) auto

lemma tables_install:
  assumes "\<And>j. j < 1024 \<Longrightarrow> pde m' d j = (if j = i then e else pde m d j)"
    and "e AND 0xFFFFF000 = t"
  shows "tables m' d \<subseteq> insert t (tables m d)"
  using assms by (auto simp: tables_def pde_table_def split: if_splits)

lemma paging_set_spec:
  fixes s :: "('d, 'z) paging_scheme"
  assumes ok: "pd_ok s L d" and al: "paging_is_aligned virt" and page: "header_fits_page s"
    and room: "unat (placement_address s) + 8208 < 4294967296"
  shows "\<exists>s' L'. paging_set d virt e s = Some (0, s') \<and> pd_ok s' L' d \<and> L \<subseteq> L'
    \<and> invlpg_log s' = virt # invlpg_log s
    \<and> (\<forall>v. mmu_walk (mem s') d v = (if unat v div 4096 = unat virt div 4096
        then if e AND 1 = 0 then None else Some e else mmu_walk (mem s) d v))
    \<and> (\<forall>q k x. (q, k) \<in> L \<longrightarrow> q \<noteq> d \<longrightarrow> q \<notin> tables (mem s) d \<longrightarrow> x \<in> region q k
        \<longrightarrow> mem s' x = mem s x)
    \<and> tables (mem s') d \<inter> fst ` L \<subseteq> tables (mem s) d \<and> paging_only s s'
    \<and> (\<forall>m. page_room s m \<longrightarrow> page_room s' m)
    \<and> unat (placement_address s') \<le> unat (placement_address s) + 8208"
proof -
  let ?i = "dir_index virt" and ?j = "table_index virt"
  let ?set = "\<lambda>t s. paging_flush_tlb_single virt
    (s\<lparr>mem := write32 (mem s) (entry_addr t ?j) e\<rparr>)"
  note D = pd_okD [OF ok]
  show ?thesis
  proof (cases "pde (mem s) d ?i = 0")
    case False
    let ?t = "pde_table (mem s) d ?i"
    have t: "?t \<noteq> 0" "?t \<in> tables (mem s) d"
      using D(4) [OF dir_index_less False] heap_owns_bounds(5) [OF D(1)] False
      by (auto simp: tables_def)
    then have run: "paging_set d virt e s = Some (0, ?set ?t s)"
      using al by (simp add: paging_set_def dir_index_def table_index_def pde_table_def pde_def Let_def)
    note W = write_pte [OF ok dir_index_less False table_index_less refl]
    show ?thesis
    proof (intro exI conjI allI impI)
      show "pd_ok (?set ?t s) L d" using W(1) by (rule pd_ok_same)
        (simp_all add: paging_flush_tlb_single_def)
      show "mem (?set ?t s) x = mem s x"
        if "(q, k) \<in> L" "q \<notin> tables (mem s) d" "x \<in> region q k" for q k x
        using W(4) [OF that(1) _ that(3)] t(2) that(2) by (auto simp: paging_flush_tlb_single_def)
      show "paging_only s (?set ?t s)" by simp
      have "tables (mem (?set ?t s)) d = tables (mem s) d"
        using W(2) by (intro tables_cong) (simp add: paging_flush_tlb_single_def)
      then show "tables (mem (?set ?t s)) d \<inter> fst ` L \<subseteq> tables (mem s) d" by simp
    qed (use run W(3) in \<open>simp_all add: paging_flush_tlb_single_def same_page_iff page_room_def\<close>)
  next
    case True
    have "entry AND 0xFFFFF000 = (0 :: u32)" if "entry = 0" for entry using that by simp
    obtain t s1 where k: "kmalloc_a 4096 s = Some (t, s1)" "t \<noteq> 0" "t AND 0xFFF = 0" "heap_only s s1"
      "heap_owns s1 (insert (t, 4096) L)"
      "\<forall>q k. (q, k) \<in> L \<longrightarrow> q \<noteq> t \<and> (\<forall>x \<in> region q k. mem s1 x = mem s x)"
      "unat (placement_address s1) \<le> unat (placement_address s) + 8208" "\<And>m. page_room s m \<Longrightarrow> page_room s1 m"
      by (rule kmalloc_a_table [OF D(1) page room]) blast
    let ?e = "t OR PAGING_IS_PRESENT OR PAGING_IS_WRITEABLE OR PAGING_ACCESS_FROM_ALL"
    have e: "?e AND 1 \<noteq> 0" "?e AND 0xFFFFF000 = t"
      using pde_new_bits [OF k(3), of "PAGING_IS_PRESENT OR PAGING_IS_WRITEABLE OR PAGING_ACCESS_FROM_ALL"]
      by (simp_all add: paging_consts or.assoc)
    define m2 where "m2 = write32 (fill32 t (\<lambda>_. 0) 1024 (mem s1)) (entry_addr d ?i) ?e"
    note I = install_table [OF ok dir_index_less True k(5,6) e m2_def]
    have run: "paging_set d virt e s = Some (0, ?set t (s1\<lparr>mem := m2\<rparr>))"
      using al k(1) True
      by (simp add: paging_set_def dir_index_def [symmetric] table_index_def [symmetric]
          pde_table_def pde_def [symmetric] Let_def page_size_4096 m2_def
          PAGING_TOTAL_ENTRIES_PER_TABLE_SIZE_def)
    have p: "pde m2 d ?i = ?e" "pde_table m2 d ?i = t"
      using I(2) [of ?i] e(2) by (simp_all add: pde_table_def)
    have nz: "pde (mem (s1\<lparr>mem := m2\<rparr>)) d ?i \<noteq> 0" using e(1) by (auto simp: p)
    have m3: "write32 m2 (entry_addr t ?j) e
      = write32 (mem (s1\<lparr>mem := m2\<rparr>)) (entry_addr (pde_table (mem (s1\<lparr>mem := m2\<rparr>)) d ?i) ?j) e"
      by (simp add: p)
    note W = write_pte [OF I(1) dir_index_less nz table_index_less m3]
    show ?thesis
    proof (intro exI conjI allI impI)
      show "pd_ok (?set t (s1\<lparr>mem := m2\<rparr>)) (insert (t, 4096) L) d"
        using W(1) by (rule pd_ok_same) (simp_all add: paging_flush_tlb_single_def)
      show "mem (?set t (s1\<lparr>mem := m2\<rparr>)) x = mem s x"
        if "(q, k) \<in> L" "q \<noteq> d" "x \<in> region q k" for q k x
      proof -
        have "q \<noteq> t" using k(6) that(1) by blast
        then show ?thesis
          using W(4) [of q k x] I(4) [OF that] that
          by (simp add: p paging_flush_tlb_single_def del: in_region)
      qed
      show "mmu_walk (mem (?set t (s1\<lparr>mem := m2\<rparr>))) d v = (if unat v div 4096 = unat virt div 4096
        then if e AND 1 = 0 then None else Some e else mmu_walk (mem s) d v)" for v
        using W(3) [of v] I(3) [of v] True
        by (auto simp: paging_flush_tlb_single_def same_page_iff [symmetric] mmu_walk_def [of "mem s"])
      show "invlpg_log (?set t (s1\<lparr>mem := m2\<rparr>)) = virt # invlpg_log s"
        using heap_only_log [OF k(4)] by (simp add: paging_flush_tlb_single_def)
      let ?s3 = "?set t (s1\<lparr>mem := m2\<rparr>)"
      have "paging_only s1 ?s3" by simp
      then show "paging_only s ?s3" by (rule paging_only_trans [OF heap_only_paging [OF k(4)]])
      have "tables (mem ?s3) d = tables m2 d"
        using W(2) by (intro tables_cong) (simp add: paging_flush_tlb_single_def p)
      moreover have "tables m2 d \<subseteq> insert t (tables (mem s) d)" using I(2) e(2) by (rule tables_install)
      moreover have "t \<notin> fst ` L" using k(6) by (rule fresh_block)
      ultimately show "tables (mem ?s3) d \<inter> fst ` L \<subseteq> tables (mem s) d" by blast
      show "page_room s m \<Longrightarrow> page_room ?s3 m" for m
        using k(8) [of m] by (simp add: paging_flush_tlb_single_def page_room_def)
    qed (use run k(7) in \<open>auto simp: paging_flush_tlb_single_def\<close>)
  qed
qed

section \<open>The identity map of the first 64 MB\<close>

lemma pd_ok_frame:
  fixes h h' :: "('d, 'z) kheap_scheme"
  assumes ok: "pd_ok h L d" and own: "heap_owns h' L'" "L \<subseteq> L'"
    and keep: "\<And>q k x. (q, k) \<in> L \<Longrightarrow> x \<in> region q k \<Longrightarrow> mem h' x = mem h x"
  shows "pd_ok h' L' d" "mmu_walk (mem h') d v = mmu_walk (mem h) d v"
proof -
  note D = pd_okD [OF ok]
  have pde': "pde (mem h') d i = pde (mem h) d i" if "i < 1024" for i
    unfolding pde_def by (rule read_block_cong [OF D(2,1) that keep [OF D(2)]])
  then have tab: "pde_table (mem h') d i = pde_table (mem h) d i" if "i < 1024" for i
    using that by (simp add: pde_table_def)
  show "pd_ok h' L' d"
    using ok own by (auto simp: pd_ok_def pde' tab)
  have "read32 (mem h') (entry_addr (pde_table (mem h) d (dir_index v)) (table_index v))
      = read32 (mem h) (entry_addr (pde_table (mem h) d (dir_index v)) (table_index v))"
    if "pde (mem h) d (dir_index v) \<noteq> 0"
    using D(4) [OF dir_index_less that] by (intro read_block_cong [OF _ D(1)] keep) auto
  then show "mmu_walk (mem h') d v = mmu_walk (mem h) d v"
    by (cases "pde (mem h) d (dir_index v) = 0") (simp_all add: mmu_walk_def pde' tab Let_def)
qed

lemma heap_only_mem: "heap_only h h' \<Longrightarrow> heap_only h (h'\<lparr>mem := m\<rparr>)"
  unfolding heap_only_def by (erule ssubst) simp

lemma heap_only_trans: "heap_only h h' \<Longrightarrow> heap_only h' h'' \<Longrightarrow> heap_only h h''"
  unfolding heap_only_def by (erule ssubst [of h'']) (erule ssubst [of h' _ "\<lambda>z. _ z = _ z"] | simp)+

lemma flags_bits:
  "(ucast (f :: u8) :: u32) AND 0xFFFFF000 = 0"
  "f AND 1 = 1 \<Longrightarrow> (ucast f :: u32) AND 1 = 1"
proof -
  show "(ucast f :: u32) AND 0xFFFFF000 = 0"
    unfolding notmask12 by (rule bit_word_eqI) (auto simp: bit_simps dest: bit_imp_le_length)
  assume "f AND 1 = 1"
  then have "bit (f AND 1) 0" by simp
  then show "(ucast f :: u32) AND 1 = 1"
    by (intro bit_word_eqI) (auto simp: bit_simps)
qed

lemma identity_entry:
  assumes "i = dir_index v" "b = table_index v"
  shows "of_nat i * 1024 * 4096 + of_nat b * 4096 = v AND 0xFFFFF000"
proof -
  have "of_nat i * 1024 * 4096 + of_nat b * 4096 = (of_nat (i * 4194304 + b * 4096) :: u32)" by simp
  also have "\<dots> = of_nat (unat (v AND 0xFFFFF000))"
    unfolding assms page_of_indices unat_high12 ..
  finally show ?thesis by simp
qed

lemma new_tables_spec:
  fixes h :: "('d, 'z) kheap_scheme"
  assumes fl: "flags AND 1 = 1"
    and "pd_ok h L d" "header_fits_page h" "distinct is"
    and "\<And>i. i \<in> set is \<Longrightarrow> i < 1024 \<and> pde (mem h) d i = 0"
    and "unat (placement_address h) + 8208 * length is < 4294967296"
  shows "\<exists>h' L'. new_tables flags d is h = Some h' \<and> heap_only h h' \<and> pd_ok h' L' d \<and> L \<subseteq> L'
    \<and> (\<forall>v. mmu_walk (mem h') d v = (if dir_index v \<in> set is
        then Some ((v AND 0xFFFFF000) OR ucast flags) else mmu_walk (mem h) d v))
    \<and> (\<forall>q k x. (q, k) \<in> L \<longrightarrow> q \<noteq> d \<longrightarrow> x \<in> region q k \<longrightarrow> mem h' x = mem h x)
    \<and> unat (placement_address h') \<le> unat (placement_address h) + 8208 * length is
    \<and> (\<forall>m. page_room h m \<longrightarrow> page_room h' m) \<and> tables (mem h') d \<inter> fst ` L \<subseteq> tables (mem h) d"
  using assms(2-)
proof (induction "is" arbitrary: h L)
  case Nil
  then show ?case by (intro exI [of _ h] exI [of _ L]) simp
next
  case (Cons i js)
  note D = pd_okD [OF Cons.prems(1)]
  have i: "i < 1024" "pde (mem h) d i = 0" using Cons.prems(4) by auto
  have room: "unat (placement_address h) + 8208 < 4294967296" using Cons.prems(5) by simp
  obtain t h1 where k: "kmalloc_a 4096 h = Some (t, h1)" "t AND 0xFFF = 0" "heap_only h h1"
    "heap_owns h1 (insert (t, 4096) L)"
    "\<forall>q k. (q, k) \<in> L \<longrightarrow> q \<noteq> t \<and> (\<forall>x \<in> region q k. mem h1 x = mem h x)"
    "header_fits_page h1" "unat (placement_address h1) \<le> unat (placement_address h) + 8208"
    "\<And>m. page_room h m \<Longrightarrow> page_room h1 m"
    by (rule kmalloc_a_table [OF D(1) Cons.prems(2) room]) blast
  let ?e = "t OR ucast flags OR PAGING_IS_WRITEABLE OR PAGING_ACCESS_FROM_ALL"
  have e: "?e AND 1 \<noteq> 0" "?e AND 0xFFFFF000 = t"
    using flags_bits [of flags] fl
    by (intro pde_new_bits [OF k(2)]; simp add: paging_consts bit.conj_disj_distrib2)+
  let ?f = "\<lambda>b. (of_nat i * 1024 * 4096 + of_nat b * 4096) OR ucast flags :: u32"
  define m2 where "m2 = write32 (fill32 t ?f 1024 (mem h1)) (entry_addr d i) ?e"
  let ?h2 = "h1\<lparr>mem := m2\<rparr>"
  note I = install_table [OF Cons.prems(1) i k(4,5) e m2_def]
  have run: "new_tables flags d (i # js) h = new_tables flags d js ?h2"
    using k(1) by (simp add: page_size_4096 m2_def paging_consts)
  have js: "j < 1024 \<and> pde (mem ?h2) d j = 0" if "j \<in> set js" for j
    using Cons.prems(3,4) I(2) [of j] that by auto
  have "header_fits_page ?h2" "unat (placement_address ?h2) + 8208 * length js < 4294967296"
    using k(6,7) Cons.prems(5) by (simp_all add: header_fits_page_def)
  then obtain h' L' where r: "new_tables flags d js ?h2 = Some h'" "heap_only ?h2 h'" "pd_ok h' L' d"
    "insert (t, 4096) L \<subseteq> L'"
    "\<forall>v. mmu_walk (mem h') d v = (if dir_index v \<in> set js
        then Some ((v AND 0xFFFFF000) OR ucast flags) else mmu_walk m2 d v)"
    "\<forall>q k x. (q, k) \<in> insert (t, 4096) L \<longrightarrow> q \<noteq> d \<longrightarrow> x \<in> region q k \<longrightarrow> mem h' x = m2 x"
    "unat (placement_address h') \<le> unat (placement_address ?h2) + 8208 * length js"
    "\<forall>m. page_room ?h2 m \<longrightarrow> page_room h' m" "tables (mem h') d \<inter> fst ` insert (t, 4096) L \<subseteq> tables m2 d"
    using Cons.IH [OF I(1)] Cons.prems(3) js by (auto simp del: in_region)
  have w: "mmu_walk m2 d v = Some ((v AND 0xFFFFF000) OR ucast flags)" if "dir_index v = i" for v
  proof -
    have "?f (table_index v) = (v AND 0xFFFFF000) OR ucast flags"
      using identity_entry [of i v] that by simp
    moreover have "((v AND 0xFFFFF000) OR ucast flags) AND 1 \<noteq> 0"
      by (rule or_bit0 [OF flags_bits(2) [OF fl]])
    ultimately show ?thesis using I(3) [of v] that by simp
  qed
  show ?case
  proof (intro exI conjI)
    show "heap_only h h'" using heap_only_trans [OF heap_only_mem [OF k(3)] r(2)] .
    show "\<forall>v. mmu_walk (mem h') d v = (if dir_index v \<in> set (i # js)
        then Some ((v AND 0xFFFFF000) OR ucast flags) else mmu_walk (mem h) d v)"
      using r(5) w I(3) by auto
    show "\<forall>q k x. (q, k) \<in> L \<longrightarrow> q \<noteq> d \<longrightarrow> x \<in> region q k \<longrightarrow> mem h' x = mem h x"
      using r(6) I(4) by (metis insertCI)
    show "\<forall>m. page_room h m \<longrightarrow> page_room h' m"
      using k(8) r(8) by (simp add: page_room_def)
    have "tables m2 d \<subseteq> insert t (tables (mem h) d)" using I(2) e(2) by (rule tables_install)
    moreover have "t \<notin> fst ` L" using k(5) by (rule fresh_block)
    ultimately show "tables (mem h') d \<inter> fst ` L \<subseteq> tables (mem h) d" using r(9) by auto
  qed (use run r k(7) in auto)
qed

lemma paging_new_4gb_spec:
  fixes h :: "('d, 'z) kheap_scheme"
  assumes own: "heap_owns h L" and page: "header_fits_page h" and fl: "flags AND 1 = 1"
    and room: "unat (placement_address h) + 8208 * 17 + 20 < 4294967296"
  shows "\<exists>c d h' L'. paging_new_4gb flags h = Some (c, h')
    \<and> paging_4gb_chunk_get_directory c h' = d \<and> heap_only h h' \<and> pd_ok h' L' d
    \<and> insert (c, 4) L \<subseteq> L'
    \<and> (\<forall>v. mmu_walk (mem h') d v = (if unat v < 64 * 1024 * 1024
        then Some ((v AND 0xFFFFF000) OR ucast flags) else None))
    \<and> (\<forall>q k x. (q, k) \<in> L \<longrightarrow> x \<in> region q k \<longrightarrow> mem h' x = mem h x)
    \<and> c \<noteq> 0 \<and> c \<notin> fst ` L \<and> d \<notin> fst ` insert (c, 4) L \<and> tables (mem h') d \<inter> fst ` insert (c, 4) L = {}
    \<and> (\<forall>m. page_room h (20 + m) \<longrightarrow> page_room h' m)
    \<and> unat (placement_address h') \<le> unat (placement_address h) + (8208 * 17 + 20)"
proof -
  have "unat (placement_address h) + 8208 < 4294967296" using room by simp
  then obtain d h1 where k: "kmalloc_a 4096 h = Some (d, h1)" "d AND 0xFFF = 0" "heap_only h h1"
    "heap_owns h1 (insert (d, 4096) L)"
    "\<forall>q k. (q, k) \<in> L \<longrightarrow> q \<noteq> d \<and> (\<forall>x \<in> region q k. mem h1 x = mem h x)"
    "header_fits_page h1" "unat (placement_address h1) \<le> unat (placement_address h) + 8208"
    "\<And>m. page_room h m \<Longrightarrow> page_room h1 m"
    by (rule kmalloc_a_table [OF own page]) blast
  define m2 where "m2 = fill32 d (\<lambda>_. 0) 1024 (mem h1)"
  let ?h2 = "h1\<lparr>mem := m2\<rparr>"
  have db: "unat d + 4 * 1024 \<le> 4294967296"
    using heap_owns_bounds(4) [OF k(4), of d 4096] by simp
  have m2: "m2 x = mem h1 x" if "x \<notin> region d 4096" for x
    unfolding m2_def by (rule fill32_outside [OF db]) (use that in simp)
  have z: "pde m2 d i = 0" if "i < 1024" for i
    using fill32_read [OF db that, of "\<lambda>_. 0"] by (simp add: pde_def m2_def)
  have own2: "heap_owns ?h2 (insert (d, 4096) L)"
    by (rule heap_owns_write [OF k(4)]) (rule m2, blast)
  have keep2: "m2 x = mem h x" if "(q, k) \<in> L" "x \<in> region q k" for q k x
  proof -
    have "q \<noteq> d" "mem h1 x = mem h x" using k(5) that by metis+
    moreover have "region q k \<inter> region d 4096 = {}"
      using \<open>q \<noteq> d\<close> that(1) by (intro heap_owns_disjoint [OF k(4)]) auto
    ultimately show ?thesis using m2 that(2) by (metis disjoint_iff)
  qed
  have ok2: "pd_ok ?h2 (insert (d, 4096) L) d"
    unfolding pd_ok_def using own2 k(2) z by simp
  have p2: "header_fits_page ?h2" "unat (placement_address ?h2) + 8208 * length [0..<16] < 4294967296"
    using k(6,7) room by (simp_all add: header_fits_page_def)
  have z2: "i < 1024 \<and> pde (mem ?h2) d i = 0" if "i \<in> set [0..<16]" for i
    using that z [of i] by simp
  note new = new_tables_spec [OF fl ok2 p2(1) distinct_upt z2 p2(2)]
  obtain h3 L3 where n: "new_tables flags d [0..<16] ?h2 = Some h3" "heap_only ?h2 h3" "pd_ok h3 L3 d"
    "insert (d, 4096) L \<subseteq> L3"
    "\<forall>v. mmu_walk (mem h3) d v = (if dir_index v \<in> set [0..<16]
        then Some ((v AND 0xFFFFF000) OR ucast flags) else mmu_walk (mem ?h2) d v)"
    "\<forall>q k x. (q, k) \<in> insert (d, 4096) L \<longrightarrow> q \<noteq> d \<longrightarrow> x \<in> region q k \<longrightarrow> mem h3 x = mem ?h2 x"
    "unat (placement_address h3) \<le> unat (placement_address ?h2) + 8208 * length [0..<16]"
    "\<forall>m. page_room ?h2 m \<longrightarrow> page_room h3 m" "tables (mem h3) d \<inter> fst ` insert (d, 4096) L \<subseteq> tables (mem ?h2) d"
    by (rule exE [OF new], assumption, elim exE conjE, (rule that; assumption))
  have four: "unat (4 :: u32) = 4" by simp
  have "unat (placement_address h3) + 16 + unat (4 :: u32) < 4294967296"
    using n(7) k(7) room by simp
  from kmalloc_spec [OF pd_okD(1) [OF n(3)] _ this]
  obtain c h4 where a: "kmalloc 4 h3 = Some (c, h4)" "heap_only h3 h4" "heap_owns h4 (insert (c, 4) L3)"
    "\<forall>q k. (q, k) \<in> L3 \<longrightarrow> q \<noteq> c \<and> (\<forall>x \<in> region q k. mem h4 x = mem h3 x)" "c \<noteq> 0"
    "unat (placement_address h4) \<le> unat (placement_address h3) + 16 + 4"
    unfolding four by auto
  define m5 where "m5 = write32 (mem h4) c d"
  let ?h5 = "h4\<lparr>mem := m5\<rparr>"
  have cb: "unat c + 4 < 4294967296" by (rule heap_owns_bounds(4) [OF a(3)]) simp
  have m5: "m5 x = mem h4 x" if "x \<notin> region c 4" for x
    unfolding m5_def using cb that by (intro write32_outside) simp_all
  have own5: "heap_owns ?h5 (insert (c, 4) L3)"
    by (rule heap_owns_write [OF a(3)]) (rule m5, blast)
  have keep5: "mem ?h5 x = mem h3 x" if "(q, k) \<in> L3" "x \<in> region q k" for q k x
  proof -
    have "q \<noteq> c" "mem h4 x = mem h3 x" using a(4) that by metis+
    moreover have "region q k \<inter> region c 4 = {}"
      using \<open>q \<noteq> c\<close> that(1) by (intro heap_owns_disjoint [OF a(3)]) auto
    ultimately show ?thesis using m5 that(2) by (simp del: in_region) (metis disjoint_iff)
  qed
  note F = pd_ok_frame [OF n(3) own5 subset_insertI keep5]
  have c3: "c \<notin> fst ` L3" using a(4) by (rule fresh_block)
  have t5: "tables (mem ?h5) d = tables (mem h3) d"
  proof (rule tables_cong)
    fix i :: nat assume "i < 1024"
    then show "pde (mem ?h5) d i = pde (mem h3) d i"
      unfolding pde_def by (intro read_block_cong [OF pd_okD(2,1) [OF n(3)]] keep5 [OF pd_okD(2) [OF n(3)]])
  qed
  have "tables (mem ?h2) d = {}" using z by (simp add: tables_def)
  then have t3: "tables (mem h3) d \<inter> fst ` L = {}" using n(9) by auto
  have "tables (mem h3) d \<subseteq> fst ` L3"
    using pd_okD(4) [OF n(3)] by (force simp: tables_def)
  then have t4: "tables (mem ?h5) d \<inter> fst ` insert (c, 4) L = {}" using t3 t5 c3 by auto
  show ?thesis
  proof (intro exI conjI)
    show "paging_new_4gb flags h = Some (c, ?h5)"
      using k(1) n(1) a(1)
      by (simp add: paging_new_4gb_def page_size_4096 m2_def m5_def PAGING_TOTAL_ENTRIES_PER_TABLE_SIZE_def)
    show "paging_4gb_chunk_get_directory c ?h5 = d"
      by (simp add: paging_4gb_chunk_get_directory_def m5_def)
    show "heap_only h ?h5"
      by (intro heap_only_mem heap_only_trans [OF heap_only_trans [OF heap_only_mem [OF k(3)] n(2)] a(2)])
    show "pd_ok ?h5 (insert (c, 4) L3) d" by (rule F(1))
    show "insert (c, 4) L \<subseteq> insert (c, 4) L3" using n(4) by blast
    show "\<forall>v. mmu_walk (mem ?h5) d v = (if unat v < 64 * 1024 * 1024
        then Some ((v AND 0xFFFFF000) OR ucast flags) else None)"
    proof
      fix v :: u32
      have "unat v div 4194304 < 16 \<longleftrightarrow> unat v < 64 * 1024 * 1024"
        by (simp add: div_less_iff_less_mult)
      then show "mmu_walk (mem ?h5) d v = (if unat v < 64 * 1024 * 1024
        then Some ((v AND 0xFFFFF000) OR ucast flags) else None)"
        using F(2) [where v = v] n(5) z [OF dir_index_less] by (simp add: dir_index_eq)
    qed
    show "c \<noteq> 0" by (rule a(5))
    show "c \<notin> fst ` L" using c3 n(4) by auto
    have "d \<notin> fst ` L" using k(5) by (rule fresh_block)
    moreover have "(d, 4096) \<in> L3" using n(4) by blast
    then have "d \<noteq> c" using c3 by force
    ultimately show "d \<notin> fst ` insert (c, 4) L" by simp
    show "tables (mem ?h5) d \<inter> fst ` insert (c, 4) L = {}" by (rule t4)
    show "\<forall>m. page_room h (20 + m) \<longrightarrow> page_room ?h5 m"
    proof (intro allI impI)
      fix m assume "page_room h (20 + m)"
      then have "page_room h3 (16 + unat (4 :: u32) + m)" using k(8) n(8) by (simp add: page_room_def)
      then have "page_room h4 m"
        using n(7) k(7) room by (intro kmalloc_page_room [OF pd_okD(1) [OF n(3)] _ _ a(1)]) simp_all
      then show "page_room ?h5 m" by (simp add: page_room_def)
    qed
    show "unat (placement_address ?h5) \<le> unat (placement_address h) + (8208 * 17 + 20)"
      using a(6) n(7) k(7) by simp
    show "\<forall>q k x. (q, k) \<in> L \<longrightarrow> x \<in> region q k \<longrightarrow> mem ?h5 x = mem h x"
    proof (intro allI impI)
      fix q k x assume q: "(q, k) \<in> L" "x \<in> region q k"
      then have "q \<noteq> d" "(q, k) \<in> L3" using n(4) k(5) by blast+
      moreover have "mem h3 x = m2 x" using n(6) q \<open>q \<noteq> d\<close> by simp
      ultimately show "mem ?h5 x = mem h x" using keep5 [OF _ q(2)] keep2 [OF q] by simp
    qed
  qed
qed

section \<open>Properties\<close>

definition boot_paging :: "u32 \<Rightarrow> unit paging" where
  "boot_paging P = \<lparr>mem = (\<lambda>_. 0), dev = (), cursor_offset = 0, screen_color = 0x0F,
     placement_address = P, global_base = 0, cr3 = 0, cr0 = 0, current_directory = 0, invlpg_log = []\<rparr>"

lemma boot_paging_simps [simp]:
  "mem (boot_paging P) = (\<lambda>_. 0)" "placement_address (boot_paging P) = P"
  "global_base (boot_paging P) = 0"
  by (simp_all add: boot_paging_def)

lemma boot_paging_owns: "P \<noteq> 0 \<Longrightarrow> heap_owns (boot_paging P) {}"
  by (rule heap_owns_empty) simp_all

lemma high12_low: "((v :: u32) AND 0xFFFFF000) AND 0xFFF = 0"
  unfolding mask12 notmask12 by (rule bit_word_eqI) (auto simp: bit_simps)

lemma enable_paging_bit: "cr0 (enable_paging s) AND 0x80000000 \<noteq> 0"
proof -
  have "(0x80000000 :: u32) = push_bit 31 1" by (simp add: push_bit_eq_mult)
  then have "bit (0x80000000 :: u32) 31" by (simp only: bit_push_bit_iff) simp
  then have "bit (cr0 (enable_paging s) AND 0x80000000) 31"
    by (simp add: enable_paging_def bit_simps)
  then show ?thesis by (rule bit_nonzero)
qed

text \<open>C8: the start-up sequence of \<open>kmain\<close> keeps the machine where it is: with the directory
  that \<open>paging_new_4gb\<close> built loaded and paging enabled, every address below 64 MB translates
  to itself, every other one faults, and no region allocated earlier has changed.\<close>

theorem paging_boot_identity:
  fixes s :: "('d, 'z) paging_scheme"
  assumes "heap_owns s L" and "header_fits_page s" and "flags AND 1 = 1"
    and "unat (placement_address s) + 139556 < 4294967296"
  shows "\<exists>c s1 s2. paging_new_4gb flags s = Some (c, s1)
    \<and> s2 = enable_paging (paging_switch (paging_4gb_chunk_get_directory c s1) s1)
    \<and> (\<forall>v. cpu_translate s2 v = (if unat v < 64 * 1024 * 1024 then Some v else None))
    \<and> current_directory s2 = paging_4gb_chunk_get_directory c s2
    \<and> (\<forall>q k x. (q, k) \<in> L \<longrightarrow> x \<in> region q k \<longrightarrow> mem s2 x = mem s x)"
proof -
  have "unat (placement_address s) + 8208 * 17 + 20 < 4294967296" using assms(4) by simp
  from paging_new_4gb_spec [OF assms(1-3) this]
  obtain c d s1 L1 where n: "paging_new_4gb flags s = Some (c, s1)"
    "paging_4gb_chunk_get_directory c s1 = d" "pd_ok s1 L1 d"
    "\<forall>v. mmu_walk (mem s1) d v = (if unat v < 64 * 1024 * 1024
        then Some ((v AND 0xFFFFF000) OR ucast flags) else None)"
    "\<forall>q k x. (q, k) \<in> L \<longrightarrow> x \<in> region q k \<longrightarrow> mem s1 x = mem s x"
    by blast
  let ?s2 = "enable_paging (paging_switch d s1)"
  have "d AND 0xFFFFF000 = d" using n(3) aligned_high12 by (auto simp: pd_ok_def)
  moreover have "(((v AND 0xFFFFF000) OR ucast flags) AND 0xFFFFF000) + (v AND 0xFFF) = v" for v :: u32
    using or_flags_high12 [OF high12_low flags_bits(1)] low_high12 [of v] by simp
  moreover have "mem ?s2 = mem s1" "cr3 ?s2 = d" "current_directory ?s2 = d"
    by (simp_all add: enable_paging_def paging_switch_def paging_load_directory_def)
  ultimately show ?thesis
    using n enable_paging_bit [of "paging_switch d s1"]
    by (intro exI [of _ c] exI [of _ s1] exI [of _ ?s2])
      (simp add: cpu_translate_def paging_4gb_chunk_get_directory_def del: in_region)
qed

theorem paging_boot_identity_witness:
  "\<exists>c s1. paging_new_4gb 7 (boot_paging 0x20000) = Some (c, s1)
    \<and> cpu_translate (enable_paging (paging_switch (paging_4gb_chunk_get_directory c s1) s1)) 0xB8000
       = Some 0xB8000"
  using paging_boot_identity [of "boot_paging 0x20000" "{}" 7]
  by (auto simp: boot_paging_owns header_fits_page_def)

text \<open>C39: \<open>paging_new_4gb\<close> gives a well-formed directory: it and its tables are distinct blocks
  of the heap, and each of the first 16384 pages is mapped to itself with the given flags.\<close>

theorem paging_new_4gb_identity:
  assumes "heap_owns h L" and "header_fits_page h" and "flags AND 1 = 1"
    and "unat (placement_address h) + 139556 < 4294967296"
  shows "\<exists>c h' L'. paging_new_4gb flags h = Some (c, h')
    \<and> pd_ok h' L' (paging_4gb_chunk_get_directory c h') \<and> insert (c, 4) L \<subseteq> L'
    \<and> (\<forall>v. mmu_walk (mem h') (paging_4gb_chunk_get_directory c h') v =
        (if unat v < 64 * 1024 * 1024 then Some ((v AND 0xFFFFF000) OR ucast flags) else None))"
proof -
  have "unat (placement_address h) + 8208 * 17 + 20 < 4294967296" using assms(4) by simp
  from paging_new_4gb_spec [OF assms(1-3) this] show ?thesis by blast
qed

theorem paging_new_4gb_identity_witness:
  "\<exists>c h' L'. paging_new_4gb 3 (boot_heap 0x20000) = Some (c, h')
    \<and> pd_ok h' L' (paging_4gb_chunk_get_directory c h')
    \<and> mmu_walk (mem h') (paging_4gb_chunk_get_directory c h') 0x4000000 = None"
proof -
  have "heap_owns (boot_heap 0x20000) {}" "header_fits_page (boot_heap 0x20000)"
    by (simp_all add: heap_owns_boot header_fits_page_def)
  then obtain c h' L' where "paging_new_4gb 3 (boot_heap 0x20000) = Some (c, h')"
    "pd_ok h' L' (paging_4gb_chunk_get_directory c h')"
    "\<forall>v. mmu_walk (mem h') (paging_4gb_chunk_get_directory c h') v =
        (if unat v < 64 * 1024 * 1024 then Some ((v AND 0xFFFFF000) OR ucast (3 :: u8)) else None)"
    using paging_new_4gb_identity [of "boot_heap 0x20000" "{}" 3] by simp blast
  then show ?thesis by (intro exI [of _ c] exI [of _ h'] exI [of _ L']) simp
qed

text \<open>C9: \<open>paging_set\<close> on a page-aligned address changes the translation of that page and of no
  other, whether or not its table existed; the directory stays well formed, the memory of other
  owners is untouched, and the page is flushed from the TLB.\<close>

theorem paging_set_maps:
  fixes s :: "('d, 'z) paging_scheme"
  assumes "pd_ok s L d" and "paging_is_aligned virt" and "header_fits_page s"
    and "unat (placement_address s) + 8208 < 4294967296"
  shows "\<exists>s' L'. paging_set d virt e s = Some (0, s') \<and> pd_ok s' L' d \<and> L \<subseteq> L'
    \<and> invlpg_log s' = virt # invlpg_log s
    \<and> (\<forall>v. mmu_walk (mem s') d v = (if unat v div 4096 = unat virt div 4096
        then if e AND 1 = 0 then None else Some e else mmu_walk (mem s) d v))
    \<and> (\<forall>q k x. (q, k) \<in> L \<longrightarrow> q \<noteq> d \<longrightarrow> q \<notin> tables (mem s) d \<longrightarrow> x \<in> region q k
        \<longrightarrow> mem s' x = mem s x)"
  using paging_set_spec [OF assms, of e] by (elim exE conjE) (intro exI conjI; assumption)

text \<open>A state with one empty directory, at \<open>0x20000\<close>.\<close>

definition empty_dir :: "unit paging" where
  "empty_dir = (boot_paging 0x21000)\<lparr>mem := carve 0 4096 0x1FFF0 (\<lambda>_. 0), global_base := 0x1FFF0\<rparr>"

lemma empty_dir_ok: "pd_ok empty_dir {(0x20000, 4096)} 0x20000"
proof -
  have f: "fits_ram 0x1FFF0 16" by (simp add: fits_ram_def)
  have m: "mem empty_dir = carve 0 4096 0x1FFF0 (\<lambda>_. 0)" "placement_address empty_dir = 0x21000"
    "global_base empty_dir = 0x1FFF0"
    by (simp_all add: empty_dir_def)
  have "heap_blocks empty_dir [0x1FFF0] [0x1FFF0]"
    by (simp add: heap_blocks_def blk_top_def good_magic_def m carve_new [OF f])
  then have "heap_owns empty_dir {(0x20000, 4096)}"
    by (rule heap_ownsI) (auto simp: backed_def m carve_new [OF f])
  moreover have "pde (mem empty_dir) 0x20000 i = 0" if "i < 1024" for i
  proof -
    have "pde (mem empty_dir) 0x20000 i = read32 (\<lambda>_. 0) (entry_addr 0x20000 i)"
      unfolding pde_def m using that f by (intro entry_cong) (auto intro!: carve_outside)
    then show ?thesis by (simp add: read32_def)
  qed
  ultimately show ?thesis by (simp add: pd_ok_def)
qed

theorem paging_set_maps_witness:
  "\<exists>s'. paging_set 0x20000 0x400000 0x5007 empty_dir = Some (0, s')
    \<and> mmu_walk (mem s') 0x20000 0x400123 = Some 0x5007"
  using paging_set_maps [OF empty_dir_ok, where virt = "0x400000" and e = "0x5007"]
  by (auto simp: empty_dir_def boot_paging_def header_fits_page_def paging_is_aligned_def
      PAGING_PAGE_SIZE_def)

text \<open>\<open>paging_set\<close> refuses exactly the addresses inside a page, and then changes nothing.\<close>

theorem paging_set_refuses:
  fixes s :: "('d, 'z) paging_scheme"
  shows "paging_set d virt e s = Some (-1, s) \<longleftrightarrow> unat virt mod 4096 \<noteq> 0"
proof -
  have "paging_is_aligned virt \<longleftrightarrow> unat (virt mod 4096) = 0"
    by (simp add: paging_is_aligned_def PAGING_PAGE_SIZE_def unsigned_eq_0_iff)
  then have "paging_is_aligned virt \<longleftrightarrow> unat virt mod 4096 = 0" by (simp add: unat_mod)
  then show ?thesis by (auto simp: paging_set_def Let_def bind_eq_Some_conv)
qed

end
