(* ===== verification/Tables.thy ===== *)
theory Tables
  imports Prelude
begin

text \<open>
  The interface of a fixed-size table that code fills entry by entry: the GDT, the IDT and
  the interrupt handlers. What is stored under an index is an encoding \<open>enc v\<close> of the value
  \<open>v\<close> given. The lemmas say what a whole sequence of insertions leaves behind.
\<close>

locale table_store =
  fixes ok :: "'s \<Rightarrow> bool" and slots :: nat and get :: "'s \<Rightarrow> nat \<Rightarrow> 'e"
    and put :: "nat \<Rightarrow> 'v \<Rightarrow> 's \<Rightarrow> 's" and enc :: "'v \<Rightarrow> 'e"
  assumes put_ok: "ok s \<Longrightarrow> ok (put i v s)"
    and get_put: "ok s \<Longrightarrow> i < slots \<Longrightarrow> j < slots \<Longrightarrow>
      get (put i v s) j = (if j = i then enc v else get s j)"
begin

definition put_all :: "(nat \<times> 'v) list \<Rightarrow> 's \<Rightarrow> 's" where
  "put_all ivs s = fold (\<lambda>(i, v). put i v) ivs s"

lemma put_all_simps [simp]:
  "put_all [] s = s" "put_all ((i, v) # ivs) s = put_all ivs (put i v s)"
  by (simp_all add: put_all_def)

lemma put_all_append: "put_all (xs @ ys) s = put_all ys (put_all xs s)"
  by (simp add: put_all_def)

lemma put_all_ok: "ok s \<Longrightarrow> ok (put_all ivs s)"
  by (induction ivs arbitrary: s) (auto simp: put_ok)

text \<open>An index that is written once holds what was written; one that is not keeps its entry.\<close>

lemma get_put_all:
  assumes "ok s" "\<forall>(i, v) \<in> set ivs. i < slots" "distinct (map fst ivs)" "j < slots"
  shows "get (put_all ivs s) j = (case map_of ivs j of None \<Rightarrow> get s j | Some v \<Rightarrow> enc v)"
  using assms
proof (induction ivs arbitrary: s)
  case (Cons iv ivs)
  obtain i v where iv: "iv = (i, v)" by (cases iv)
  have "map_of ivs i = None" using Cons.prems(3) by (simp add: iv map_of_eq_None_iff)
  then show ?case
    using Cons by (auto simp: iv put_ok get_put split: option.splits)
qed simp

lemma get_put_map:
  assumes "ok s" "n \<le> m" "m \<le> slots" "j < slots"
  shows "get (put_all (map (\<lambda>i. (i, f i)) [n..<m]) s) j
    = (if n \<le> j \<and> j < m then enc (f j) else get s j)"
proof -
  have "map_of (map (\<lambda>i. (i, f i)) [n..<m]) j = (if n \<le> j \<and> j < m then Some (f j) else None)"
    by (simp add: map_of_map_restrict restrict_map_def)
  then show ?thesis
    using assms by (subst get_put_all) (auto simp: comp_def)
qed

end

end
