(* ===== verification/Gdt.thy ===== *)
theory Gdt
  imports Paging Tables
begin

text \<open>
  The segment descriptors and the task state segment, \<open>src/cpu/gdt.c\<close>. The record
  \<open>cpu\<close> holds the tables of \<open>src/cpu/\<close> and the registers that the assembly stubs
  \<open>gdt_flush\<close>, \<open>tss_load\<close> and \<open>lidt\<close> load; the functions \<open>gdt_base\<close>, \<open>gdt_limit\<close>,
  \<open>gdt_dpl\<close> and \<open>io_permitted\<close> are how the processor reads a descriptor and the TSS.
\<close>

section \<open>State\<close>

record gdt_entry =
  limit_low :: u16
  base_low :: u16
  base_middle :: u8
  access :: u8
  granularity :: u8
  base_high :: u8

record tss_entry =
  tss_prev :: u32
  tss_esp0 :: u32
  tss_ss0 :: u32
  tss_esp1 :: u32
  tss_ss1 :: u32
  tss_esp2 :: u32
  tss_ss2 :: u32
  tss_cr3 :: u32
  tss_eip :: u32
  tss_eflags :: u32
  tss_eax :: u32
  tss_ecx :: u32
  tss_edx :: u32
  tss_ebx :: u32
  tss_esp :: u32
  tss_ebp :: u32
  tss_esi :: u32
  tss_edi :: u32
  tss_es :: u32
  tss_cs :: u32
  tss_ss :: u32
  tss_ds :: u32
  tss_fs :: u32
  tss_gs :: u32
  tss_ldt :: u32
  tss_trap :: u16
  tss_iomap_base :: u16

record idt_gate =
  low_offset :: u16
  sel :: u16
  always0 :: u8
  flags :: u8
  high_offset :: u16

text \<open>A table register: the pair of limit and base that \<open>lgdt\<close> and \<open>lidt\<close> read.\<close>

record table_ptr =
  ptr_limit :: u16
  ptr_base :: u32

record 'd cpu = "'d paging" +
  gdt :: "gdt_entry list"
  gdt_ptr :: table_ptr
  tss :: tss_entry
  gdtr :: "table_ptr option"
  tr :: u16
  idt :: "idt_gate list"
  idt_reg :: table_ptr
  idtr :: "table_ptr option"
  interrupt_handlers :: "u32 list"

section \<open>Operations\<close>

definition GDT_ACCESS_PRESENT :: u8 where "GDT_ACCESS_PRESENT = 0x80"
definition GDT_ACCESS_DPL3 :: u8 where "GDT_ACCESS_DPL3 = 0x60"
definition GDT_ACCESS_S :: u8 where "GDT_ACCESS_S = 0x10"
definition GDT_ACCESS_TYPE_CODE_EXREAD :: u8 where "GDT_ACCESS_TYPE_CODE_EXREAD = 0x0A"
definition GDT_ACCESS_TYPE_DATA_RDWR :: u8 where "GDT_ACCESS_TYPE_DATA_RDWR = 0x02"
definition GDT_ACCESS_TSS :: u8 where "GDT_ACCESS_TSS = 0x89"
definition GDT_GRAN_4KB :: u8 where "GDT_GRAN_4KB = 0x80"
definition GDT_GRAN_32BIT :: u8 where "GDT_GRAN_32BIT = 0x40"

lemmas gdt_consts = GDT_ACCESS_PRESENT_def GDT_ACCESS_DPL3_def GDT_ACCESS_S_def
  GDT_ACCESS_TYPE_CODE_EXREAD_def GDT_ACCESS_TYPE_DATA_RDWR_def GDT_ACCESS_TSS_def
  GDT_GRAN_4KB_def GDT_GRAN_32BIT_def

definition gdt_set_gate ::
  "nat \<Rightarrow> u32 \<Rightarrow> u32 \<Rightarrow> u8 \<Rightarrow> u8 \<Rightarrow> ('d, 'z) cpu_scheme \<Rightarrow> ('d, 'z) cpu_scheme" where
  "gdt_set_gate num base limit acc gran s =
     (let e = gdt s ! num;
          e = e\<lparr>base_low := ucast (base AND 0xFFFF)\<rparr>;
          e = e\<lparr>base_middle := ucast (drop_bit 16 base AND 0xFF)\<rparr>;
          e = e\<lparr>base_high := ucast (drop_bit 24 base AND 0xFF)\<rparr>;
          e = e\<lparr>limit_low := ucast (limit AND 0xFFFF)\<rparr>;
          e = e\<lparr>granularity := ucast (drop_bit 16 limit AND 0x0F)\<rparr>;
          e = e\<lparr>granularity := granularity e OR (gran AND 0xF0)\<rparr>;
          e = e\<lparr>access := acc\<rparr>
      in s\<lparr>gdt := (gdt s)[num := e]\<rparr>)"

definition tss_zero :: tss_entry where
  "tss_zero = \<lparr>tss_prev = 0, tss_esp0 = 0, tss_ss0 = 0, tss_esp1 = 0, tss_ss1 = 0, tss_esp2 = 0,
     tss_ss2 = 0, tss_cr3 = 0, tss_eip = 0, tss_eflags = 0, tss_eax = 0, tss_ecx = 0, tss_edx = 0,
     tss_ebx = 0, tss_esp = 0, tss_ebp = 0, tss_esi = 0, tss_edi = 0, tss_es = 0, tss_cs = 0,
     tss_ss = 0, tss_ds = 0, tss_fs = 0, tss_gs = 0, tss_ldt = 0, tss_trap = 0, tss_iomap_base = 0\<rparr>"

text \<open>The size of the TSS is 104 bytes; \<open>tss_addr\<close> and \<open>gdt_addr\<close> are the link-time
  addresses of the two globals.\<close>

definition write_tss ::
  "u32 \<Rightarrow> nat \<Rightarrow> u16 \<Rightarrow> u32 \<Rightarrow> ('d, 'z) cpu_scheme \<Rightarrow> ('d, 'z) cpu_scheme" where
  "write_tss tss_addr num ss0 esp0 s =
     (let base = tss_addr;
          limit = 104 - 1;
          s = gdt_set_gate num base limit GDT_ACCESS_TSS 0x00 s;
          t = tss_zero;
          t = t\<lparr>tss_ss0 := ucast ss0\<rparr>;
          t = t\<lparr>tss_esp0 := esp0\<rparr>;
          t = t\<lparr>tss_cs := 0x08\<rparr>;
          t = t\<lparr>tss_gs := 0x10, tss_fs := 0x10, tss_es := 0x10, tss_ds := 0x10, tss_ss := 0x10\<rparr>
      in s\<lparr>tss := t\<rparr>)"

definition gdt_init :: "u32 \<Rightarrow> u32 \<Rightarrow> ('d, 'z) cpu_scheme \<Rightarrow> ('d, 'z) cpu_scheme" where
  "gdt_init gdt_addr tss_addr s =
     (let s = s\<lparr>gdt_ptr := \<lparr>ptr_limit = 8 * 6 - 1, ptr_base = gdt_addr\<rparr>\<rparr>;
          s = gdt_set_gate 0 0 0 0 0 s;
          s = gdt_set_gate 1 0 0xFFFFFFFF
            (GDT_ACCESS_PRESENT OR GDT_ACCESS_S OR GDT_ACCESS_TYPE_CODE_EXREAD)
            (GDT_GRAN_4KB OR GDT_GRAN_32BIT) s;
          s = gdt_set_gate 2 0 0xFFFFFFFF
            (GDT_ACCESS_PRESENT OR GDT_ACCESS_S OR GDT_ACCESS_TYPE_DATA_RDWR)
            (GDT_GRAN_4KB OR GDT_GRAN_32BIT) s;
          s = gdt_set_gate 3 0 0xFFFFFFFF
            (GDT_ACCESS_PRESENT OR GDT_ACCESS_DPL3 OR GDT_ACCESS_S OR GDT_ACCESS_TYPE_CODE_EXREAD)
            (GDT_GRAN_4KB OR GDT_GRAN_32BIT) s;
          s = gdt_set_gate 4 0 0xFFFFFFFF
            (GDT_ACCESS_PRESENT OR GDT_ACCESS_DPL3 OR GDT_ACCESS_S OR GDT_ACCESS_TYPE_DATA_RDWR)
            (GDT_GRAN_4KB OR GDT_GRAN_32BIT) s;
          s = write_tss tss_addr 5 0x10 0x00 s;
          s = s\<lparr>gdtr := Some (gdt_ptr s)\<rparr>
      in s\<lparr>tr := 0x28\<rparr>)"

section \<open>The processor's reading of a descriptor\<close>

definition gdt_base :: "gdt_entry \<Rightarrow> u32" where
  "gdt_base e = ucast (base_low e) OR push_bit 16 (ucast (base_middle e))
     OR push_bit 24 (ucast (base_high e))"

definition gdt_limit :: "gdt_entry \<Rightarrow> u32" where
  "gdt_limit e =
     (let l = ucast (limit_low e) OR push_bit 16 (ucast (granularity e AND 0x0F))
      in if granularity e AND 0x80 = 0 then l else push_bit 12 l OR 0xFFF)"

definition gdt_dpl :: "gdt_entry \<Rightarrow> u8" where
  "gdt_dpl e = drop_bit 5 (access e) AND 3"

definition selected :: "('d, 'z) cpu_scheme \<Rightarrow> u16 \<Rightarrow> gdt_entry" where
  "selected s selector = gdt s ! (unat (drop_bit 3 selector))"

text \<open>The TSS as 26 double words in memory order.\<close>

definition tss_dwords :: "tss_entry \<Rightarrow> u32 list" where
  "tss_dwords t = [tss_prev t, tss_esp0 t, tss_ss0 t, tss_esp1 t, tss_ss1 t, tss_esp2 t, tss_ss2 t,
     tss_cr3 t, tss_eip t, tss_eflags t, tss_eax t, tss_ecx t, tss_edx t, tss_ebx t, tss_esp t,
     tss_ebp t, tss_esi t, tss_edi t, tss_es t, tss_cs t, tss_ss t, tss_ds t, tss_fs t, tss_gs t,
     tss_ldt t, ucast (tss_trap t) OR push_bit 16 (ucast (tss_iomap_base t))]"

definition tss_byte :: "tss_entry \<Rightarrow> nat \<Rightarrow> u8" where
  "tss_byte t a = ucast (drop_bit (8 * (a mod 4)) (tss_dwords t ! (a div 4)))"

text \<open>A port instruction of a program with less privilege than IOPL: the processor reads two
  bytes of the bitmap at \<open>iomap_base\<close>, which must lie inside the limit of the segment, and lets
  the access to a byte port pass when the bit of the port is 0.\<close>

definition io_permitted :: "tss_entry \<Rightarrow> nat \<Rightarrow> nat \<Rightarrow> bool" where
  "io_permitted t limit port =
     (let a = unat (tss_iomap_base t) + port div 8
      in a + 1 \<le> limit \<and> \<not> bit (tss_byte t a) (port mod 8))"

section \<open>Encoding and decoding\<close>

lemma low_masks: "(0xFFFF :: u32) = mask 16" "(0xFF :: u32) = mask 8" "(0x0F :: u32) = mask 4"
  "(0x0F :: u8) = mask 4" "(0xFFFFF :: u32) = mask 20" "(0xF0 :: u8) = NOT (mask 4)"
  by (simp_all add: mask_eq_exp_minus_1)

lemma bit_0x80: "bit (0x80 :: int) n \<longleftrightarrow> n = 7"
proof -
  have "(0x80 :: int) = push_bit 7 1" by (simp add: push_bit_eq_mult)
  then have "bit (0x80 :: int) n \<longleftrightarrow> 7 \<le> n \<and> bit (1 :: int) (n - 7)"
    by (simp only: bit_push_bit_iff) simp
  then show ?thesis by (auto simp: bit_1_iff)
qed

definition gate_entry :: "u32 \<Rightarrow> u32 \<Rightarrow> u8 \<Rightarrow> u8 \<Rightarrow> gdt_entry" where
  "gate_entry base limit acc gran = \<lparr>limit_low = ucast limit, base_low = ucast base,
     base_middle = ucast (drop_bit 16 base), access = acc,
     granularity = ucast (drop_bit 16 limit AND 0x0F) OR (gran AND 0xF0),
     base_high = ucast (drop_bit 24 base)\<rparr>"

lemma gdt_set_gate_eq:
  "gdt_set_gate num base limit acc gran s
    = s\<lparr>gdt := (gdt s)[num := gate_entry base limit acc gran]\<rparr>"
proof -
  have "(ucast (base AND 0xFFFF) :: u16) = ucast base" "(ucast (limit AND 0xFFFF) :: u16) = ucast limit"
    "(ucast (drop_bit 16 base AND 0xFF) :: u8) = ucast (drop_bit 16 base)"
    "(ucast (drop_bit 24 base AND 0xFF) :: u8) = ucast (drop_bit 24 base)"
    unfolding low_masks by (rule bit_word_eqI; simp add: bit_simps)+
  then show ?thesis by (cases "gdt s ! num") (simp add: gdt_set_gate_def gate_entry_def Let_def)
qed

lemma gate_entry_decode:
  "gdt_base (gate_entry base limit acc gran) = base"
  "access (gate_entry base limit acc gran) = acc"
  "granularity (gate_entry base limit acc gran) AND 0xF0 = gran AND 0xF0"
  "gdt_limit (gate_entry base limit acc gran) = (if gran AND 0x80 = 0 then limit AND 0xFFFFF
     else push_bit 12 (limit AND 0xFFFFF) OR 0xFFF)"
proof -
  show "access (gate_entry base limit acc gran) = acc" by (simp add: gate_entry_def)
  show "gdt_base (gate_entry base limit acc gran) = base"
  proof (rule bit_word_eqI)
    fix n :: nat assume "n < LENGTH(32)"
    then consider "n < 16" | "16 \<le> n" "n < 24" | "24 \<le> n" "n < 32" by fastforce
    then show "bit (gdt_base (gate_entry base limit acc gran)) n = bit base n"
      by cases (auto simp: gdt_base_def gate_entry_def bit_simps)
  qed
  show "granularity (gate_entry base limit acc gran) AND 0xF0 = gran AND 0xF0"
    by (rule bit_word_eqI) (auto simp: gate_entry_def low_masks bit_simps)
  have g: "granularity (gate_entry base limit acc gran) AND 0x80 = gran AND 0x80"
    by (rule bit_word_eqI) (auto simp: gate_entry_def low_masks bit_0x80 bit_simps)
  have l: "ucast (limit_low (gate_entry base limit acc gran))
      OR push_bit 16 (ucast (granularity (gate_entry base limit acc gran) AND 0x0F))
      = limit AND 0xFFFFF"
  proof (rule bit_word_eqI)
    fix n :: nat assume "n < LENGTH(32)"
    then consider "n < 16" | "16 \<le> n" "n < 20" | "20 \<le> n" "n < 32" by fastforce
    then show "bit (ucast (limit_low (gate_entry base limit acc gran))
      OR push_bit 16 (ucast (granularity (gate_entry base limit acc gran) AND 0x0F)) :: u32) n
      = bit (limit AND 0xFFFFF) n"
      by cases (auto simp: gate_entry_def low_masks bit_simps)
  qed
  show "gdt_limit (gate_entry base limit acc gran) = (if gran AND 0x80 = 0 then limit AND 0xFFFFF
     else push_bit 12 (limit AND 0xFFFFF) OR 0xFFF)"
    by (simp add: gdt_limit_def g l Let_def)
qed

definition gdt_ok :: "('d, 'z) cpu_scheme \<Rightarrow> bool" where
  "gdt_ok s \<longleftrightarrow> length (gdt s) = 6"

interpretation gdt_tab: table_store gdt_ok 6 "\<lambda>s i. gdt s ! i"
  "\<lambda>i (base, limit, acc, gran). gdt_set_gate i base limit acc gran"
  "\<lambda>(base, limit, acc, gran). gate_entry base limit acc gran"
  by unfold_locales (auto simp: gdt_ok_def gdt_set_gate_eq)

section \<open>Properties\<close>

lemma gdt_init_gates:
  assumes "gdt_ok s"
  shows "gdt (gdt_init gdt_addr tss_addr s) =
    [gate_entry 0 0 0 0, gate_entry 0 0xFFFFFFFF 0x9A 0xC0, gate_entry 0 0xFFFFFFFF 0x92 0xC0,
     gate_entry 0 0xFFFFFFFF 0xFA 0xC0, gate_entry 0 0xFFFFFFFF 0xF2 0xC0,
     gate_entry tss_addr 103 0x89 0]"
proof -
  obtain a b c d e f where "gdt s = [a, b, c, d, e, f]"
    using assms by (auto simp: gdt_ok_def numeral_eq_Suc length_Suc_conv)
  then show ?thesis
    by (simp add: gdt_init_def write_tss_def gdt_set_gate_eq gdt_consts Let_def
        numeral_eq_Suc [of "Num.inc (Num.inc num.One)"])
qed

definition boot_cpu :: "'d \<Rightarrow> 'd cpu" where
  "boot_cpu d = \<lparr>mem = (\<lambda>_. 0), dev = d, cursor_offset = 0, screen_color = 0x0F,
     placement_address = 0x20000, global_base = 0,
     cr3 = 0, cr0 = 0, current_directory = 0, invlpg_log = [],
     gdt = replicate 6 (gate_entry 0 0 0 0),
     gdt_ptr = \<lparr>ptr_limit = 0, ptr_base = 0\<rparr>, tss = tss_zero, gdtr = None, tr = 0,
     idt = replicate 256 \<lparr>low_offset = 0, sel = 0, always0 = 0, flags = 0, high_offset = 0\<rparr>,
     idt_reg = \<lparr>ptr_limit = 0, ptr_base = 0\<rparr>, idtr = None, interrupt_handlers = replicate 256 0\<rparr>"

lemma boot_cpu_ok: "gdt_ok (boot_cpu d)"
  by (simp add: gdt_ok_def boot_cpu_def)

text \<open>A descriptor written by \<open>gdt_set_gate\<close> reads back with its base, its access byte and
  its flags; its limit is the low 20 bits of the one given, in pages when bit 7 of the flags is
  set. The other five descriptors are unchanged.\<close>

theorem gdt_set_gate_decodes:
  assumes "gdt_ok s" and "num < 6" and "s' = gdt_set_gate num base limit acc gran s"
  shows "gdt_base (gdt s' ! num) = base \<and> access (gdt s' ! num) = acc
    \<and> granularity (gdt s' ! num) AND 0xF0 = gran AND 0xF0
    \<and> gdt_limit (gdt s' ! num) = (if gran AND 0x80 = 0 then limit AND 0xFFFFF
        else push_bit 12 (limit AND 0xFFFFF) OR 0xFFF)
    \<and> gdt_ok s' \<and> (\<forall>j<6. j \<noteq> num \<longrightarrow> gdt s' ! j = gdt s ! j)"
  using gdt_tab.get_put [OF assms(1,2), of _ "(base, limit, acc, gran)"] assms(2)
    gdt_tab.put_ok [OF assms(1), of num "(base, limit, acc, gran)"]
  by (simp add: assms(3) gate_entry_decode)

theorem gdt_set_gate_decodes_witness:
  "gdt_limit (gdt (gdt_set_gate 5 0x12345678 103 0x89 0 (boot_cpu ())) ! 5) = 103"
  using gdt_set_gate_decodes [OF boot_cpu_ok [of "()"] _ refl, of 5 "0x12345678" 103 "0x89" 0] by simp

text \<open>C29: after \<open>gdt_init\<close> the selectors the kernel uses denote what it takes them for: 0 the null
  descriptor, 0x08, 0x10, 0x1B and 0x23 flat 4 GB code and data segments of rings 0 and 3, and
  the task register the TSS of 104 bytes, with the kernel's stack segment in it.\<close>

theorem gdt_init_segments:
  assumes "gdt_ok s" and "s' = gdt_init gdt_addr tss_addr s"
  shows "gdtr s' = Some \<lparr>ptr_limit = 47, ptr_base = gdt_addr\<rparr>
    \<and> map (\<lambda>e. (gdt_base e, gdt_limit e, access e, gdt_dpl e))
        (map (selected s') [0, 0x08, 0x10, 0x1B, 0x23, tr s'])
      = [(0, 0, 0, 0), (0, 0xFFFFFFFF, 0x9A, 0), (0, 0xFFFFFFFF, 0x92, 0),
         (0, 0xFFFFFFFF, 0xFA, 3), (0, 0xFFFFFFFF, 0xF2, 3), (tss_addr, 103, GDT_ACCESS_TSS, 0)]
    \<and> tss_ss0 (tss s') = 0x10"
proof -
  have "tr s' = 0x28" "tss_ss0 (tss s') = 0x10"
    "gdtr s' = Some \<lparr>ptr_limit = 47, ptr_base = gdt_addr\<rparr>"
    by (simp_all add: assms(2) gdt_init_def write_tss_def gdt_set_gate_eq Let_def)
  then show ?thesis
    using gdt_init_gates [OF assms(1), of gdt_addr tss_addr]
    by (simp add: assms(2) selected_def gate_entry_decode gdt_dpl_def GDT_ACCESS_TSS_def)
qed

theorem gdt_init_segments_witness:
  "tss_ss0 (tss (gdt_init 0x5000 0x6000 (boot_cpu ()))) = 0x10
    \<and> gdt_base (selected (gdt_init 0x5000 0x6000 (boot_cpu ())) (tr (gdt_init 0x5000 0x6000 (boot_cpu ())))) = 0x6000"
  using gdt_init_segments [OF boot_cpu_ok [of "()"] refl, of "0x5000" "0x6000"] by simp

text \<open>\<open>gdt_init\<close> leaves the I/O map base of the TSS at 0, inside the segment, so the processor
  takes the zero fields of the TSS for a permission bitmap: a user program may access the PIC,
  the PS/2 controller and the primary ATA controller directly, whatever ring 0 stack is set.\<close>

theorem gdt_init_opens_ports:
  "\<forall>p \<in> {0x60, 0x64, 0xA0, 0xA1, 0x1F0, 0x1F2, 0x1F7}.
    io_permitted ((tss (gdt_init gdt_addr tss_addr s))\<lparr>tss_esp0 := esp0\<rparr>) 103 p"
  by (simp add: gdt_init_def write_tss_def tss_zero_def gdt_set_gate_eq io_permitted_def
      tss_byte_def tss_dwords_def Let_def)

theorem gdt_init_opens_ports_witness:
  "io_permitted (tss (gdt_init 0x5000 0x6000 (boot_cpu ()))) 103 0x1F0"
  using gdt_init_opens_ports [where gdt_addr = "0x5000" and tss_addr = "0x6000" and s = "boot_cpu ()" and ?esp0.0 = 0]
  by (simp add: gdt_init_def write_tss_def tss_zero_def gdt_set_gate_eq Let_def)

end
