(* ===== verification/Isr.thy ===== *)
theory Isr
  imports Gdt CString
begin

text \<open>
  Interrupts: the gates of \<open>src/cpu/idt.c\<close>, and installation and dispatch in
  \<open>src/cpu/isr.c\<close>. The entry stubs of \<open>src/cpu/interrupt.asm\<close> are known by their addresses
  only (\<open>stub n\<close> for vector \<open>n\<close>), and calling a handler through its pointer is the parameter
  \<open>call\<close>. The two interrupt controllers are a device behind the ports; \<open>pics_io\<close> is what their
  data sheet says of the writes the kernel makes.
\<close>

section \<open>The interrupt descriptor table\<close>

definition KERNEL_CS :: u16 where "KERNEL_CS = 0x08"
definition IDT_ENTRIES :: nat where "IDT_ENTRIES = 256"
definition IDT_PRESENT :: u8 where "IDT_PRESENT = 0x80"
definition IDT_DPL_0 :: u8 where "IDT_DPL_0 = 0x00"
definition IDT_TYPE_INTERRUPT_GATE_32 :: u8 where "IDT_TYPE_INTERRUPT_GATE_32 = 0x0E"

lemmas idt_consts = KERNEL_CS_def IDT_ENTRIES_def IDT_PRESENT_def IDT_DPL_0_def
  IDT_TYPE_INTERRUPT_GATE_32_def

definition low_16 :: "u32 \<Rightarrow> u16" where
  "low_16 addr = ucast (addr AND 0xFFFF)"

definition high_16 :: "u32 \<Rightarrow> u16" where
  "high_16 addr = ucast (drop_bit 16 addr AND 0xFFFF)"

definition set_idt_gate :: "nat \<Rightarrow> u32 \<Rightarrow> u8 \<Rightarrow> ('d, 'z) cpu_scheme \<Rightarrow> ('d, 'z) cpu_scheme" where
  "set_idt_gate n handler fl s =
     (let g = idt s ! n;
          g = g\<lparr>low_offset := low_16 handler\<rparr>;
          g = g\<lparr>sel := KERNEL_CS\<rparr>;
          g = g\<lparr>always0 := 0\<rparr>;
          g = g\<lparr>flags := fl\<rparr>;
          g = g\<lparr>high_offset := high_16 handler\<rparr>
      in s\<lparr>idt := (idt s)[n := g]\<rparr>)"

definition set_idt :: "u32 \<Rightarrow> ('d, 'z) cpu_scheme \<Rightarrow> ('d, 'z) cpu_scheme" where
  "set_idt idt_addr s =
     (let s = s\<lparr>idt_reg := (idt_reg s)\<lparr>ptr_base := idt_addr\<rparr>\<rparr>;
          s = s\<lparr>idt_reg := (idt_reg s)\<lparr>ptr_limit := of_nat (IDT_ENTRIES * 8 - 1)\<rparr>\<rparr>
      in s\<lparr>idtr := Some (idt_reg s)\<rparr>)"

text \<open>The processor's reading of a gate.\<close>

definition gate_offset :: "idt_gate \<Rightarrow> u32" where
  "gate_offset g = ucast (low_offset g) OR push_bit 16 (ucast (high_offset g))"

definition gate :: "u32 \<times> u8 \<Rightarrow> idt_gate" where
  "gate = (\<lambda>(handler, fl). \<lparr>low_offset = ucast handler, sel = KERNEL_CS, always0 = 0, flags = fl,
     high_offset = ucast (drop_bit 16 handler)\<rparr>)"

lemma set_idt_gate_eq:
  "set_idt_gate n handler fl s = s\<lparr>idt := (idt s)[n := gate (handler, fl)]\<rparr>"
proof -
  have "low_16 handler = ucast handler" "high_16 handler = ucast (drop_bit 16 handler)"
    unfolding low_16_def high_16_def low_masks by (rule bit_word_eqI; simp add: bit_simps)+
  then show ?thesis by (cases "idt s ! n") (simp add: set_idt_gate_def gate_def Let_def)
qed

lemma gate_decode [simp]:
  "gate_offset (gate (handler, fl)) = handler" "sel (gate (handler, fl)) = KERNEL_CS"
  "flags (gate (handler, fl)) = fl"
proof -
  show "gate_offset (gate (handler, fl)) = handler"
  proof (rule bit_word_eqI)
    fix n :: nat assume "n < LENGTH(32)"
    then consider "n < 16" | "16 \<le> n" "n < 32" by fastforce
    then show "bit (gate_offset (gate (handler, fl))) n = bit handler n"
      by cases (auto simp: gate_offset_def gate_def bit_simps)
  qed
qed (simp_all add: gate_def)

definition idt_ok :: "('d, 'z) cpu_scheme \<Rightarrow> bool" where
  "idt_ok s \<longleftrightarrow> length (idt s) = 256"

interpretation idt_tab: table_store idt_ok 256 "\<lambda>s i. idt s ! i"
  "\<lambda>i (handler, fl). set_idt_gate i handler fl" gate
  by unfold_locales (auto simp: idt_ok_def set_idt_gate_eq)

section \<open>Handlers\<close>

definition register_interrupt_handler ::
  "u8 \<Rightarrow> u32 \<Rightarrow> ('d, 'z) cpu_scheme \<Rightarrow> ('d, 'z) cpu_scheme" where
  "register_interrupt_handler n handler s =
     s\<lparr>interrupt_handlers := (interrupt_handlers s)[unat n := handler]\<rparr>"

definition handlers_ok :: "('d, 'z) cpu_scheme \<Rightarrow> bool" where
  "handlers_ok s \<longleftrightarrow> length (interrupt_handlers s) = 256"

interpretation handler_tab: table_store handlers_ok 256 "\<lambda>s i. interrupt_handlers s ! i"
  "\<lambda>i h. register_interrupt_handler (of_nat i) h" "\<lambda>h. h"
  by unfold_locales (auto simp: handlers_ok_def register_interrupt_handler_def unat_of_nat)

section \<open>Installation\<close>

text \<open>The 32 and 16 calls of \<open>set_idt_gate\<close> in a row are loops over the vectors.\<close>

definition isr_install ::
  "'d port_io \<Rightarrow> (nat \<Rightarrow> u32) \<Rightarrow> u32 \<Rightarrow> ('d, 'z) cpu_scheme \<Rightarrow> ('d, 'z) cpu_scheme" where
  "isr_install io stub idt_addr s =
     (let fl = IDT_PRESENT OR IDT_DPL_0 OR IDT_TYPE_INTERRUPT_GATE_32;
          s = fold (\<lambda>n s. set_idt_gate n (stub n) fl s) [0..<32] s;
          s = port_byte_out io 0x20 0x11 s;
          s = port_byte_out io 0xA0 0x11 s;
          s = port_byte_out io 0x21 0x20 s;
          s = port_byte_out io 0xA1 0x28 s;
          s = port_byte_out io 0x21 0x04 s;
          s = port_byte_out io 0xA1 0x02 s;
          s = port_byte_out io 0x21 0x01 s;
          s = port_byte_out io 0xA1 0x01 s;
          s = port_byte_out io 0x21 0xFD s;
          s = port_byte_out io 0xA1 0xFF s;
          s = fold (\<lambda>n s. set_idt_gate n (stub n) fl s) [32..<48] s
      in set_idt idt_addr s)"

section \<open>Dispatch\<close>

record registers =
  r_ds :: u32
  r_edi :: u32
  r_esi :: u32
  r_ebp :: u32
  r_esp :: u32
  r_ebx :: u32
  r_edx :: u32
  r_ecx :: u32
  r_eax :: u32
  int_no :: u32
  err_code :: u32
  r_eip :: u32
  r_cs :: u32
  r_eflags :: u32
  useresp :: u32
  r_ss :: u32

definition exception_messages :: "u8 list list" where
  "exception_messages = map lit
    [''Division By Zero'', ''Debug'', ''Non Maskable Interrupt'', ''Breakpoint'',
     ''Into Detected Overflow'', ''Out of Bounds'', ''Invalid Opcode'', ''No Coprocessor'',
     ''Double Fault'', ''Coprocessor Segment Overrun'', ''Bad TSS'', ''Segment Not Present'',
     ''Stack Fault'', ''General Protection Fault'', ''Page Fault'', ''Unknown Interrupt'',
     ''Coprocessor Fault'', ''Alignment Check'', ''Machine Check'', ''Reserved'',
     ''Reserved'', ''Reserved'', ''Reserved'', ''Reserved'',
     ''Reserved'', ''Reserved'', ''Reserved'', ''Reserved'',
     ''Reserved'', ''Reserved'', ''Reserved'', ''Reserved'']"

text \<open>An interrupt either ends in \<open>cli; hlt\<close>, from where nothing continues, or returns.\<close>

datatype 's outcome = Halted 's | Returned 's

definition hex_digit :: "u8 \<Rightarrow> u8" where
  "hex_digit nibble = (if nibble < 10 then nibble + 48 else nibble - 10 + 65)"

definition hex_nibble :: "u32 \<Rightarrow> nat \<Rightarrow> u8" where
  "hex_nibble v i = ucast (drop_bit (28 - i * 4) v AND 0xF)"

fun print_hex ::
  "'d port_io \<Rightarrow> u32 \<Rightarrow> nat list \<Rightarrow> ('d, 'z) machine_scheme \<Rightarrow> ('d, 'z) machine_scheme option" where
  "print_hex io v [] s = Some s"
| "print_hex io v (i # is) s = do {
     s \<leftarrow> serial_putc io (hex_digit (hex_nibble v i)) s;
     print_hex io v is s
   }"

definition call_handler ::
  "(u32 \<Rightarrow> registers \<Rightarrow> ('d, 'z) cpu_scheme \<Rightarrow> ('d, 'z) cpu_scheme option) \<Rightarrow> registers
    \<Rightarrow> ('d, 'z) cpu_scheme \<Rightarrow> ('d, 'z) cpu_scheme option" where
  "call_handler call r s = do {
     handler \<leftarrow> rd (interrupt_handlers s) (unat (int_no r));
     if handler \<noteq> 0 then call handler r s else Some s
   }"

text \<open>\<open>cr2\<close> is the faulting address the processor left in its register.\<close>

definition isr_handler ::
  "'d port_io \<Rightarrow> (u32 \<Rightarrow> registers \<Rightarrow> ('d, 'z) cpu_scheme \<Rightarrow> ('d, 'z) cpu_scheme option) \<Rightarrow> u32
    \<Rightarrow> registers \<Rightarrow> ('d, 'z) cpu_scheme \<Rightarrow> ('d, 'z) cpu_scheme outcome option" where
  "isr_handler io call cr2 r s =
     (if int_no r < 32 then do {
        let msg = exception_messages ! unat (int_no r);
        s \<leftarrow> serial_print io (lit ''received internal interrupt: '') s;
        s \<leftarrow> serial_print io msg s;
        s \<leftarrow> serial_print io (lit_nl '''') s;
        s \<leftarrow> (if int_no r = 14 then do {
             s \<leftarrow> serial_print io (lit ''Faulting address: 0x'') s;
             s \<leftarrow> print_hex io cr2 [0..<8] s;
             serial_print io (lit_nl '''') s
           } else Some s);
        s \<leftarrow> print_string io (lit ''received interrupt: '') s;
        s \<leftarrow> print_string io msg s;
        s \<leftarrow> print_string io (lit_nl '''') s;
        Some (Halted s)
      } else map_option Returned (call_handler call r s))"

definition irq_handler ::
  "'d port_io \<Rightarrow> (u32 \<Rightarrow> registers \<Rightarrow> ('d, 'z) cpu_scheme \<Rightarrow> ('d, 'z) cpu_scheme option)
    \<Rightarrow> registers \<Rightarrow> ('d, 'z) cpu_scheme \<Rightarrow> ('d, 'z) cpu_scheme option" where
  "irq_handler io call r s =
     (let s = (if int_no r \<ge> 40 then port_byte_out io 0xA0 0x20 s else s);
          s = port_byte_out io 0x20 0x20 s
      in call_handler call r s)"

section \<open>The interrupt controllers\<close>

text \<open>One 8259A: the initialisation sequence takes the vector base, the cascade and the mode from
  three writes to the data port; otherwise that port is the mask. A non-specific end of interrupt
  clears the lowest line in service.\<close>

record pic =
  pic_base :: u8
  pic_step :: nat
  pic_mask :: u8
  pic_in_service :: u8

definition pic_command :: "u8 \<Rightarrow> pic \<Rightarrow> pic" where
  "pic_command v p =
     (if bit v 4 then p\<lparr>pic_step := 1, pic_mask := 0, pic_in_service := 0\<rparr>
      else if v = 0x20 then p\<lparr>pic_in_service := pic_in_service p AND (pic_in_service p - 1)\<rparr>
      else p)"

definition pic_data :: "u8 \<Rightarrow> pic \<Rightarrow> pic" where
  "pic_data v p =
     (if pic_step p = 1 then p\<lparr>pic_base := v AND 0xF8, pic_step := 2\<rparr>
      else if pic_step p = 2 then p\<lparr>pic_step := 3\<rparr>
      else if pic_step p = 3 then p\<lparr>pic_step := 0\<rparr>
      else p\<lparr>pic_mask := v\<rparr>)"

definition pics_io :: "(pic \<times> pic) port_io" where
  "pics_io = \<lparr>inb = (\<lambda>d p. (0, d)),
     outb = (\<lambda>(m, sl) p v. if p = 0x20 then (pic_command v m, sl) else if p = 0x21 then (pic_data v m, sl)
        else if p = 0xA0 then (m, pic_command v sl) else if p = 0xA1 then (m, pic_data v sl) else (m, sl)),
     inw = (\<lambda>d p. (0, d)), outw = (\<lambda>d p v. d)\<rparr>"

text \<open>The vector of a line that is not masked, and the state after the processor took it.\<close>

definition line_vector :: "pic \<times> pic \<Rightarrow> nat \<Rightarrow> nat option" where
  "line_vector = (\<lambda>(m, sl) line.
     if line < 8 then if bit (pic_mask m) line then None else Some (unat (pic_base m) + line)
     else if bit (pic_mask m) 2 \<or> bit (pic_mask sl) (line - 8) then None
     else Some (unat (pic_base sl) + (line - 8)))"

definition take_line :: "nat \<Rightarrow> pic \<times> pic \<Rightarrow> pic \<times> pic" where
  "take_line line = (\<lambda>(m, sl).
     if line < 8 then (m\<lparr>pic_in_service := set_bit line (pic_in_service m)\<rparr>, sl)
     else (m\<lparr>pic_in_service := set_bit 2 (pic_in_service m)\<rparr>,
       sl\<lparr>pic_in_service := set_bit (line - 8) (pic_in_service sl)\<rparr>))"

section \<open>Properties\<close>

lemma idt_fold: "fold (\<lambda>n s. set_idt_gate n (stub n) fl s) [a..<b] s
    = idt_tab.put_all (map (\<lambda>n. (n, (stub n, fl))) [a..<b]) s"
  unfolding idt_tab.put_all_def fold_map comp_def by simp

lemma idt_put_all_dev [simp]: "dev (idt_tab.put_all gs s) = dev s"
  by (induction gs arbitrary: s) (auto simp: set_idt_gate_eq split: prod.splits)

definition pic_setup :: "(u16 \<times> u8) list" where
  "pic_setup = [(0x20, 0x11), (0xA0, 0x11), (0x21, 0x20), (0xA1, 0x28), (0x21, 0x04), (0xA1, 0x02),
     (0x21, 0x01), (0xA1, 0x01), (0x21, 0xFD), (0xA1, 0xFF)]"

lemma isr_install_eq:
  "isr_install io stub idt_addr s = set_idt idt_addr
    (idt_tab.put_all (map (\<lambda>n. (n, (stub n, 0x8E))) [32..<48])
      ((idt_tab.put_all (map (\<lambda>n. (n, (stub n, 0x8E))) [0..<32]) s)
        \<lparr>dev := outs io pic_setup (dev s)\<rparr>))"
  by (simp add: isr_install_def idt_fold port_byte_out_def pic_setup_def Let_def idt_consts)

text \<open>C30: after \<open>isr_install\<close> each of the first 48 vectors is a present ring 0 interrupt gate to
  its own stub in the kernel's code segment, the other gates are as before, and \<open>lidt\<close> has been
  given the table and its size.\<close>

theorem isr_install_gates:
  assumes "idt_ok s" and "s' = isr_install io stub idt_addr s"
  shows "(\<forall>n<48. gate_offset (idt s' ! n) = stub n \<and> sel (idt s' ! n) = 0x08 \<and> flags (idt s' ! n) = 0x8E)
    \<and> (\<forall>n<256. 48 \<le> n \<longrightarrow> idt s' ! n = idt s ! n)
    \<and> idtr s' = Some \<lparr>ptr_limit = 2047, ptr_base = idt_addr\<rparr>"
proof -
  let ?s1 = "idt_tab.put_all (map (\<lambda>n. (n, (stub n, 0x8E))) [0..<32]) s"
  let ?s2 = "?s1\<lparr>dev := outs io pic_setup (dev s)\<rparr>"
  have ok: "idt_ok ?s1" by (rule idt_tab.put_all_ok [OF assms(1)])
  then have ok2: "idt_ok ?s2" by (simp add: idt_ok_def)
  have idt: "idt s' ! n = (if n < 48 then gate (stub n, 0x8E) else idt s ! n)" if "n < 256" for n
    using idt_tab.get_put_map [OF assms(1), of 0 32 n "\<lambda>n. (stub n, 0x8E)"]
      idt_tab.get_put_map [OF ok2, of 32 48 n "\<lambda>n. (stub n, 0x8E)"] that
    by (simp add: assms(2) isr_install_eq set_idt_def Let_def)
  moreover have "idtr s' = Some \<lparr>ptr_limit = 2047, ptr_base = idt_addr\<rparr>"
    by (simp add: assms(2) isr_install_eq set_idt_def idt_consts Let_def)
  ultimately show ?thesis by (simp add: KERNEL_CS_def)
qed

theorem isr_install_gates_witness:
  "gate_offset (idt (isr_install \<lparr>inb = (\<lambda>d p. (0, d)), outb = (\<lambda>d p v. d), inw = (\<lambda>d p. (0, d)),
      outw = (\<lambda>d p v. d)\<rparr> (\<lambda>n. 0x1000 + of_nat n) 0x7000 (boot_cpu ())) ! 33) = 0x1021"
proof -
  have "idt_ok (boot_cpu ())" by (simp add: idt_ok_def boot_cpu_def)
  from isr_install_gates [OF this refl, of "\<lparr>inb = (\<lambda>d p. (0, d)), outb = (\<lambda>d p v. d),
      inw = (\<lambda>d p. (0, d)), outw = (\<lambda>d p v. d)\<rparr>" "\<lambda>n. 0x1000 + of_nat n" "0x7000"]
  show ?thesis by simp
qed

text \<open>\<open>isr_install\<close> moves the lines of the two interrupt controllers to vectors 32 to 47 and
  leaves exactly the keyboard's line enabled: the timer's, that the comment beside the mask
  mentions, stays masked.\<close>

theorem isr_install_keyboard_only:
  "map (line_vector (dev (isr_install pics_io stub idt_addr s))) [0..<16]
    = map (\<lambda>line. if line = 1 then Some 33 else None) [0..<16]"
proof -
  obtain m sl where d: "dev s = (m, sl)" by fastforce
  have "dev (isr_install pics_io stub idt_addr s) = outs pics_io pic_setup (m, sl)"
    by (simp add: isr_install_eq set_idt_def set_idt_gate_eq d Let_def)
  also have "\<dots> = (\<lparr>pic_base = 0x20, pic_step = 0, pic_mask = 0xFD, pic_in_service = 0\<rparr>,
      \<lparr>pic_base = 0x28, pic_step = 0, pic_mask = 0xFF, pic_in_service = 0\<rparr>)"
    by (cases m; cases sl)
      (simp add: pic_setup_def pics_io_def pic_command_def pic_data_def)
  finally have pics: "dev (isr_install pics_io stub idt_addr s) = \<dots>" .
  have "bit (0xFD :: int) n \<longleftrightarrow> n \<noteq> 1" if "n < 8" for n
  proof -
    have "n \<in> {0,1,2,3,4,5,6,7}" using that by auto
    then show ?thesis by auto
  qed
  then show ?thesis unfolding pics by (auto simp: line_vector_def)
qed

text \<open>C31: an interrupt request on any line is acknowledged before its handler runs: the end of
  interrupt commands of \<open>irq_handler\<close> take the controllers back to the state before the
  processor accepted the line, and then the registered handler is called, once, or nothing.\<close>

theorem irq_handler_acknowledges:
  assumes "line < 16" and "int_no r = 32 + of_nat line"
    and "dev s = take_line line d" and "pic_in_service (fst d) = 0" "pic_in_service (snd d) = 0"
    and "handlers_ok s"
  shows "irq_handler pics_io call r s =
    (let handler = interrupt_handlers s ! (32 + line)
     in if handler \<noteq> 0 then call handler r (s\<lparr>dev := d\<rparr>) else Some (s\<lparr>dev := d\<rparr>))"
proof -
  obtain m sl where d: "d = (m, sl)" by fastforce
  have u: "unat (int_no r) = 32 + line" using assms(1,2) by (simp add: unat_plus_of_nat)
  have ge: "int_no r \<ge> 40 \<longleftrightarrow> 8 \<le> line" by (simp add: word_le_nat_alt u)
  have clear: "set_bit n (0 :: u8) AND (set_bit n 0 - 1) = 0" if "n < 8" for n
  proof -
    have "n \<in> {0,1,2,3,4,5,6,7}" using that by auto
    then show ?thesis by (auto simp: set_bit_eq)
  qed
  let ?ops = "(if 8 \<le> line then [(0xA0, 0x20)] else []) @ [(0x20, 0x20)]"
  have "irq_handler pics_io call r s = call_handler call r (s\<lparr>dev := outs pics_io ?ops (dev s)\<rparr>)"
    by (simp add: irq_handler_def port_byte_out_def ge Let_def)
  also have "outs pics_io ?ops (dev s) = d"
    using assms(1,3-5) clear by (cases m; cases sl)
      (auto simp: d take_line_def pics_io_def pic_command_def bit_simps)
  finally show ?thesis
    using assms(1,6) by (simp add: call_handler_def rd_def u handlers_ok_def)
qed

definition regs_of :: "u32 \<Rightarrow> registers" where
  "regs_of n = \<lparr>r_ds = 0x10, r_edi = 0, r_esi = 0, r_ebp = 0, r_esp = 0, r_ebx = 0, r_edx = 0, r_ecx = 0,
     r_eax = 0, int_no = n, err_code = 0, r_eip = 0, r_cs = 0x08, r_eflags = 0, useresp = 0, r_ss = 0x10\<rparr>"

definition idle_pics :: "pic \<times> pic" where
  "idle_pics = (\<lparr>pic_base = 0x20, pic_step = 0, pic_mask = 0, pic_in_service = 0\<rparr>,
     \<lparr>pic_base = 0x28, pic_step = 0, pic_mask = 0, pic_in_service = 0\<rparr>)"

theorem irq_handler_acknowledges_witness:
  "irq_handler pics_io (\<lambda>h r s. None) (regs_of 41) ((boot_cpu idle_pics)\<lparr>dev := take_line 9 idle_pics\<rparr>)
    = Some (boot_cpu idle_pics)"
  using irq_handler_acknowledges [of 9 "regs_of 41"
      "(boot_cpu idle_pics)\<lparr>dev := take_line 9 idle_pics\<rparr>" idle_pics "\<lambda>h r s. None"]
  by (simp add: regs_of_def boot_cpu_def handlers_ok_def idle_pics_def)

section \<open>Exceptions\<close>

definition hex_value :: "u8 \<Rightarrow> nat" where
  "hex_value c = (if c < 58 then unat c - 48 else unat c - 55)"

lemma hex_digit_value: "nibble < 16 \<Longrightarrow> hex_value (hex_digit nibble) = unat nibble"
  by (auto simp: hex_value_def hex_digit_def word_less_nat_alt unat_word_ariths unat_minus_le)

lemma hex_nibble_eq: "i < 8 \<Longrightarrow> unat (hex_nibble v i) = unat v div 16 ^ (7 - i) mod 16"
proof -
  assume i: "i < 8"
  have "28 - i * 4 = 4 * (7 - i)" using i by simp
  then have "unat (drop_bit (28 - i * 4) v AND 0xF) = unat v div 16 ^ (7 - i) mod 16"
    unfolding low_masks take_bit_eq_mask [symmetric] unsigned_take_bit_eq unat_drop_bit_eq
    by (simp add: take_bit_eq_mod drop_bit_eq_div power_mult)
  moreover have "unat v div 16 ^ (7 - i) mod 16 < 256" by (rule order.strict_trans) auto
  ultimately show ?thesis
    by (simp add: hex_nibble_def unsigned_ucast_eq take_bit_eq_mod)
qed

text \<open>Reading the eight digits back gives the number.\<close>

lemma hex_digits_value:
  "foldl (\<lambda>a c. a * 16 + hex_value c) 0 (map (\<lambda>i. hex_digit (hex_nibble v i)) [0..<8]) = unat v"
proof -
  have v: "hex_value (hex_digit (hex_nibble v i)) = unat v div 16 ^ (7 - i) mod 16" if "i < 8" for i
  proof -
    have "hex_nibble v i < 16" using hex_nibble_eq [OF that, of v] by (simp add: word_less_nat_alt)
    then show ?thesis using hex_digit_value hex_nibble_eq [OF that] by simp
  qed
  have "n \<le> 8 \<Longrightarrow> foldl (\<lambda>a c. a * 16 + hex_value c) 0 (map (\<lambda>i. hex_digit (hex_nibble v i)) [0..<n])
    = unat v div 16 ^ (8 - n)" for n
  proof (induction n)
    case 0
    have "unat v < 16 ^ 8" using unat_less_2p32 [of v] by simp
    then show ?case by simp
  next
    case (Suc n)
    have e: "8 - n = Suc (7 - n)" "8 - Suc n = 7 - n" using Suc.prems by simp_all
    have "unat v div 16 ^ (8 - n) = unat v div 16 ^ (7 - n) div 16"
      unfolding e(1) power_Suc2 by (simp only: div_mult2_eq)
    then show ?case using Suc v [of n] by (simp add: e(2))
  qed
  from this [of 8] show ?thesis by simp
qed

lemma print_hex_ready:
  assumes "uart_ready io"
  shows "print_hex io v is s
    = Some (s\<lparr>dev := serial_out io (map (\<lambda>i. hex_digit (hex_nibble v i)) is) (dev s)\<rparr>)"
  by (induction "is" arbitrary: s) (simp_all add: serial_putc_ready [OF assms])

lemma lit_simps [simp]: "0 \<in> set (lit s)" "0 \<in> set (lit_nl s)"
  by (simp_all add: lit_def lit_nl_def)

lemma exception_messages_length: "length exception_messages = 32"
  by (simp add: exception_messages_def)

lemma exception_message_ends:
  assumes "i < 32"
  shows "0 \<in> set (exception_messages ! i)"
proof -
  have "exception_messages ! i \<in> set exception_messages"
    using assms by (simp add: exception_messages_length)
  moreover have "\<forall>m \<in> set exception_messages. 0 \<in> set m"
    unfolding exception_messages_def by (simp add: lit_def)
  ultimately show ?thesis by blast
qed

text \<open>The report of an exception on the serial line.\<close>

definition exception_report :: "u32 \<Rightarrow> nat \<Rightarrow> u8 list" where
  "exception_report cr2 n = concat (map str_of
     ([lit ''received internal interrupt: '', exception_messages ! n, lit_nl '''']
      @ (if n = 14 then [lit ''Faulting address: 0x'', map (\<lambda>i. hex_digit (hex_nibble cr2 i)) [0..<8] @ [0],
           lit_nl ''''] else [])))"

lemma hex_digit_nonzero: "i < 8 \<Longrightarrow> hex_digit (hex_nibble v i) \<noteq> 0"
proof -
  assume "i < 8"
  from hex_nibble_eq [OF this, of v] have "hex_nibble v i < 16" by (simp add: word_less_nat_alt)
  then have "hex_value (hex_digit (hex_nibble v i)) = unat (hex_nibble v i)" by (rule hex_digit_value)
  then show ?thesis
    by (auto simp: hex_value_def hex_digit_def unsigned_eq_0_iff split: if_splits)
qed

lemma isr_handler_exception:
  assumes uart: "uart_ready io" and n: "int_no r < 32"
  shows "\<exists>s1 s2. isr_handler io call cr2 r s = Some (Halted s2) \<and> screen_only io s1 s2
    \<and> s1 = s\<lparr>dev := serial_out io (exception_report cr2 (unat (int_no r))) (dev s)\<rparr>"
proof -
  let ?msg = "exception_messages ! unat (int_no r)"
  let ?s1 = "s\<lparr>dev := serial_out io (exception_report cr2 (unat (int_no r))) (dev s)\<rparr>"
  have msg: "0 \<in> set ?msg" using n by (intro exception_message_ends) (simp add: word_less_nat_alt)
  obtain s3 where p1: "print_string io (lit ''received interrupt: '') ?s1 = Some s3" "screen_only io ?s1 s3"
    by (rule print_string_returns [OF lit_simps(1)])
  obtain s4 where p2: "print_string io ?msg s3 = Some s4" "screen_only io s3 s4"
    by (rule print_string_returns [OF msg])
  obtain s5 where p3: "print_string io (lit_nl '''') s4 = Some s5" "screen_only io s4 s5"
    by (rule print_string_returns [OF lit_simps(2)])
  have "0 \<notin> set (map (\<lambda>i. hex_digit (hex_nibble cr2 i)) [0..<8])"
    using hex_digit_nonzero [of _ cr2] by fastforce
  from str_of_append [OF this, of "[0]"]
  have hex: "str_of (map (\<lambda>i. hex_digit (hex_nibble cr2 i)) [0..<8] @ [0])
    = map (\<lambda>i. hex_digit (hex_nibble cr2 i)) [0..<8]" by simp
  have i14: "int_no r = 14 \<longleftrightarrow> unat (int_no r) = 14"
    by (simp add: word_unat_eq_iff)
  have "isr_handler io call cr2 r s = Some (Halted s5)"
    using n p1(1) p2(1) p3(1) hex i14
    by (cases "int_no r = 14") (simp_all add: isr_handler_def serial_print_ready [OF uart] print_hex_ready [OF uart] msg
        exception_message_ends [of 14]
        exception_report_def str_of_def Let_def del: upt_rec_numeral)
  then show ?thesis
    using screen_only_trans [OF screen_only_trans [OF p1(2) p2(2)] p3(2)] by blast
qed


text \<open>Every processor exception stops the machine: the handler table is not consulted, the
  name of the exception goes out on the serial line, for a page fault with eight hexadecimal
  digits that read back as the faulting address, and then a report on the screen.\<close>

theorem isr_handler_halts:
  assumes "uart_ready io" and "int_no r < 32"
  shows "\<exists>s1 s2. isr_handler io call cr2 r s = Some (Halted s2) \<and> screen_only io s1 s2
    \<and> s1 = s\<lparr>dev := serial_out io (exception_report cr2 (unat (int_no r))) (dev s)\<rparr>
    \<and> (int_no r = 14 \<longrightarrow> (\<exists>pre digits. exception_report cr2 14 = pre @ digits @ [10] \<and> length digits = 8
        \<and> foldl (\<lambda>a c. a * 16 + hex_value c) 0 digits = unat cr2))"
proof -
  let ?digits = "map (\<lambda>i. hex_digit (hex_nibble cr2 i)) [0..<8]"
  have "0 \<notin> set ?digits" using hex_digit_nonzero [of _ cr2] by fastforce
  from str_of_append [OF this, of "[0]"]
  have "str_of (?digits @ [0]) = ?digits" by simp
  then have "\<exists>pre. exception_report cr2 14 = pre @ ?digits @ [10]"
    by (simp add: exception_report_def lit_nl_def bytes_of_def del: upt_rec_numeral)
  then show ?thesis
    using isr_handler_exception [OF assms, of call cr2 s] hex_digits_value [of cr2] by fastforce
qed

theorem isr_handler_halts_witness:
  "\<exists>s'. isr_handler log_io (\<lambda>h r s. None) 0xB8000 (regs_of 14) (boot_cpu []) = Some (Halted s')"
  using isr_handler_halts [OF uart_ready_log_io, of "regs_of 14" "\<lambda>h r s. None" "0xB8000" "boot_cpu []"]
  by (auto simp: regs_of_def)

end
