(* ===== verification/Queue.thy ===== *)
theory Queue
  imports Main
begin

text \<open>
  The interface of a bounded first-in first-out queue that drops what does not fit, as the
  keyboard driver provides it to the shell. \<open>contents\<close> is the abstraction of a state.
\<close>

datatype 'a queue_op = Enq 'a | Deq

locale bounded_queue =
  fixes inv :: "'s \<Rightarrow> bool" and contents :: "'s \<Rightarrow> 'a list" and valid :: "'a \<Rightarrow> bool"
    and cap :: nat and enq :: "'a \<Rightarrow> 's \<Rightarrow> 's" and deq :: "'s \<Rightarrow> ('a \<times> 's) option"
  assumes enq_inv: "inv s \<Longrightarrow> valid x \<Longrightarrow> inv (enq x s)"
    and enq_contents: "inv s \<Longrightarrow> valid x \<Longrightarrow> contents (enq x s)
      = (if length (contents s) < cap then contents s @ [x] else contents s)"
    and deq_contents: "inv s \<Longrightarrow> (case contents s of [] \<Rightarrow> deq s = None
      | x # xs \<Rightarrow> \<exists>s'. deq s = Some (x, s') \<and> inv s' \<and> contents s' = xs)"
    and below_cap: "inv s \<Longrightarrow> length (contents s) \<le> cap"
begin

text \<open>A run of operations on the implementation and on lists: the outputs agree.\<close>

fun run_impl :: "'a queue_op list \<Rightarrow> 's \<Rightarrow> 'a option list \<times> 's" where
  "run_impl [] s = ([], s)"
| "run_impl (Enq x # os) s = run_impl os (enq x s)"
| "run_impl (Deq # os) s = (case deq s of
     None \<Rightarrow> (let (ys, s) = run_impl os s in (None # ys, s))
   | Some (x, s) \<Rightarrow> (let (ys, s) = run_impl os s in (Some x # ys, s)))"

fun run_list :: "'a queue_op list \<Rightarrow> 'a list \<Rightarrow> 'a option list \<times> 'a list" where
  "run_list [] q = ([], q)"
| "run_list (Enq x # os) q = run_list os (if length q < cap then q @ [x] else q)"
| "run_list (Deq # os) q = (case q of
     [] \<Rightarrow> (let (ys, q) = run_list os q in (None # ys, q))
   | x # q \<Rightarrow> (let (ys, q) = run_list os q in (Some x # ys, q)))"

lemma run_refines:
  assumes "inv s" "\<forall>x. Enq x \<in> set os \<longrightarrow> valid x"
  shows "fst (run_impl os s) = fst (run_list os (contents s))
    \<and> contents (snd (run_impl os s)) = snd (run_list os (contents s)) \<and> inv (snd (run_impl os s))"
  using assms
proof (induction os arbitrary: s)
  case (Cons a os)
  show ?case
  proof (cases a)
    case (Enq x)
    then show ?thesis
      using Cons.IH [of "enq x s"] Cons.prems enq_inv enq_contents by auto
  next
    case Deq
    show ?thesis
    proof (cases "contents s")
      case Nil
      then have "deq s = None" using deq_contents [OF Cons.prems(1)] by simp
      then show ?thesis using Cons Nil Deq by (simp add: split_beta Let_def)
    next
      case (Cons x xs)
      then obtain s' where "deq s = Some (x, s')" "inv s'" "contents s' = xs"
        using deq_contents [OF Cons.prems(1)] by auto
      then show ?thesis
        using Cons.IH [of s'] Cons.prems(2) Cons Deq by (simp add: split_beta Let_def)
    qed
  qed
qed simp

text \<open>A burst that fits is delivered in the order it came in.\<close>

fun enq_all :: "'a list \<Rightarrow> 's \<Rightarrow> 's" where
  "enq_all [] s = s"
| "enq_all (x # xs) s = enq_all xs (enq x s)"

lemma enq_all_contents:
  assumes "inv s" "\<forall>x \<in> set xs. valid x"
  shows "inv (enq_all xs s) \<and> contents (enq_all xs s) = contents s @ take (cap - length (contents s)) xs"
  using assms
proof (induction xs arbitrary: s)
  case (Cons x xs)
  have "inv (enq x s)" using Cons.prems enq_inv by simp
  from Cons.IH [OF this] show ?case
    using Cons.prems enq_contents [of s x] below_cap [of s]
    by (auto simp: take_Cons split: nat.splits) (metis Suc_diff_Suc diff_Suc_Suc nat.inject)
qed simp

end

end
