(* ===== verification/Keyboard.thy ===== *)
theory Keyboard
  imports Isr Queue
begin

text \<open>
  The PS/2 controller, \<open>src/drivers/ps2.c\<close>, and the keyboard driver, \<open>src/drivers/keyboard.c\<close>:
  scan codes to characters in interrupt context, and the ring buffer between the interrupt
  handler, the syscall layer (\<open>keyboard_push\<close>) and the shell (\<open>keyboard_getc\<close>). The \<open>hlt\<close> in
  the wait for a key is the parameter \<open>hlt\<close>: what the interrupts do before the loop goes on.
\<close>

section \<open>The PS/2 controller\<close>

definition PS2_DATA_PORT :: u16 where "PS2_DATA_PORT = 0x60"
definition PS2_STATUS_PORT :: u16 where "PS2_STATUS_PORT = 0x64"
definition PS2_COMMAND_PORT :: u16 where "PS2_COMMAND_PORT = 0x64"
definition PS2_STATUS_OUTPUT_FULL :: u8 where "PS2_STATUS_OUTPUT_FULL = 0x01"
definition PS2_STATUS_INPUT_FULL :: u8 where "PS2_STATUS_INPUT_FULL = 0x02"

lemmas ps2_consts = PS2_DATA_PORT_def PS2_STATUS_PORT_def PS2_COMMAND_PORT_def
  PS2_STATUS_OUTPUT_FULL_def PS2_STATUS_INPUT_FULL_def

partial_function (option) ps2_wait_write ::
  "'d port_io \<Rightarrow> ('d, 'z) machine_scheme \<Rightarrow> ('d, 'z) machine_scheme option" where
  "ps2_wait_write io s =
     (let (v, s) = port_byte_in io PS2_STATUS_PORT s
      in if v AND PS2_STATUS_INPUT_FULL \<noteq> 0 then ps2_wait_write io s else Some s)"

partial_function (option) ps2_wait_read ::
  "'d port_io \<Rightarrow> ('d, 'z) machine_scheme \<Rightarrow> ('d, 'z) machine_scheme option" where
  "ps2_wait_read io s =
     (let (v, s) = port_byte_in io PS2_STATUS_PORT s
      in if v AND PS2_STATUS_OUTPUT_FULL = 0 then ps2_wait_read io s else Some s)"

definition ps2_init :: "('d, 'z) machine_scheme \<Rightarrow> ('d, 'z) machine_scheme" where
  "ps2_init s = s"

definition ps2_read_data ::
  "'d port_io \<Rightarrow> ('d, 'z) machine_scheme \<Rightarrow> (u8 \<times> ('d, 'z) machine_scheme) option" where
  "ps2_read_data io s = do { s \<leftarrow> ps2_wait_read io s; Some (port_byte_in io PS2_DATA_PORT s) }"

definition ps2_write_data ::
  "'d port_io \<Rightarrow> u8 \<Rightarrow> ('d, 'z) machine_scheme \<Rightarrow> ('d, 'z) machine_scheme option" where
  "ps2_write_data io v s = do { s \<leftarrow> ps2_wait_write io s; Some (port_byte_out io PS2_DATA_PORT v s) }"

definition ps2_write_command ::
  "'d port_io \<Rightarrow> u8 \<Rightarrow> ('d, 'z) machine_scheme \<Rightarrow> ('d, 'z) machine_scheme option" where
  "ps2_write_command io v s =
     do { s \<leftarrow> ps2_wait_write io s; Some (port_byte_out io PS2_COMMAND_PORT v s) }"

section \<open>The keyboard driver\<close>

definition BUFFER_SIZE :: int where "BUFFER_SIZE = 256"
definition LSHIFT :: u8 where "LSHIFT = 0x2A"
definition RSHIFT :: u8 where "RSHIFT = 0x36"

lemmas keyboard_consts = BUFFER_SIZE_def LSHIFT_def RSHIFT_def

record 'd keyboard = "'d cpu" +
  keyboard_buffer :: "u8 list"
  buffer_head :: int
  buffer_tail :: int
  shift_active :: bool

text \<open>The last entry of each table is at index 122.\<close>

definition scancode_ascii :: "u8 list" where
  "scancode_ascii =
    [0, 27, 49, 50, 51, 52, 53, 54, 55, 56, 57, 48, 45, 61, 8, 9, 113, 119, 101, 114, 116, 121,
     117, 105, 111, 112, 91, 93, 10, 0, 97, 115, 100, 102, 103, 104, 106, 107, 108, 59, 39, 96,
     0, 92, 122, 120, 99, 118, 98, 110, 109, 44, 46, 47, 0, 42, 0, 32]
    @ replicate 64 0 @ [0x7F]"

definition scancode_ascii_shift :: "u8 list" where
  "scancode_ascii_shift =
    [0, 27, 33, 64, 35, 36, 37, 94, 38, 42, 40, 41, 95, 43, 8, 9, 81, 87, 69, 82, 84, 89, 85,
     73, 79, 80, 123, 125, 10, 0, 65, 83, 68, 70, 71, 72, 74, 75, 76, 58, 34, 126, 0, 124, 90,
     88, 67, 86, 66, 78, 77, 60, 62, 63, 0, 42, 0, 32]
    @ replicate 64 0 @ [0x7F]"

text \<open>The handler's address is a link-time constant.\<close>

definition keyboard_init :: "u32 \<Rightarrow> ('d, 'z) keyboard_scheme \<Rightarrow> ('d, 'z) keyboard_scheme" where
  "keyboard_init handler s = register_interrupt_handler 33 handler (ps2_init s)"

definition buffer_put :: "u8 \<Rightarrow> ('d, 'z) keyboard_scheme \<Rightarrow> ('d, 'z) keyboard_scheme" where
  "buffer_put c s =
     (let next = (buffer_head s + 1) smod BUFFER_SIZE
      in if next \<noteq> buffer_tail s
         then s\<lparr>keyboard_buffer := (keyboard_buffer s)[nat (buffer_head s) := c], buffer_head := next\<rparr>
         else s)"

definition keyboard_handler ::
  "'d port_io \<Rightarrow> ('d, 'z) keyboard_scheme \<Rightarrow> ('d, 'z) keyboard_scheme option" where
  "keyboard_handler io s = do {
     (scancode, s) \<leftarrow> ps2_read_data io s;
     Some (if scancode AND 0x80 \<noteq> 0
       then (let released_scancode = scancode AND 0x7F
             in if released_scancode = LSHIFT \<or> released_scancode = RSHIFT
                then s\<lparr>shift_active := False\<rparr> else s)
       else if scancode = LSHIFT \<or> scancode = RSHIFT then s\<lparr>shift_active := True\<rparr>
       else if unat scancode < length scancode_ascii
       then (let c = (if shift_active s then scancode_ascii_shift ! unat scancode
                      else scancode_ascii ! unat scancode)
             in if c \<noteq> 0 then buffer_put c s else s)
       else s)
   }"

partial_function (option) keyboard_wait ::
  "(('d, 'z) keyboard_scheme \<Rightarrow> ('d, 'z) keyboard_scheme option) \<Rightarrow> ('d, 'z) keyboard_scheme
    \<Rightarrow> ('d, 'z) keyboard_scheme option" where
  "keyboard_wait hlt s =
     (if buffer_head s = buffer_tail s then hlt s \<bind> keyboard_wait hlt else Some s)"

definition keyboard_take :: "('d, 'z) keyboard_scheme \<Rightarrow> u8 \<times> ('d, 'z) keyboard_scheme" where
  "keyboard_take s =
     (let c = keyboard_buffer s ! nat (buffer_tail s);
          s = s\<lparr>buffer_tail := (buffer_tail s + 1) smod BUFFER_SIZE\<rparr>
      in (c, s))"

definition keyboard_getc ::
  "(('d, 'z) keyboard_scheme \<Rightarrow> ('d, 'z) keyboard_scheme option) \<Rightarrow> ('d, 'z) keyboard_scheme
    \<Rightarrow> (u8 \<times> ('d, 'z) keyboard_scheme) option" where
  "keyboard_getc hlt s = do { s \<leftarrow> keyboard_wait hlt s; Some (keyboard_take s) }"

definition keyboard_push :: "u8 \<Rightarrow> ('d, 'z) keyboard_scheme \<Rightarrow> ('d, 'z) keyboard_scheme" where
  "keyboard_push c s = (if c = 0 then s else buffer_put c s)"

section \<open>The ring buffer is a bounded queue\<close>

definition ring_ok :: "('d, 'z) keyboard_scheme \<Rightarrow> bool" where
  "ring_ok s \<longleftrightarrow> length (keyboard_buffer s) = 256
     \<and> 0 \<le> buffer_head s \<and> buffer_head s < 256 \<and> 0 \<le> buffer_tail s \<and> buffer_tail s < 256"

definition ring_length :: "('d, 'z) keyboard_scheme \<Rightarrow> nat" where
  "ring_length s = nat ((buffer_head s - buffer_tail s) mod 256)"

definition ring_contents :: "('d, 'z) keyboard_scheme \<Rightarrow> u8 list" where
  "ring_contents s =
     map (\<lambda>i. keyboard_buffer s ! nat ((buffer_tail s + int i) mod 256)) [0..<ring_length s]"

text \<open>Reading without the wait, as the interface has it.\<close>

definition keyboard_poll :: "('d, 'z) keyboard_scheme \<Rightarrow> (u8 \<times> ('d, 'z) keyboard_scheme) option" where
  "keyboard_poll s = (if buffer_head s = buffer_tail s then None else Some (keyboard_take s))"

lemma smod_nonneg: "0 \<le> a \<Longrightarrow> 0 < b \<Longrightarrow> (a :: int) smod b = a mod b"
  by (cases "a = 0") (simp_all add: signed_modulo_int_def)

lemma mod_256_high: "256 \<le> a \<Longrightarrow> a < 512 \<Longrightarrow> a mod 256 = a - 256" for a :: int
  by (rule trans [OF minus_mod_self2 [symmetric]]) (simp add: mod_pos_pos_trivial del: minus_mod_self2)

lemma mod_256_low: "-256 \<le> a \<Longrightarrow> a < 0 \<Longrightarrow> a mod 256 = a + 256" for a :: int
  by (rule trans [OF mod_add_self2 [symmetric]]) (simp add: mod_pos_pos_trivial del: mod_add_self2)

lemma wrap_down: "0 \<le> h \<Longrightarrow> h < 256 \<Longrightarrow> 0 \<le> t \<Longrightarrow> t < 256
    \<Longrightarrow> (h - t) mod 256 = (if t \<le> h then h - t else h - t + 256)" for h t :: int
  by (simp add: mod_pos_pos_trivial mod_256_low)

lemma wrap_up: "0 \<le> i \<Longrightarrow> i < 256 \<Longrightarrow> (i + 1) mod 256 = (if i = 255 then 0 else i + 1)" for i :: int
  by (auto simp: mod_pos_pos_trivial)

lemma ring_next: "0 \<le> i \<Longrightarrow> i < 256 \<Longrightarrow> (i + 1) smod BUFFER_SIZE = (if i = 255 then 0 else i + 1)"
  by (simp add: smod_nonneg BUFFER_SIZE_def wrap_up)

lemma ring_length_eq: "ring_ok s \<Longrightarrow> ring_length s = nat (if buffer_tail s \<le> buffer_head s
    then buffer_head s - buffer_tail s else buffer_head s - buffer_tail s + 256)"
  by (simp add: ring_length_def ring_ok_def wrap_down)

lemma ring_length_less: "ring_length s < 256"
  by (simp add: ring_length_def nat_less_iff)

lemma ring_full_iff:
  assumes "ring_ok s"
  shows "(buffer_head s + 1) smod BUFFER_SIZE = buffer_tail s \<longleftrightarrow> ring_length s = 255"
  using assms ring_length_eq [OF assms] by (auto simp: ring_ok_def ring_next)

lemma ring_empty_iff: "ring_ok s \<Longrightarrow> buffer_head s = buffer_tail s \<longleftrightarrow> ring_length s = 0"
  using ring_length_eq [of s] by (auto simp: ring_ok_def)

lemma buffer_put_ring:
  assumes ok: "ring_ok s"
  shows "ring_ok (buffer_put c s)" and "ring_contents (buffer_put c s)
    = (if length (ring_contents s) < 255 then ring_contents s @ [c] else ring_contents s)"
proof -
  let ?s' = "buffer_put c s"
  show "ring_ok ?s'"
    using ok by (auto simp: ring_ok_def buffer_put_def ring_next Let_def)
  show "ring_contents ?s' = (if length (ring_contents s) < 255 then ring_contents s @ [c] else ring_contents s)"
  proof (cases "ring_length s = 255")
    case True
    then have "?s' = s" using ring_full_iff [OF ok] by (simp add: buffer_put_def Let_def)
    then show ?thesis using True by (simp add: ring_contents_def)
  next
    case False
    let ?h = "buffer_head s" and ?t = "buffer_tail s"
    have b: "length (keyboard_buffer s) = 256" "0 \<le> ?h" "?h < 256" "0 \<le> ?t" "?t < 256"
      using ok by (auto simp: ring_ok_def)
    have s': "buffer_tail ?s' = ?t" "buffer_head ?s' = (if ?h = 255 then 0 else ?h + 1)"
      "keyboard_buffer ?s' = (keyboard_buffer s)[nat ?h := c]"
      using False ring_full_iff [OF ok] b ring_next [of ?h] by (auto simp: buffer_put_def Let_def)
    have len: "ring_length ?s' = Suc (ring_length s)"
      using False ring_length_eq [OF \<open>ring_ok ?s'\<close>] ring_length_eq [OF ok] b s' by (auto split: if_splits)
    have slot: "(?t + int (ring_length s)) mod 256 = ?h"
      using ring_length_eq [OF ok] b by (auto simp: mod_pos_pos_trivial)
    have old: "(?t + int i) mod 256 \<noteq> ?h" if "i < ring_length s" for i
    proof -
      have "(?t + int i) mod 256 = (if ?t + int i < 256 then ?t + int i else ?t + int i - 256)"
        using that b ring_length_less [of s] mod_256_high [of "?t + int i"]
        by (auto simp: mod_pos_pos_trivial)
      then show ?thesis using that ring_length_eq [OF ok] b by (auto split: if_splits)
    qed
    have "ring_contents ?s' = map (\<lambda>i. (keyboard_buffer s)[nat ?h := c] ! nat ((?t + int i) mod 256))
        [0..<ring_length s] @ [c]"
      using b by (simp add: ring_contents_def len s' slot)
    also have "map (\<lambda>i. (keyboard_buffer s)[nat ?h := c] ! nat ((?t + int i) mod 256)) [0..<ring_length s]
        = ring_contents s"
      unfolding ring_contents_def using old [THEN not_sym] b
      by (intro map_cong refl) (simp add: nth_list_update eq_nat_nat_iff)
    finally show ?thesis using False ring_length_less [of s] by (simp add: ring_contents_def)
  qed
qed

lemma keyboard_take_ring:
  assumes ok: "ring_ok s" and ne: "ring_length s \<noteq> 0"
  shows "ring_ok (snd (keyboard_take s))"
    and "ring_contents s = fst (keyboard_take s) # ring_contents (snd (keyboard_take s))"
proof -
  let ?h = "buffer_head s" and ?t = "buffer_tail s" and ?s' = "snd (keyboard_take s)"
  have b: "length (keyboard_buffer s) = 256" "0 \<le> ?h" "?h < 256" "0 \<le> ?t" "?t < 256"
    using ok by (auto simp: ring_ok_def)
  have s': "buffer_head ?s' = ?h" "buffer_tail ?s' = (?t + 1) mod 256" "keyboard_buffer ?s' = keyboard_buffer s"
    using b by (simp_all add: keyboard_take_def ring_next wrap_up Let_def)
  show ok': "ring_ok ?s'" using ok s' by (simp add: ring_ok_def)
  have len: "ring_length s = Suc (ring_length ?s')"
    using ne ring_length_eq [OF ok] ring_length_eq [OF ok'] b s' by (auto simp: wrap_up split: if_splits)
  have "ring_contents s = keyboard_buffer s ! nat (?t mod 256)
      # map (\<lambda>i. keyboard_buffer s ! nat ((?t + int i) mod 256)) (map Suc [0..<ring_length ?s'])"
    unfolding ring_contents_def len by (simp only: upt_conv_Cons map_Suc_upt) simp
  also have "map (\<lambda>i. keyboard_buffer s ! nat ((?t + int i) mod 256)) (map Suc [0..<ring_length ?s'])
      = ring_contents ?s'"
    unfolding ring_contents_def s' map_map comp_def by (simp add: mod_simps algebra_simps)
  finally show "ring_contents s = fst (keyboard_take s) # ring_contents ?s'"
    using b by (simp add: keyboard_take_def Let_def mod_pos_pos_trivial)
qed

interpretation kbq: bounded_queue ring_ok ring_contents "\<lambda>c. c \<noteq> 0" 255 keyboard_push keyboard_poll
proof unfold_locales
  fix s :: "('d, 'z) keyboard_scheme" and x :: u8
  assume ok: "ring_ok s"
  show "length (ring_contents s) \<le> 255" using ring_length_less [of s] by (simp add: ring_contents_def)
  show "case ring_contents s of [] \<Rightarrow> keyboard_poll s = None
      | x # xs \<Rightarrow> \<exists>s'. keyboard_poll s = Some (x, s') \<and> ring_ok s' \<and> ring_contents s' = xs"
  proof (cases "ring_length s = 0")
    case True
    then show ?thesis using ring_empty_iff [OF ok] by (simp add: ring_contents_def keyboard_poll_def)
  next
    case False
    then show ?thesis
      using ring_empty_iff [OF ok] keyboard_take_ring [OF ok False]
      by (cases "keyboard_take s") (simp add: keyboard_poll_def)
  qed
  assume "x \<noteq> 0"
  then show "ring_ok (keyboard_push x s)" "ring_contents (keyboard_push x s)
    = (if length (ring_contents s) < 255 then ring_contents s @ [x] else ring_contents s)"
    using buffer_put_ring [OF ok, of x] by (simp_all add: keyboard_push_def)
qed

section \<open>Key strokes\<close>

text \<open>A controller with the scan codes still to be read: bit 0 of the status says that there is
  one, and reading the data port takes it.\<close>

definition kbd_io :: "u8 list port_io" where
  "kbd_io = \<lparr>inb = (\<lambda>d p. if p = 0x64 then (if d = [] then 0 else 1, d)
        else if p = 0x60 then (case d of [] \<Rightarrow> (0, []) | c # cs \<Rightarrow> (c, cs)) else (0, d)),
     outb = (\<lambda>d p v. d), inw = (\<lambda>d p. (0, d)), outw = (\<lambda>d p v. d)\<rparr>"

text \<open>What a sequence of scan codes means: the characters typed, with the state of Shift.\<close>

fun typed :: "bool \<Rightarrow> u8 list \<Rightarrow> u8 list" where
  "typed shift [] = []"
| "typed shift (k # ks) =
     (if k \<in> {0x2A, 0x36} then typed True ks
      else if k \<in> {0xAA, 0xB6} then typed False ks
      else if unat k < 123 then
        (let c = (if shift then scancode_ascii_shift else scancode_ascii) ! unat k
         in if c = 0 then typed shift ks else c # typed shift ks)
      else typed shift ks)"

fun interrupts :: "nat \<Rightarrow> (u8 list, 'z) keyboard_scheme \<Rightarrow> (u8 list, 'z) keyboard_scheme option" where
  "interrupts 0 s = Some s"
| "interrupts (Suc n) s = keyboard_handler kbd_io s \<bind> interrupts n"

lemma ps2_read_kbd: "dev s = k # ks \<Longrightarrow> ps2_read_data kbd_io s = Some (k, s\<lparr>dev := ks\<rparr>)"
proof -
  assume d: "dev s = k # ks"
  have "ps2_wait_read kbd_io s = Some s"
    by (subst ps2_wait_read.simps) (simp add: port_byte_in_def kbd_io_def d ps2_consts)
  then show ?thesis by (simp add: ps2_read_data_def port_byte_in_def kbd_io_def d ps2_consts)
qed

lemma scancode_length: "length scancode_ascii = 123"
  by (simp add: scancode_ascii_def)

lemma unat_u8_less: "unat (k :: u8) < 256"
  using unsigned_less [of k] by simp

lemma release_codes:
  fixes k :: u8
  shows "k AND 0x80 \<noteq> 0 \<longleftrightarrow> 128 \<le> unat k"
    and "128 \<le> unat k \<Longrightarrow> k AND 0x7F = LSHIFT \<longleftrightarrow> k = 0xAA"
    and "128 \<le> unat k \<Longrightarrow> k AND 0x7F = RSHIFT \<longleftrightarrow> k = 0xB6"
proof -
  have "(0x7F :: u8) = mask 7" by (simp add: mask_eq_exp_minus_1)
  then have low: "unat (k AND 0x7F) = unat k mod 128"
    by (simp only: take_bit_eq_mask [symmetric] unsigned_take_bit_eq) (simp add: take_bit_eq_mod)
  have "k AND 2 ^ 7 = 0 \<longleftrightarrow> \<not> bit k 7" by (rule and_exp_eq_0_iff_not_bit)
  moreover have "bit k 7 \<longleftrightarrow> odd (unat k div 2 ^ 7)"
    using bit_iff_odd [of "unat k" 7] bit_unsigned_iff [where 'a = nat, of k 7] by simp
  moreover have "odd (unat k div 128) \<longleftrightarrow> 128 \<le> unat k"
  proof (cases "128 \<le> unat k")
    case True
    then have "unat k div 128 = 1" using unat_u8_less [of k] by (intro div_nat_eqI) auto
    then show ?thesis using True by simp
  qed simp
  ultimately show "k AND 0x80 \<noteq> 0 \<longleftrightarrow> 128 \<le> unat k" by simp
  assume "128 \<le> unat k"
  then have "unat k mod 128 = unat k - 128"
    using unat_u8_less [of k] by (simp add: le_mod_geq)
  then show "k AND 0x7F = LSHIFT \<longleftrightarrow> k = 0xAA" "k AND 0x7F = RSHIFT \<longleftrightarrow> k = 0xB6"
    using low \<open>128 \<le> unat k\<close> by (auto simp: word_unat_eq_iff keyboard_consts)
qed

text \<open>One interrupt: the state of Shift after scan code \<open>k\<close>, and the character it adds, if any.\<close>

definition shift_after :: "bool \<Rightarrow> u8 \<Rightarrow> bool" where
  "shift_after shift k = (k \<in> {0x2A, 0x36} \<or> k \<notin> {0xAA, 0xB6} \<and> shift)"

definition key_chars :: "bool \<Rightarrow> u8 \<Rightarrow> u8 list" where
  "key_chars shift k = typed shift [k]"

lemma typed_Cons: "typed shift (k # ks) = key_chars shift k @ typed (shift_after shift k) ks"
  by (auto simp: key_chars_def shift_after_def Let_def)

lemma key_chars_nonzero: "c \<in> set (key_chars shift k) \<Longrightarrow> c \<noteq> 0"
  by (auto simp: key_chars_def Let_def split: if_splits)

lemma keyboard_handler_step:
  assumes d: "dev s = k # ks" and ok: "ring_ok s"
  shows "\<exists>s'. keyboard_handler kbd_io s = Some s' \<and> dev s' = ks \<and> ring_ok s'
    \<and> shift_active s' = shift_after (shift_active s) k
    \<and> ring_contents s' = ring_contents s @ take (255 - length (ring_contents s)) (key_chars (shift_active s) k)"
proof -
  let ?s1 = "s\<lparr>dev := ks\<rparr>"
  have ok1: "ring_ok (?s1\<lparr>shift_active := b\<rparr>)" "ring_contents (?s1\<lparr>shift_active := b\<rparr>) = ring_contents s"
    "ring_ok ?s1" "ring_contents ?s1 = ring_contents s" for b
    using ok by (simp_all add: ring_ok_def ring_contents_def ring_length_def)
  have put: "dev (buffer_put c ?s1) = ks" "shift_active (buffer_put c ?s1) = shift_active s" for c
    by (simp_all add: buffer_put_def Let_def)
  have len: "length (ring_contents s) \<le> 255" using kbq.below_cap [OF ok] .
  note run = ps2_read_kbd [OF d]
  consider (release) "128 \<le> unat k" | (shift) "unat k < 128" "k = LSHIFT \<or> k = RSHIFT"
    | (key) "unat k < 123" "k \<noteq> LSHIFT" "k \<noteq> RSHIFT"
    | (none) "123 \<le> unat k" "unat k < 128" "k \<noteq> LSHIFT" "k \<noteq> RSHIFT" by linarith
  then show ?thesis
  proof cases
    case release
    then show ?thesis
      using release_codes [of k] ok1
      by (auto simp: keyboard_handler_def run key_chars_def shift_after_def keyboard_consts Let_def)
  next
    case shift
    then show ?thesis
      using release_codes(1) [of k] ok1
      by (auto simp: keyboard_handler_def run key_chars_def shift_after_def keyboard_consts Let_def)
  next
    case key
    define c where "c = (if shift_active s then scancode_ascii_shift ! unat k else scancode_ascii ! unat k)"
    have "k \<noteq> 0xAA" "k \<noteq> 0xB6" using key(1) by auto
    then have k: "key_chars (shift_active s) k = (if c = 0 then [] else [c])"
      "shift_after (shift_active s) k = shift_active s"
      using key by (auto simp: key_chars_def shift_after_def c_def keyboard_consts Let_def)
    have "\<not> 128 \<le> unat k" using key(1) by simp
    then have "keyboard_handler kbd_io s = Some (if c \<noteq> 0 then buffer_put c ?s1 else ?s1)"
      using release_codes(1) [of k] key
      by (simp add: keyboard_handler_def run scancode_length c_def Let_def)
    then show ?thesis
      using buffer_put_ring [OF ok1(3), of c] put len by (auto simp: k ok1(3,4))
  next
    case none
    then have "k \<noteq> 0xAA" "k \<noteq> 0xB6" "\<not> unat k < 123" by auto
    then show ?thesis
      using none release_codes(1) [of k] ok1
      by (auto simp: keyboard_handler_def run key_chars_def shift_after_def keyboard_consts
          scancode_length Let_def)
  qed
qed

lemma interrupts_typed:
  assumes "dev s = ks" "ring_ok s"
  shows "\<exists>s'. interrupts (length ks) s = Some s' \<and> ring_ok s' \<and> dev s' = []
    \<and> ring_contents s'
      = ring_contents s @ take (255 - length (ring_contents s)) (typed (shift_active s) ks)"
  using assms
proof (induction ks arbitrary: s)
  case (Cons k ks)
  obtain s1 where s1: "keyboard_handler kbd_io s = Some s1" "dev s1 = ks" "ring_ok s1"
    "shift_active s1 = shift_after (shift_active s) k"
    "ring_contents s1 = ring_contents s @ take (255 - length (ring_contents s)) (key_chars (shift_active s) k)"
    using keyboard_handler_step [OF Cons.prems] by blast
  from Cons.IH [OF s1(2,3)] show ?case
    using s1 by (auto simp: typed_Cons min_def simp del: typed.simps)
qed simp


section \<open>The interrupt handler and the reader, interleaved\<close>

text \<open>\<open>keyboard_getc\<close> runs with interrupts enabled: between the load of the character and the
  update of \<open>buffer_tail\<close> the handler (or a syscall) may add characters. A step is one access
  of the reader or one whole \<open>buffer_put\<close>, which runs with interrupts disabled.\<close>

datatype reader = Testing | Loaded u8
datatype event = Accepted u8 | Dropped u8 | Delivered u8 | Silent

inductive ring_step ::
  "('d, 'z) keyboard_scheme \<times> reader \<Rightarrow> event \<Rightarrow> ('d, 'z) keyboard_scheme \<times> reader \<Rightarrow> bool" where
  accept: "(buffer_head s + 1) smod BUFFER_SIZE \<noteq> buffer_tail s \<Longrightarrow>
    ring_step (s, r) (Accepted c) (buffer_put c s, r)"
| drop: "(buffer_head s + 1) smod BUFFER_SIZE = buffer_tail s \<Longrightarrow>
    ring_step (s, r) (Dropped c) (buffer_put c s, r)"
| wait: "buffer_head s = buffer_tail s \<Longrightarrow> ring_step (s, Testing) Silent (s, Testing)"
| load: "buffer_head s \<noteq> buffer_tail s \<Longrightarrow>
    ring_step (s, Testing) Silent (s, Loaded (fst (keyboard_take s)))"
| advance: "ring_step (s, Loaded c) (Delivered c) (snd (keyboard_take s), Testing)"

inductive ring_steps ::
  "('d, 'z) keyboard_scheme \<times> reader \<Rightarrow> event list \<Rightarrow> ('d, 'z) keyboard_scheme \<times> reader \<Rightarrow> bool" where
  ring_start: "ring_steps p [] p"
| ring_more: "ring_steps p es q \<Longrightarrow> ring_step q e r \<Longrightarrow> ring_steps p (es @ [e]) r"

inductive_cases ring_stepE: "ring_step p e q"

fun accepted :: "event list \<Rightarrow> u8 list" where
  "accepted [] = []"
| "accepted (Accepted c # es) = c # accepted es"
| "accepted (_ # es) = accepted es"

fun delivered :: "event list \<Rightarrow> u8 list" where
  "delivered [] = []"
| "delivered (Delivered c # es) = c # delivered es"
| "delivered (_ # es) = delivered es"

lemma accepted_append [simp]: "accepted (xs @ ys) = accepted xs @ accepted ys"
  by (induction xs rule: accepted.induct) auto

lemma delivered_append [simp]: "delivered (xs @ ys) = delivered xs @ delivered ys"
  by (induction xs rule: delivered.induct) auto

text \<open>The reader never holds a character that is not the oldest one in the buffer.\<close>

definition reader_ok :: "('d, 'z) keyboard_scheme \<times> reader \<Rightarrow> bool" where
  "reader_ok = (\<lambda>(s, r). ring_ok s \<and> (\<forall>c. r = Loaded c \<longrightarrow> (\<exists>cs. ring_contents s = c # cs)))"

lemma ring_step_inv:
  assumes "ring_step p e q" "reader_ok p"
  shows "reader_ok q \<and> ring_contents (fst p) @ accepted [e] = delivered [e] @ ring_contents (fst q)"
  using assms
proof (cases rule: ring_step.cases)
  case (accept s r c)
  then have ok: "ring_ok s" using assms(2) by (simp add: reader_ok_def)
  have "length (ring_contents s) < 255"
    using accept ring_full_iff [OF ok] kbq.below_cap [OF ok] by (simp add: ring_contents_def)
  then show ?thesis
    using accept assms(2) buffer_put_ring [OF ok, of c] by (auto simp: reader_ok_def)
next
  case (drop s r c)
  then have "buffer_put c s = s" by (simp add: buffer_put_def Let_def)
  then show ?thesis using drop assms(2) by (auto simp: reader_ok_def)
next
  case (wait s)
  then show ?thesis using assms(2) by (auto simp: reader_ok_def)
next
  case (load s)
  then have ok: "ring_ok s" using assms(2) by (simp add: reader_ok_def)
  then show ?thesis
    using load keyboard_take_ring [OF ok] ring_empty_iff [OF ok] by (auto simp: reader_ok_def)
next
  case (advance s c)
  then have ok: "ring_ok s" and "\<exists>cs. ring_contents s = c # cs" using assms(2) by (auto simp: reader_ok_def)
  then have "length (ring_contents s) \<noteq> 0" by auto
  then have "ring_length s \<noteq> 0" by (simp add: ring_contents_def)
  then show ?thesis
    using advance keyboard_take_ring [OF ok] \<open>\<exists>cs. _ = c # cs\<close> by (auto simp: reader_ok_def)
qed

lemma ring_steps_inv:
  assumes "ring_steps p es q" "reader_ok p"
  shows "reader_ok q \<and> ring_contents (fst p) @ accepted es = delivered es @ ring_contents (fst q)"
  using assms
proof (induction rule: ring_steps.induct)
  case (ring_more p es q e r)
  then show ?case using ring_step_inv [OF ring_more.hyps(2)] by (metis accepted_append append.assoc delivered_append)
qed simp

section \<open>Properties\<close>

definition boot_keyboard :: "'d \<Rightarrow> 'd keyboard" where
  "boot_keyboard d = cpu.extend (boot_cpu d) \<lparr>keyboard_buffer = replicate 256 0, buffer_head = 0,
     buffer_tail = 0, shift_active = False\<rparr>"

lemma boot_keyboard_simps [simp]:
  "keyboard_buffer (boot_keyboard d) = replicate 256 0" "buffer_head (boot_keyboard d) = 0"
  "buffer_tail (boot_keyboard d) = 0" "shift_active (boot_keyboard d) = False" "dev (boot_keyboard d) = d"
  by (simp_all add: boot_keyboard_def cpu.extend_def boot_cpu_def)

lemma boot_keyboard_ok: "ring_ok (boot_keyboard d)" "ring_contents (boot_keyboard d) = []"
  by (simp_all add: ring_ok_def ring_contents_def ring_length_def)

text \<open>C12: no interleaving of the interrupt handler with the reader loses, repeats or reorders a
  character: what the reader has been given followed by what is in the buffer is always what was
  there at the start followed by what the handler accepted; and the buffer stays well formed.\<close>

theorem keyboard_fifo:
  assumes "ring_steps (s, Testing) es (s', r)" and "ring_ok s"
  shows "ring_contents s @ accepted es = delivered es @ ring_contents s' \<and> ring_ok s'"
  using ring_steps_inv [OF assms(1)] assms(2) by (simp add: reader_ok_def)

theorem keyboard_fifo_witness:
  "\<exists>s'. ring_steps (boot_keyboard (), Testing) [Accepted 65, Silent, Accepted 66, Delivered 65] (s', Testing)
    \<and> ring_contents s' = [66]"
proof -
  let ?s0 = "boot_keyboard ()"
  let ?s1 = "buffer_put 65 ?s0"
  let ?s2 = "buffer_put 66 ?s1"
  have s1: "buffer_head ?s1 = 1" "buffer_tail ?s1 = 0" "keyboard_buffer ?s1 = (replicate 256 0)[0 := 65]"
    by (simp_all add: buffer_put_def smod_nonneg BUFFER_SIZE_def Let_def)
  have t: "fst (keyboard_take ?s1) = 65" by (simp add: keyboard_take_def s1)
  have "ring_steps (?s0, Testing) [Accepted 65] (?s1, Testing)"
    using ring_more [OF ring_start accept, of ?s0 Testing 65] by (simp add: smod_nonneg BUFFER_SIZE_def)
  then have "ring_steps (?s0, Testing) ([Accepted 65] @ [Silent]) (?s1, Loaded (fst (keyboard_take ?s1)))"
    by (rule ring_more) (rule load, simp add: s1)
  then have "ring_steps (?s0, Testing) (([Accepted 65] @ [Silent]) @ [Accepted 66]) (?s2, Loaded 65)"
    unfolding t by (rule ring_more) (rule accept, simp add: s1 smod_nonneg BUFFER_SIZE_def)
  from ring_more [OF this advance] have st: "ring_steps (?s0, Testing) [Accepted 65, Silent, Accepted 66, Delivered 65]
    (snd (keyboard_take ?s2), Testing)" by simp
  from keyboard_fifo [OF this boot_keyboard_ok(1)] show ?thesis
    using st by (auto simp: boot_keyboard_ok)
qed

text \<open>C32: after the interrupts for any sequence of scan codes the buffer holds, behind what was in
  it, the characters typed, with Shift taken into account, up to its capacity of 255.\<close>

theorem keyboard_interrupts_type:
  assumes "dev s = ks" and "ring_ok s"
  shows "\<exists>s'. interrupts (length ks) s = Some s' \<and> ring_ok s' \<and> ring_contents s'
      = ring_contents s @ take (255 - length (ring_contents s)) (typed (shift_active s) ks)"
  using interrupts_typed [OF assms] by blast

theorem keyboard_interrupts_type_witness:
  "\<exists>s'. interrupts (length [0x2A, 0x26, 0xAA, 0x1F, 0x9F, 0x1C :: u8]) (boot_keyboard [0x2A, 0x26, 0xAA, 0x1F, 0x9F, 0x1C]) = Some s'
    \<and> ring_contents s' = [76, 115, 10]"
  using keyboard_interrupts_type [OF refl, of "boot_keyboard [0x2A, 0x26, 0xAA, 0x1F, 0x9F, 0x1C]"]
  by (auto simp: boot_keyboard_ok scancode_ascii_def scancode_ascii_shift_def nth_append
      simp del: interrupts.simps)

text \<open>The Delete key cannot be typed: 0x7F is the entry for scan code 0x7A, and the scan code
  0x53 of the Delete key stands for no character.\<close>

theorem keyboard_no_delete:
  "key_chars shift 0x53 = [] \<and> key_chars shift 0x7A = [0x7F]"
  by (simp add: key_chars_def scancode_ascii_def scancode_ascii_shift_def nth_append)


lemma keyboard_wait_until:
  assumes "\<forall>i<k. hlt (f i) = Some (f (Suc i)) \<and> buffer_head (f i) = buffer_tail (f i)"
    and "buffer_head (f k) \<noteq> buffer_tail (f k)"
  shows "keyboard_wait hlt (f 0) = Some (f k)"
  using assms
proof (induction k arbitrary: f)
  case 0
  then show ?case by (subst keyboard_wait.simps) simp
next
  case (Suc k)
  have "keyboard_wait hlt (f (Suc 0)) = Some (f (Suc k))"
    using Suc.IH [of "\<lambda>i. f (Suc i)"] Suc.prems by simp
  then show ?case using Suc.prems by (subst keyboard_wait.simps) simp
qed

text \<open>C33: \<open>keyboard_getc\<close> sleeps through interrupts that add nothing and returns the oldest
  character of the buffer as soon as there is one, which it removes.\<close>

theorem keyboard_getc_returns:
  assumes "\<forall>i<k. hlt (f i) = Some (f (Suc i)) \<and> ring_ok (f i) \<and> ring_contents (f i) = []"
    and "ring_ok (f k)" and "ring_contents (f k) = c # cs"
  shows "\<exists>s'. keyboard_getc hlt (f 0) = Some (c, s') \<and> ring_ok s' \<and> ring_contents s' = cs"
proof -
  have "buffer_head (f i) = buffer_tail (f i)" if "i < k" for i
    using assms(1) that ring_empty_iff [of "f i"] by (simp add: ring_contents_def)
  moreover have ne: "ring_length (f k) \<noteq> 0"
    using arg_cong [OF assms(3), of length] by (simp add: ring_contents_def)
  ultimately have "keyboard_wait hlt (f 0) = Some (f k)"
    using assms(1) ring_empty_iff [OF assms(2)] by (intro keyboard_wait_until) auto
  then show ?thesis
    using keyboard_take_ring [OF assms(2) ne] assms(3)
    by (cases "keyboard_take (f k)") (simp add: keyboard_getc_def)
qed

theorem keyboard_getc_returns_witness:
  "\<exists>s'. keyboard_getc (\<lambda>s. Some (keyboard_push 104 s)) (boot_keyboard ()) = Some (104, s')"
proof -
  let ?f = "\<lambda>i :: nat. if i = 0 then boot_keyboard () else keyboard_push 104 (boot_keyboard ())"
  have "ring_ok (keyboard_push 104 (boot_keyboard ()))"
    "ring_contents (keyboard_push 104 (boot_keyboard ())) = [104]"
    using kbq.enq_inv [of "boot_keyboard ()" 104] kbq.enq_contents [of "boot_keyboard ()" 104]
    by (simp_all add: boot_keyboard_ok)
  then show ?thesis
    using keyboard_getc_returns [of 1 "\<lambda>s. Some (keyboard_push 104 s)" ?f 104 "[]"]
    by (auto simp: boot_keyboard_ok)
qed

end
