(* ===== verification/Ata.thy ===== *)
theory Ata
  imports Machine
begin

text \<open>
  The ATA driver in PIO mode, \<open>src/drivers/ata.c\<close>, and a model of the drives behind its
  ports, as the ATA documents describe them: registers, a busy phase after each command,
  a data phase of 256 words, an error for a sector that does not exist.
\<close>

section \<open>The driver\<close>

definition ATA_PRIMARY_DATA :: u16 where "ATA_PRIMARY_DATA = 0x1F0"
definition ATA_PRIMARY_SEC_COUNT :: u16 where "ATA_PRIMARY_SEC_COUNT = 0x1F2"
definition ATA_PRIMARY_LBA_LOW :: u16 where "ATA_PRIMARY_LBA_LOW = 0x1F3"
definition ATA_PRIMARY_LBA_MID :: u16 where "ATA_PRIMARY_LBA_MID = 0x1F4"
definition ATA_PRIMARY_LBA_HIGH :: u16 where "ATA_PRIMARY_LBA_HIGH = 0x1F5"
definition ATA_PRIMARY_DRIVE_SEL :: u16 where "ATA_PRIMARY_DRIVE_SEL = 0x1F6"
definition ATA_PRIMARY_COMMAND :: u16 where "ATA_PRIMARY_COMMAND = 0x1F7"
definition ATA_PRIMARY_STATUS :: u16 where "ATA_PRIMARY_STATUS = 0x1F7"
definition ATA_CMD_READ_PIO :: u8 where "ATA_CMD_READ_PIO = 0x20"
definition ATA_CMD_WRITE_PIO :: u8 where "ATA_CMD_WRITE_PIO = 0x30"
definition ATA_STATUS_BSY :: u8 where "ATA_STATUS_BSY = 0x80"
definition ATA_STATUS_DRQ :: u8 where "ATA_STATUS_DRQ = 0x08"
definition ATA_STATUS_ERR :: u8 where "ATA_STATUS_ERR = 0x01"

lemmas ata_consts =
  ATA_PRIMARY_DATA_def ATA_PRIMARY_SEC_COUNT_def ATA_PRIMARY_LBA_LOW_def ATA_PRIMARY_LBA_MID_def
  ATA_PRIMARY_LBA_HIGH_def ATA_PRIMARY_DRIVE_SEL_def ATA_PRIMARY_COMMAND_def ATA_PRIMARY_STATUS_def
  ATA_CMD_READ_PIO_def ATA_CMD_WRITE_PIO_def ATA_STATUS_BSY_def ATA_STATUS_DRQ_def ATA_STATUS_ERR_def

definition ata_get_status :: "'d port_io \<Rightarrow> ('d, 'z) machine_scheme \<Rightarrow> u8 \<times> ('d, 'z) machine_scheme" where
  "ata_get_status io s = port_byte_in io ATA_PRIMARY_STATUS s"

definition ata_io_wait :: "'d port_io \<Rightarrow> ('d, 'z) machine_scheme \<Rightarrow> ('d, 'z) machine_scheme" where
  "ata_io_wait io s =
     (let (_, s) = port_byte_in io ATA_PRIMARY_STATUS s;
          (_, s) = port_byte_in io ATA_PRIMARY_STATUS s;
          (_, s) = port_byte_in io ATA_PRIMARY_STATUS s;
          (_, s) = port_byte_in io ATA_PRIMARY_STATUS s
      in s)"

fun ata_wait_for ::
  "'d port_io \<Rightarrow> u8 \<Rightarrow> u8 \<Rightarrow> nat \<Rightarrow> ('d, 'z) machine_scheme \<Rightarrow> int \<times> ('d, 'z) machine_scheme" where
  "ata_wait_for io msk value 0 s = (-2, s)"
| "ata_wait_for io msk value (Suc timeout) s =
     (let (status, s) = ata_get_status io s
      in if status AND msk = value then (0, s)
         else if status AND ATA_STATUS_ERR \<noteq> 0 then (-1, s)
         else ata_wait_for io msk value timeout (ata_io_wait io s))"

partial_function (option) ata_wait_bsy ::
  "'d port_io \<Rightarrow> ('d, 'z) machine_scheme \<Rightarrow> ('d, 'z) machine_scheme option" where
  "ata_wait_bsy io s =
     (let (status, s) = ata_get_status io s
      in if status AND ATA_STATUS_BSY \<noteq> 0 then ata_wait_bsy io s else Some s)"

fun ata_discard :: "'d port_io \<Rightarrow> nat \<Rightarrow> ('d, 'z) machine_scheme \<Rightarrow> ('d, 'z) machine_scheme" where
  "ata_discard io 0 s = s"
| "ata_discard io (Suc n) s = ata_discard io n (snd (port_word_in io ATA_PRIMARY_DATA s))"

definition ata_identify ::
  "'d port_io \<Rightarrow> ('d, 'z) machine_scheme \<Rightarrow> (int \<times> ('d, 'z) machine_scheme) option" where
  "ata_identify io s = do {
     s \<leftarrow> ata_wait_bsy io s;
     let s = port_byte_out io ATA_PRIMARY_DRIVE_SEL 0xA0 s;
     let s = ata_io_wait io s;
     let s = port_byte_out io ATA_PRIMARY_SEC_COUNT 0 s;
     let s = port_byte_out io ATA_PRIMARY_LBA_LOW 0 s;
     let s = port_byte_out io ATA_PRIMARY_LBA_MID 0 s;
     let s = port_byte_out io ATA_PRIMARY_LBA_HIGH 0 s;
     let s = port_byte_out io ATA_PRIMARY_COMMAND 0xEC s;
     let s = ata_io_wait io s;
     let (status, s) = ata_get_status io s;
     if status = 0 then Some (-1, s)
     else
       let (r, s) = ata_wait_for io ATA_STATUS_BSY 0 10000 s
       in if r < 0 then Some (-3, s)
       else
         let (mid, s) = port_byte_in io ATA_PRIMARY_LBA_MID s;
             (high, s) = port_byte_in io ATA_PRIMARY_LBA_HIGH s
         in if mid \<noteq> 0 \<or> high \<noteq> 0 then Some (-2, s)
         else
           let (r, s) = ata_wait_for io ATA_STATUS_DRQ ATA_STATUS_DRQ 10000 s
           in if r < 0 then Some (-4, s)
           else Some (0, ata_discard io 256 s)
   }"

text \<open>The register writes that both transfers start with.\<close>

definition ata_select ::
  "'d port_io \<Rightarrow> int \<Rightarrow> u32 \<Rightarrow> ('d, 'z) machine_scheme \<Rightarrow> ('d, 'z) machine_scheme" where
  "ata_select io drive lba s =
     (let drive_bit = (if drive = 0 then 0x00 else 0x10);
          s = port_byte_out io ATA_PRIMARY_DRIVE_SEL (0xE0 OR drive_bit OR ucast (drop_bit 24 lba AND 0x0F)) s;
          s = port_byte_out io ATA_PRIMARY_SEC_COUNT 1 s;
          s = port_byte_out io ATA_PRIMARY_LBA_LOW (ucast lba) s;
          s = port_byte_out io ATA_PRIMARY_LBA_MID (ucast (drop_bit 8 lba)) s
      in port_byte_out io ATA_PRIMARY_LBA_HIGH (ucast (drop_bit 16 lba)) s)"

fun ata_read_words ::
  "'d port_io \<Rightarrow> nat list \<Rightarrow> u16 list \<Rightarrow> ('d, 'z) machine_scheme \<Rightarrow> u16 list \<times> ('d, 'z) machine_scheme" where
  "ata_read_words io [] buffer s = (buffer, s)"
| "ata_read_words io (i # is) buffer s =
     (let (w, s) = port_word_in io ATA_PRIMARY_DATA s in ata_read_words io is (buffer[i := w]) s)"

definition ata_read_sector ::
  "'d port_io \<Rightarrow> int \<Rightarrow> u32 \<Rightarrow> u16 list \<Rightarrow> ('d, 'z) machine_scheme
    \<Rightarrow> (int \<times> u16 list \<times> ('d, 'z) machine_scheme) option" where
  "ata_read_sector io drive lba buffer s = do {
     s \<leftarrow> ata_wait_bsy io s;
     let s = ata_select io drive lba s;
     let s = port_byte_out io ATA_PRIMARY_COMMAND ATA_CMD_READ_PIO s;
     let s = ata_io_wait io s;
     let (r, s) = ata_wait_for io ATA_STATUS_BSY 0 10000 s;
     if r < 0 then Some (-1, buffer, s)
     else
       let (r, s) = ata_wait_for io ATA_STATUS_DRQ ATA_STATUS_DRQ 10000 s
       in if r < 0 then Some (-2, buffer, s)
       else
         let (buffer, s) = ata_read_words io [0..<256] buffer s
         in Some (0, buffer, s)
   }"

fun ata_write_words ::
  "'d port_io \<Rightarrow> nat list \<Rightarrow> u16 list \<Rightarrow> ('d, 'z) machine_scheme \<Rightarrow> ('d, 'z) machine_scheme" where
  "ata_write_words io [] buffer s = s"
| "ata_write_words io (i # is) buffer s =
     ata_write_words io is buffer (port_word_out io ATA_PRIMARY_DATA (buffer ! i) s)"

definition ata_write_sector ::
  "'d port_io \<Rightarrow> int \<Rightarrow> u32 \<Rightarrow> u16 list \<Rightarrow> ('d, 'z) machine_scheme
    \<Rightarrow> (int \<times> ('d, 'z) machine_scheme) option" where
  "ata_write_sector io drive lba buffer s = do {
     s \<leftarrow> ata_wait_bsy io s;
     let s = ata_select io drive lba s;
     let s = port_byte_out io ATA_PRIMARY_COMMAND ATA_CMD_WRITE_PIO s;
     let s = ata_io_wait io s;
     let (r, s) = ata_wait_for io ATA_STATUS_BSY 0 10000 s;
     if r < 0 then Some (-1, s)
     else
       let (r, s) = ata_wait_for io ATA_STATUS_DRQ ATA_STATUS_DRQ 10000 s
       in if r < 0 then Some (-2, s)
       else do {
         let s = ata_write_words io [0..<256] buffer s;
         let s = port_byte_out io ATA_PRIMARY_COMMAND 0xE7 s;
         s \<leftarrow> ata_wait_bsy io s;
         Some (0, s)
       }
   }"

section \<open>The drives\<close>

text \<open>\<open>ata_img\<close> gives the 256 words of a sector of the master (\<open>False\<close>) or slave drive,
  \<open>ata_size\<close> their number of sectors. A command keeps the drive busy for \<open>ata_delay\<close> readings
  of the status.\<close>

record ata =
  ata_img :: "bool \<Rightarrow> nat \<Rightarrow> u16 list"
  ata_size :: "bool \<Rightarrow> nat"
  ata_delay :: nat
  ata_busy :: nat
  ata_sel :: u8
  ata_low :: u8
  ata_mid :: u8
  ata_high :: u8
  ata_err :: bool
  ata_data :: "u16 list"
  ata_target :: "(bool \<times> nat) option"

definition ata_status :: "ata \<Rightarrow> u8" where
  "ata_status d = (if ata_busy d > 0 then 0x80 else if ata_err d then 0x41
     else if ata_data d \<noteq> [] \<or> ata_target d \<noteq> None then 0x48 else 0x40)"

definition ata_tick :: "ata \<Rightarrow> ata" where
  "ata_tick d = d\<lparr>ata_busy := ata_busy d - 1\<rparr>"

definition ata_lba :: "ata \<Rightarrow> nat" where
  "ata_lba d = unat (ucast (ata_low d) OR push_bit 8 (ucast (ata_mid d))
     OR push_bit 16 (ucast (ata_high d)) OR push_bit 24 (ucast (ata_sel d AND 0x0F)) :: u32)"

definition ata_drive :: "ata \<Rightarrow> bool" where
  "ata_drive d = bit (ata_sel d) 4"

definition ata_command :: "u8 \<Rightarrow> ata \<Rightarrow> ata" where
  "ata_command v d =
     (let d = d\<lparr>ata_busy := ata_delay d, ata_err := False, ata_data := [], ata_target := None\<rparr>;
          drive = ata_drive d; lba = ata_lba d
      in if v = 0x20 then
           (if lba < ata_size d drive then d\<lparr>ata_data := ata_img d drive lba\<rparr> else d\<lparr>ata_err := True\<rparr>)
         else if v = 0x30 then
           (if lba < ata_size d drive then d\<lparr>ata_target := Some (drive, lba)\<rparr> else d\<lparr>ata_err := True\<rparr>)
         else if v = 0xEC then d\<lparr>ata_data := replicate 256 0\<rparr>
         else if v = 0xE7 then d
         else d\<lparr>ata_err := True\<rparr>)"

text \<open>Words written in the data phase of a write collect in \<open>ata_data\<close>; the 256th stores them.\<close>

definition ata_put_word :: "u16 \<Rightarrow> ata \<Rightarrow> ata" where
  "ata_put_word w d = (case ata_target d of
     None \<Rightarrow> d
   | Some (drive, lba) \<Rightarrow>
       (let ws = ata_data d @ [w]
        in if length ws = 256
           then d\<lparr>ata_img := (ata_img d)(drive := (ata_img d drive)(lba := ws)), ata_data := [], ata_target := None\<rparr>
           else d\<lparr>ata_data := ws\<rparr>))"

definition ata_io :: "ata port_io" where
  "ata_io = \<lparr>
     inb = (\<lambda>d p. if p = 0x1F7 then (ata_status d, ata_tick d) else if p = 0x1F4 then (ata_mid d, d)
        else if p = 0x1F5 then (ata_high d, d) else (0, d)),
     outb = (\<lambda>d p v. if p = 0x1F3 then d\<lparr>ata_low := v\<rparr> else if p = 0x1F4 then d\<lparr>ata_mid := v\<rparr>
        else if p = 0x1F5 then d\<lparr>ata_high := v\<rparr> else if p = 0x1F6 then d\<lparr>ata_sel := v\<rparr>
        else if p = 0x1F7 then ata_command v d else d),
     inw = (\<lambda>d p. if p = 0x1F0 then (case ata_data d of [] \<Rightarrow> (0, d) | w # ws \<Rightarrow> (w, d\<lparr>ata_data := ws\<rparr>))
        else (0, d)),
     outw = (\<lambda>d p v. if p = 0x1F0 then ata_put_word v d else d)\<rparr>"


section \<open>Waiting\<close>

lemma ata_get_status_eq: "ata_get_status ata_io s = (ata_status (dev s), s\<lparr>dev := ata_tick (dev s)\<rparr>)"
  by (simp add: ata_get_status_def port_byte_in_def ata_io_def ata_consts)

lemma ata_io_wait_eq: "ata_io_wait ata_io s = s\<lparr>dev := (dev s)\<lparr>ata_busy := ata_busy (dev s) - 4\<rparr>\<rparr>"
  by (simp add: ata_io_wait_def port_byte_in_def ata_io_def ata_consts ata_tick_def)

text \<open>Only the state of the devices changes in what follows.\<close>

lemma dev_dev [simp]: "s\<lparr>dev := d\<rparr>\<lparr>dev := d'\<rparr> = s\<lparr>dev := d'\<rparr>" for s :: "('d, 'z) machine_scheme"
  by simp

lemma ata_wait_bsy_eq: "ata_wait_bsy ata_io s = Some (s\<lparr>dev := (dev s)\<lparr>ata_busy := 0\<rparr>\<rparr>)"
proof (induction "ata_busy (dev s)" arbitrary: s)
  case 0
  then show ?case
    by (subst ata_wait_bsy.simps)
      (auto simp: ata_get_status_eq ata_status_def ata_tick_def ata_consts)
next
  case (Suc n)
  then have "ata_wait_bsy ata_io (s\<lparr>dev := ata_tick (dev s)\<rparr>) = Some (s\<lparr>dev := (dev s)\<lparr>ata_busy := 0\<rparr>\<rparr>)"
    using Suc.hyps(1) [of "s\<lparr>dev := ata_tick (dev s)\<rparr>"] by (simp add: ata_tick_def)
  then show ?case
    using Suc.hyps(2) by (subst ata_wait_bsy.simps)
      (simp add: ata_get_status_eq ata_status_def ata_consts)
qed

text \<open>The wait for the end of the busy phase makes five readings per round: \<open>n\<close> rounds are enough
  for a busy phase of \<open>5 * (n - 1)\<close> readings, and not for more.\<close>

lemma ata_wait_not_busy:
  "ata_busy (dev s) < 5 * n - 4 \<Longrightarrow>
    ata_wait_for ata_io 0x80 0 n s = (0, s\<lparr>dev := (dev s)\<lparr>ata_busy := 0\<rparr>\<rparr>)"
proof (induction n arbitrary: s)
  case (Suc n)
  show ?case
  proof (cases "ata_busy (dev s) = 0")
    case True
    then show ?thesis by (simp add: ata_get_status_eq ata_status_def ata_tick_def)
  next
    case False
    then have "ata_busy (dev s) - 5 < 5 * n - 4" using Suc.prems by (cases n) auto
    then show ?thesis
      using Suc.IH [of "s\<lparr>dev := (dev s)\<lparr>ata_busy := ata_busy (dev s) - 5\<rparr>\<rparr>"] False
      by (simp add: ata_get_status_eq ata_status_def ata_tick_def ata_io_wait_eq ata_consts)
  qed
qed simp

lemma ata_wait_timeout:
  "5 * n \<le> ata_busy (dev s) + 4 \<Longrightarrow>
    fst (ata_wait_for ata_io 0x80 0 n s) = -2"
proof (induction n arbitrary: s)
  case (Suc n)
  then have "ata_busy (dev s) \<noteq> 0" "5 * n \<le> ata_busy (dev s) - 5 + 4" by auto
  then show ?case
    using Suc.IH [of "s\<lparr>dev := (dev s)\<lparr>ata_busy := ata_busy (dev s) - 5\<rparr>\<rparr>"]
    by (simp add: ata_get_status_eq ata_status_def ata_tick_def ata_io_wait_eq ata_consts)
qed simp

lemma ata_wait_drq:
  assumes "ata_busy (dev s) = 0"
  shows "ata_data (dev s) \<noteq> [] \<or> ata_target (dev s) \<noteq> None \<Longrightarrow> \<not> ata_err (dev s) \<Longrightarrow>
      ata_wait_for ata_io 8 8 (Suc n) s = (0, s)"
    and "ata_err (dev s) \<Longrightarrow> ata_wait_for ata_io 8 8 (Suc n) s = (-1, s)"
  using assms by (simp_all add: ata_get_status_eq ata_status_def ata_tick_def ata_consts)

section \<open>Addressing\<close>

lemma ata_select_dev:
  "ata_select ata_io drive lba s = s\<lparr>dev := (dev s)\<lparr>
     ata_sel := 0xE0 OR (if drive = 0 then 0x00 else 0x10) OR ucast (drop_bit 24 lba AND 0x0F),
     ata_low := ucast lba, ata_mid := ucast (drop_bit 8 lba), ata_high := ucast (drop_bit 16 lba)\<rparr>\<rparr>"
  by (simp add: ata_select_def port_byte_out_def ata_io_def ata_consts Let_def)

text \<open>The drive finds in its registers the drive and the low 28 bits of the sector number.\<close>

definition selects :: "ata \<Rightarrow> int \<Rightarrow> u32 \<Rightarrow> bool" where
  "selects d drive lba \<longleftrightarrow> ata_lba d = unat (lba AND 0x0FFFFFFF) \<and> ata_drive d = (drive \<noteq> 0)"

lemma ata_select_selects: "selects (dev (ata_select ata_io drive lba s)) drive lba"
proof -
  let ?sel = "0xE0 OR (if drive = 0 then 0x00 else 0x10) OR ucast (drop_bit 24 lba AND 0x0F) :: u8"
  have m: "(0x0F :: u8) = mask 4" "(0x0FFFFFFF :: u32) = mask 28" "(0x0F :: u32) = mask 4"
    by (simp_all add: mask_eq_exp_minus_1)
  have n: "n < 4 \<Longrightarrow> \<not> bit (0xE0 :: int) n \<and> \<not> bit (0x10 :: int) n" for n
  proof -
    assume "n < 4"
    then have "n \<in> {0, 1, 2, 3}" by auto
    then show "\<not> bit (0xE0 :: int) n \<and> \<not> bit (0x10 :: int) n" by auto
  qed
  have low: "bit ?sel n \<longleftrightarrow> bit lba (n + 24)" if "n < 4" for n
    using n [OF that] that by (auto simp: bit_simps m add.commute)
  have "ucast (ucast lba :: u8) OR push_bit 8 (ucast (ucast (drop_bit 8 lba) :: u8))
     OR push_bit 16 (ucast (ucast (drop_bit 16 lba) :: u8)) OR push_bit 24 (ucast (?sel AND 0x0F))
     = (lba AND 0x0FFFFFFF :: u32)"
  proof (rule bit_word_eqI)
    fix i :: nat assume "i < LENGTH(32)"
    then consider "i < 8" | "8 \<le> i" "i < 16" | "16 \<le> i" "i < 24" | "24 \<le> i" "i < 28" | "28 \<le> i" "i < 32"
      by fastforce
    then show "bit (ucast (ucast lba :: u8) OR push_bit 8 (ucast (ucast (drop_bit 8 lba) :: u8))
     OR push_bit 16 (ucast (ucast (drop_bit 16 lba) :: u8)) OR push_bit 24 (ucast (?sel AND 0x0F)) :: u32) i
     = bit (lba AND 0x0FFFFFFF) i"
      using low [of "i - 24"] by cases (auto simp: bit_simps m)
  qed
  moreover have "bit ?sel 4 \<longleftrightarrow> drive \<noteq> 0"
    by (auto simp: bit_simps m)
  ultimately show ?thesis
    by (simp add: selects_def ata_lba_def ata_drive_def ata_select_dev)
qed


section \<open>Transfers\<close>

lemma ata_out_command:
  "port_byte_out ata_io ATA_PRIMARY_COMMAND v s = s\<lparr>dev := ata_command v (dev s)\<rparr>"
  by (simp add: port_byte_out_def ata_io_def ata_consts)

text \<open>Between two commands no transfer is open, and sectors have 256 words.\<close>

definition ata_idle :: "ata \<Rightarrow> bool" where
  "ata_idle d \<longleftrightarrow> ata_data d = [] \<and> ata_target d = None
     \<and> (\<forall>drive lba. length (ata_img d drive lba) = 256)"

text \<open>The same drives with the same contents.\<close>

definition same_disk :: "ata \<Rightarrow> ata \<Rightarrow> bool" where
  "same_disk d d' \<longleftrightarrow> ata_img d' = ata_img d \<and> ata_size d' = ata_size d \<and> ata_delay d' = ata_delay d"

lemma same_disk_trans: "same_disk a b \<Longrightarrow> same_disk b c \<Longrightarrow> same_disk a c"
  by (simp add: same_disk_def)

lemma ata_read_words_eq:
  "ata_data (dev s) = ws \<Longrightarrow> n + length ws \<le> length buf \<Longrightarrow>
    ata_read_words ata_io [n..<n + length ws] buf s
      = (take n buf @ ws @ drop (n + length ws) buf, s\<lparr>dev := (dev s)\<lparr>ata_data := []\<rparr>\<rparr>)"
proof (induction ws arbitrary: n buf s)
  case (Cons w ws)
  have "port_word_in ata_io ATA_PRIMARY_DATA s = (w, s\<lparr>dev := (dev s)\<lparr>ata_data := ws\<rparr>\<rparr>)"
    using Cons.prems(1) by (simp add: port_word_in_def ata_io_def ata_consts)
  moreover have "[n..<n + length (w # ws)] = n # [Suc n..<Suc n + length ws]"
    by (subst upt_rec) simp
  moreover have "take (Suc n) (buf[n := w]) = take n buf @ [w]"
    using Cons.prems(2) by (simp add: take_Suc_conv_app_nth)
  ultimately show ?case
    using Cons.IH [of "s\<lparr>dev := (dev s)\<lparr>ata_data := ws\<rparr>\<rparr>" "Suc n" "buf[n := w]"] Cons.prems(2) by simp
qed simp

lemma ata_wait_for_busy: "ata_wait_for ata_io ATA_STATUS_BSY 0 10000 s = ata_wait_for ata_io 0x80 0 10000 s"
  by (simp only: ata_consts)

lemma ata_wait_for_drq:
  "ata_wait_for ata_io ATA_STATUS_DRQ ATA_STATUS_DRQ 10000 s = ata_wait_for ata_io 8 8 (Suc 9999) s"
  by (simp add: ata_consts del: ata_wait_for.simps)

text \<open>The drive after the command of a transfer has been written and accepted.\<close>

lemma ata_command_eq:
  assumes "selects d drive lba" "v = 0x20 \<or> v = 0x30" "unat lba < 2 ^ 28"
  shows "ata_command v d = d\<lparr>ata_busy := ata_delay d,
    ata_err := \<not> unat lba < ata_size d (drive \<noteq> 0),
    ata_data := (if v = 0x20 \<and> unat lba < ata_size d (drive \<noteq> 0)
      then ata_img d (drive \<noteq> 0) (unat lba) else []),
    ata_target := (if v = 0x30 \<and> unat lba < ata_size d (drive \<noteq> 0)
      then Some (drive \<noteq> 0, unat lba) else None)\<rparr>"
proof -
  have "(0x0FFFFFFF :: u32) = mask 28" by (simp add: mask_eq_exp_minus_1)
  then have "unat (lba AND 0x0FFFFFFF) = unat lba"
    using assms(3) by (simp only: take_bit_eq_mask [symmetric] unsigned_take_bit_eq) (simp add: take_bit_eq_mod)
  then have "ata_drive d = (drive \<noteq> 0)" "ata_lba d = unat lba" using assms(1) by (simp_all add: selects_def)
  moreover have "ata_drive (d\<lparr>ata_busy := b, ata_err := e, ata_data := ws, ata_target := t\<rparr>) = ata_drive d"
    "ata_lba (d\<lparr>ata_busy := b, ata_err := e, ata_data := ws, ata_target := t\<rparr>) = ata_lba d" for b e ws t
    by (simp_all add: ata_drive_def ata_lba_def)
  ultimately show ?thesis using assms(2) by (elim disjE) (simp_all add: ata_command_def Let_def)
qed

lemma ata_read_sector_eq:
  fixes s :: "(ata, 'z) machine_scheme"
  assumes idle: "ata_idle (dev s)" and buf: "length buf = 256" and lba: "unat lba < 2 ^ 28"
    and delay: "ata_delay (dev s) < 50000"
  shows "\<exists>d'. ata_idle d' \<and> same_disk (dev s) d' \<and> ata_read_sector ata_io drive lba buf s =
    (if unat lba < ata_size (dev s) (drive \<noteq> 0)
     then Some (0, ata_img (dev s) (drive \<noteq> 0) (unat lba), s\<lparr>dev := d'\<rparr>)
     else Some (-2, buf, s\<lparr>dev := d'\<rparr>))"
proof -
  let ?s1 = "s\<lparr>dev := (dev s)\<lparr>ata_busy := 0\<rparr>\<rparr>"
  define d2 where "d2 = dev (ata_select ata_io drive lba ?s1)"
  have s2: "ata_select ata_io drive lba ?s1 = s\<lparr>dev := d2\<rparr>"
    unfolding d2_def by (simp add: ata_select_dev)
  have d2: "ata_img d2 = ata_img (dev s)" "ata_size d2 = ata_size (dev s)" "ata_delay d2 = ata_delay (dev s)"
    unfolding d2_def by (simp_all add: ata_select_dev)
  define d3 where "d3 = ata_command 0x20 d2"
  have s3: "port_byte_out ata_io ATA_PRIMARY_COMMAND ATA_CMD_READ_PIO (s\<lparr>dev := d2\<rparr>) = s\<lparr>dev := d3\<rparr>"
    by (simp add: port_byte_out_def ata_io_def ata_consts d3_def)
  have "selects d2 drive lba" unfolding d2_def by (rule ata_select_selects)
  note d3 = ata_command_eq [OF this _ lba, of "0x20", folded d3_def, simplified]
  let ?ok = "unat lba < ata_size (dev s) (drive \<noteq> 0)"
  define d4 where "d4 = d3\<lparr>ata_busy := 0\<rparr>"
  have "ata_busy (dev (s\<lparr>dev := d3\<lparr>ata_busy := ata_busy d3 - 4\<rparr>\<rparr>)) < 5 * 10000 - 4"
    using delay by (simp add: d3 d2)
  from ata_wait_not_busy [OF this]
  have w1: "ata_wait_for ata_io ATA_STATUS_BSY 0 10000 (ata_io_wait ata_io (s\<lparr>dev := d3\<rparr>)) = (0, s\<lparr>dev := d4\<rparr>)"
    by (simp add: ata_wait_for_busy ata_io_wait_eq d4_def del: ata_wait_for.simps)
  have d4: "ata_busy d4 = 0" "ata_err d4 = (\<not> ?ok)" "ata_target d4 = None"
    "ata_data d4 = (if ?ok then ata_img (dev s) (drive \<noteq> 0) (unat lba) else [])"
    "ata_img d4 = ata_img (dev s)" "ata_size d4 = ata_size (dev s)" "ata_delay d4 = ata_delay (dev s)"
    by (simp_all add: d4_def d3 d2)
  have len: "length (ata_img (dev s) (drive \<noteq> 0) (unat lba)) = 256" using idle by (simp add: ata_idle_def)
  show ?thesis
  proof (cases ?ok)
    case True
    have "ata_data d4 \<noteq> []" using len True by (auto simp: d4)
    then have w2: "ata_wait_for ata_io ATA_STATUS_DRQ ATA_STATUS_DRQ 10000 (s\<lparr>dev := d4\<rparr>) = (0, s\<lparr>dev := d4\<rparr>)"
      using True unfolding ata_wait_for_drq by (intro ata_wait_drq(1)) (simp_all add: d4)
    have "ata_read_words ata_io [0..<256] buf (s\<lparr>dev := d4\<rparr>)
      = (ata_img (dev s) (drive \<noteq> 0) (unat lba), s\<lparr>dev := d4\<lparr>ata_data := []\<rparr>\<rparr>)"
      using ata_read_words_eq [of "s\<lparr>dev := d4\<rparr>" "ata_data d4" 0 buf] True len buf
      by (simp add: d4 del: upt_rec_numeral)
    then have "ata_read_sector ata_io drive lba buf s
      = Some (0, ata_img (dev s) (drive \<noteq> 0) (unat lba), s\<lparr>dev := d4\<lparr>ata_data := []\<rparr>\<rparr>)"
      by (simp add: ata_read_sector_def ata_wait_bsy_eq s2 s3 w1 w2 Let_def
          del: ata_wait_for.simps upt_rec_numeral)
    then show ?thesis
      using True idle by (intro exI [of _ "d4\<lparr>ata_data := []\<rparr>"]) (simp add: ata_idle_def same_disk_def d4)
  next
    case False
    have w2: "ata_wait_for ata_io ATA_STATUS_DRQ ATA_STATUS_DRQ 10000 (s\<lparr>dev := d4\<rparr>) = (-1, s\<lparr>dev := d4\<rparr>)"
      using False unfolding ata_wait_for_drq by (intro ata_wait_drq(2)) (simp_all add: d4)
    have "ata_read_sector ata_io drive lba buf s = Some (-2, buf, s\<lparr>dev := d4\<rparr>)"
      by (simp add: ata_read_sector_def ata_wait_bsy_eq s2 s3 w1 w2 Let_def
          del: ata_wait_for.simps upt_rec_numeral)
    then show ?thesis
      using False idle by (intro exI [of _ d4]) (simp add: ata_idle_def same_disk_def d4)
  qed
qed


lemma ata_write_words_eq:
  assumes "ata_target (dev s) = Some (drv, lba)" "length (ata_data (dev s)) = n" "n < 256" "length buf = 256"
  shows "ata_write_words ata_io [n..<256] buf s = s\<lparr>dev := (dev s)\<lparr>
    ata_img := (ata_img (dev s))(drv := (ata_img (dev s) drv)(lba := ata_data (dev s) @ drop n buf)),
    ata_data := [], ata_target := None\<rparr>\<rparr>"
  using assms
proof (induction "255 - n" arbitrary: n s)
  case 0
  then have n: "n = 255" by simp
  have "[n..<256] = [255]" "drop n buf = [buf ! 255]"
    using Cons_nth_drop_Suc [of 255 buf] 0 by (simp_all add: n)
  then show ?case
    using 0 n by (simp add: port_word_out_def ata_io_def ata_consts ata_put_word_def fun_upd_def)
next
  case (Suc m)
  let ?d1 = "(dev s)\<lparr>ata_data := ata_data (dev s) @ [buf ! n]\<rparr>"
  have n: "n < 255" "m = 255 - Suc n" using Suc.hyps(2) by auto
  have "port_word_out ata_io ATA_PRIMARY_DATA (buf ! n) s = s\<lparr>dev := ?d1\<rparr>"
    using Suc.prems n by (simp add: port_word_out_def ata_io_def ata_consts ata_put_word_def)
  moreover have "[n..<256] = n # [Suc n..<256]" using n by (subst upt_rec) simp
  moreover have "buf ! n # drop (Suc n) buf = drop n buf"
    using Suc.prems n by (simp add: Cons_nth_drop_Suc)
  moreover have "ata_write_words ata_io [Suc n..<256] buf (s\<lparr>dev := ?d1\<rparr>) = s\<lparr>dev := ?d1\<rparr>\<lparr>dev := (dev (s\<lparr>dev := ?d1\<rparr>))\<lparr>
    ata_img := (ata_img (dev (s\<lparr>dev := ?d1\<rparr>)))(drv := (ata_img (dev (s\<lparr>dev := ?d1\<rparr>)) drv)
      (lba := ata_data (dev (s\<lparr>dev := ?d1\<rparr>)) @ drop (Suc n) buf)), ata_data := [], ata_target := None\<rparr>\<rparr>"
    using Suc.prems n by (intro Suc.hyps(1)) simp_all
  ultimately show ?case by simp
qed

lemma ata_write_sector_eq:
  fixes s :: "(ata, 'z) machine_scheme"
  assumes idle: "ata_idle (dev s)" and buf: "length buf = 256" and lba: "unat lba < 2 ^ 28"
    and delay: "ata_delay (dev s) < 50000" and ok: "unat lba < ata_size (dev s) (drive \<noteq> 0)"
  shows "\<exists>d'. ata_idle d' \<and> ata_size d' = ata_size (dev s) \<and> ata_delay d' = ata_delay (dev s)
    \<and> ata_img d' = (ata_img (dev s))(drive \<noteq> 0 := (ata_img (dev s) (drive \<noteq> 0))(unat lba := buf))
    \<and> ata_write_sector ata_io drive lba buf s = Some (0, s\<lparr>dev := d'\<rparr>)"
proof -
  let ?s1 = "s\<lparr>dev := (dev s)\<lparr>ata_busy := 0\<rparr>\<rparr>"
  define d2 where "d2 = dev (ata_select ata_io drive lba ?s1)"
  have s2: "ata_select ata_io drive lba ?s1 = s\<lparr>dev := d2\<rparr>"
    unfolding d2_def by (simp add: ata_select_dev)
  have d2: "ata_img d2 = ata_img (dev s)" "ata_size d2 = ata_size (dev s)" "ata_delay d2 = ata_delay (dev s)"
    unfolding d2_def by (simp_all add: ata_select_dev)
  define d3 where "d3 = ata_command 0x30 d2"
  have s3: "port_byte_out ata_io ATA_PRIMARY_COMMAND ATA_CMD_WRITE_PIO (s\<lparr>dev := d2\<rparr>) = s\<lparr>dev := d3\<rparr>"
    by (simp add: port_byte_out_def ata_io_def ata_consts d3_def)
  have "selects d2 drive lba" unfolding d2_def by (rule ata_select_selects)
  note d3 = ata_command_eq [OF this _ lba, of "0x30", folded d3_def, simplified]
  define d4 where "d4 = d3\<lparr>ata_busy := 0\<rparr>"
  have "ata_busy (dev (s\<lparr>dev := d3\<lparr>ata_busy := ata_busy d3 - 4\<rparr>\<rparr>)) < 5 * 10000 - 4"
    using delay by (simp add: d3 d2)
  from ata_wait_not_busy [OF this]
  have w1: "ata_wait_for ata_io ATA_STATUS_BSY 0 10000 (ata_io_wait ata_io (s\<lparr>dev := d3\<rparr>)) = (0, s\<lparr>dev := d4\<rparr>)"
    by (simp add: ata_wait_for_busy ata_io_wait_eq d4_def del: ata_wait_for.simps)
  have d4: "ata_busy d4 = 0" "\<not> ata_err d4" "ata_target d4 = Some (drive \<noteq> 0, unat lba)" "ata_data d4 = []"
    "ata_img d4 = ata_img (dev s)" "ata_size d4 = ata_size (dev s)" "ata_delay d4 = ata_delay (dev s)"
    using ok by (simp_all add: d4_def d3 d2)
  have w2: "ata_wait_for ata_io ATA_STATUS_DRQ ATA_STATUS_DRQ 10000 (s\<lparr>dev := d4\<rparr>) = (0, s\<lparr>dev := d4\<rparr>)"
    unfolding ata_wait_for_drq by (intro ata_wait_drq(1)) (simp_all add: d4)
  define d5 where "d5 = d4\<lparr>ata_img := (ata_img (dev s))(drive \<noteq> 0 := (ata_img (dev s) (drive \<noteq> 0))(unat lba := buf)),
    ata_data := [], ata_target := None\<rparr>"
  have w3: "ata_write_words ata_io [0..<256] buf (s\<lparr>dev := d4\<rparr>) = s\<lparr>dev := d5\<rparr>"
    using ata_write_words_eq [of "s\<lparr>dev := d4\<rparr>" "drive \<noteq> 0" "unat lba" 0 buf] buf
    by (simp add: d4 d5_def del: upt_rec_numeral)
  define d6 where "d6 = (ata_command 0xE7 d5)\<lparr>ata_busy := 0\<rparr>"
  have w4: "port_byte_out ata_io ATA_PRIMARY_COMMAND 0xE7 (s\<lparr>dev := d5\<rparr>) = s\<lparr>dev := ata_command 0xE7 d5\<rparr>"
    by (simp add: ata_out_command)
  have "ata_write_sector ata_io drive lba buf s = Some (0, s\<lparr>dev := d6\<rparr>)"
    by (simp add: ata_write_sector_def ata_wait_bsy_eq s2 s3 w1 w2 w3 w4 d6_def Let_def
        del: ata_wait_for.simps upt_rec_numeral)
  then show ?thesis
    using idle buf by (intro exI [of _ d6])
      (auto simp: ata_idle_def d6_def d5_def d4 ata_command_def Let_def)
qed

section \<open>Properties\<close>

text \<open>Reading a sector from an idle drive that is ready within 50000 readings of its status
  fills the buffer with the 256 words of that sector of that drive; a sector the drive does not
  have gives -2 and an untouched buffer. The contents of the drives do not change, and the drive is
  idle again.\<close>

theorem ata_read_sector_reads:
  fixes s :: "(ata, 'z) machine_scheme"
  assumes "ata_idle (dev s)" and "length buf = 256" and "unat lba < 2 ^ 28" and "ata_delay (dev s) < 50000"
  shows "\<exists>d'. ata_idle d' \<and> same_disk (dev s) d' \<and> ata_read_sector ata_io drive lba buf s =
    (if unat lba < ata_size (dev s) (drive \<noteq> 0)
     then Some (0, ata_img (dev s) (drive \<noteq> 0) (unat lba), s\<lparr>dev := d'\<rparr>)
     else Some (-2, buf, s\<lparr>dev := d'\<rparr>))"
  using assms by (rule ata_read_sector_eq)

definition blank_drives :: ata where
  "blank_drives = \<lparr>ata_img = (\<lambda>drv lba. replicate 256 (of_nat lba)), ata_size = (\<lambda>drv. 32768), ata_delay = 7,
     ata_busy = 3, ata_sel = 0, ata_low = 0, ata_mid = 0, ata_high = 0, ata_err = False, ata_data = [],
     ata_target = None\<rparr>"

theorem ata_read_sector_reads_witness:
  "\<exists>s'. ata_read_sector ata_io 0 700 (replicate 256 0) \<lparr>mem = (\<lambda>_. 0), dev = blank_drives\<rparr>
    = Some (0, replicate 256 700, s')"
  using ata_read_sector_reads [of "\<lparr>mem = (\<lambda>_. 0), dev = blank_drives\<rparr>" "replicate 256 0" 700 0]
  by (auto simp: blank_drives_def ata_idle_def)

text \<open>C27: what \<open>ata_write_sector\<close> wrote is what the next \<open>ata_read_sector\<close> of the same sector
  returns, and every other sector of both drives is as before.\<close>

theorem ata_write_read_roundtrip:
  fixes s :: "(ata, 'z) machine_scheme"
  assumes "ata_idle (dev s)" and "length ws = 256" and "length buf = 256" and "unat lba < 2 ^ 28"
    and "ata_delay (dev s) < 50000" and "unat lba < ata_size (dev s) (drive \<noteq> 0)"
  shows "\<exists>s1 s2. ata_write_sector ata_io drive lba ws s = Some (0, s1)
    \<and> ata_read_sector ata_io drive lba buf s1 = Some (0, ws, s2)
    \<and> (\<forall>drv n. (drv, n) \<noteq> (drive \<noteq> 0, unat lba) \<longrightarrow> ata_img (dev s2) drv n = ata_img (dev s) drv n)"
proof -
  obtain d1 where d1: "ata_idle d1" "ata_size d1 = ata_size (dev s)" "ata_delay d1 = ata_delay (dev s)"
    "ata_img d1 = (ata_img (dev s))(drive \<noteq> 0 := (ata_img (dev s) (drive \<noteq> 0))(unat lba := ws))"
    "ata_write_sector ata_io drive lba ws s = Some (0, s\<lparr>dev := d1\<rparr>)"
    using ata_write_sector_eq [OF assms(1,2,4-6)] by blast
  obtain d2 where "same_disk d1 d2"
    "ata_read_sector ata_io drive lba buf (s\<lparr>dev := d1\<rparr>) = Some (0, ws, s\<lparr>dev := d2\<rparr>)"
    using ata_read_sector_eq [of "s\<lparr>dev := d1\<rparr>" buf lba drive] assms(3-6) d1 by auto
  then show ?thesis
    using d1 by (intro exI [of _ "s\<lparr>dev := d1\<rparr>"] exI [of _ "s\<lparr>dev := d2\<rparr>"]) (auto simp: same_disk_def)
qed

theorem ata_write_read_roundtrip_witness:
  "\<exists>s1 s2. ata_write_sector ata_io 1 5 (replicate 256 9) \<lparr>mem = (\<lambda>_. 0), dev = blank_drives\<rparr> = Some (0, s1)
    \<and> ata_read_sector ata_io 1 5 (replicate 256 0) s1 = Some (0, replicate 256 9, s2)"
  using ata_write_read_roundtrip [of "\<lparr>mem = (\<lambda>_. 0), dev = blank_drives\<rparr>" "replicate 256 9" "replicate 256 0" 5 1]
  by (auto simp: blank_drives_def ata_idle_def)

text \<open>The waits are bounded: a drive that stays busy for 50000 readings of its status or more
  after the command makes \<open>ata_read_sector\<close> give up with -1, leaving the buffer alone.\<close>

theorem ata_read_sector_timeout:
  fixes s :: "(ata, 'z) machine_scheme"
  assumes "50000 \<le> ata_delay (dev s)"
  shows "\<exists>s'. ata_read_sector ata_io drive lba buf s = Some (-1, buf, s')"
proof -
  let ?s1 = "s\<lparr>dev := (dev s)\<lparr>ata_busy := 0\<rparr>\<rparr>"
  let ?s3 = "port_byte_out ata_io ATA_PRIMARY_COMMAND ATA_CMD_READ_PIO (ata_select ata_io drive lba ?s1)"
  have "ata_busy (dev ?s3) = ata_delay (dev s)"
    by (simp add: ata_out_command ata_select_dev ata_command_def Let_def)
  then have "5 * 10000 \<le> ata_busy (dev (ata_io_wait ata_io ?s3)) + 4"
    using assms by (simp add: ata_io_wait_eq)
  from ata_wait_timeout [OF this]
  have "fst (ata_wait_for ata_io ATA_STATUS_BSY 0 10000 (ata_io_wait ata_io ?s3)) = -2"
    by (simp only: ata_consts)
  then show ?thesis
    by (cases "ata_wait_for ata_io ATA_STATUS_BSY 0 10000 (ata_io_wait ata_io ?s3)")
      (simp add: ata_read_sector_def ata_wait_bsy_eq Let_def del: ata_wait_for.simps)
qed

theorem ata_read_sector_timeout_witness:
  "\<exists>s'. ata_read_sector ata_io 0 0 [] \<lparr>mem = (\<lambda>_. 0), dev = blank_drives\<lparr>ata_delay := 60000\<rparr>\<rparr> = Some (-1, [], s')"
  by (rule ata_read_sector_timeout) simp

end
