(* ===== verification/DiskStream.thy ===== *)
theory DiskStream
  imports Keyboard Ata
begin

text \<open>
  Byte streams over a disk, \<open>src/drivers/disk_stream.c\<close>. The \<open>struct disk_stream\<close> objects
  live in the store \<open>streams\<close> under the addresses \<open>kmalloc\<close> gave them; a read or write through an
  address with no object is undefined. What \<open>diskstream_read\<close> writes at \<open>out\<close> is returned as
  the list of the bytes, in order. The driver below is an interface, \<open>block_device\<close>.
\<close>

section \<open>State and operations\<close>

record disk_stream =
  pos :: u32
  disk_id :: int

record 'd disk = "'d keyboard" +
  streams :: "u32 \<Rightarrow> disk_stream option"

definition diskstream_new :: "int \<Rightarrow> ('d, 'z) disk_scheme \<Rightarrow> (u32 \<times> ('d, 'z) disk_scheme) option" where
  "diskstream_new disk s = do {
     (stream, s) \<leftarrow> kmalloc 8 s;
     Some (stream, s\<lparr>streams := (streams s)(stream \<mapsto> \<lparr>pos = 0, disk_id = disk\<rparr>)\<rparr>)
   }"

definition diskstream_seek :: "u32 \<Rightarrow> u32 \<Rightarrow> ('d, 'z) disk_scheme \<Rightarrow> (int \<times> ('d, 'z) disk_scheme) option" where
  "diskstream_seek stream p s = do {
     st \<leftarrow> streams s stream;
     Some (0, s\<lparr>streams := (streams s)(stream \<mapsto> st\<lparr>pos := p\<rparr>)\<rparr>)
   }"

text \<open>\<open>((char*)buffer)[k]\<close> for an array of 16-bit words.\<close>

definition buf_byte :: "u16 list \<Rightarrow> nat \<Rightarrow> u8" where
  "buf_byte buffer k = (let w = buffer ! (k div 2) in if even k then ucast w else ucast (drop_bit 8 w))"

text \<open>The loop of \<open>diskstream_read\<close>, over the function that reads a sector. The initial
  contents of the local \<open>buffer\<close> are never used.\<close>

partial_function (option) disk_loop ::
  "(int \<Rightarrow> u32 \<Rightarrow> u16 list \<Rightarrow> 's \<Rightarrow> (int \<times> u16 list \<times> 's) option)
    \<Rightarrow> int \<Rightarrow> u32 \<Rightarrow> u32 \<Rightarrow> u32 \<Rightarrow> 's \<Rightarrow> (int \<times> u8 list \<times> 's) option" where
  "disk_loop read_sector disk sector offset total_to_read s =
     (if total_to_read = 0 then Some (0, [], s)
      else do {
        (r, buffer, s) \<leftarrow> read_sector disk sector (replicate 256 0) s;
        if r \<noteq> 0 then Some (-1, [], s)
        else do {
          let total_read_this_time = (if 512 - offset > total_to_read then total_to_read else 512 - offset);
          let bytes = map (\<lambda>i. buf_byte buffer (unat (offset + of_nat i))) [0..<unat total_read_this_time];
          (r, rest, s) \<leftarrow> disk_loop read_sector disk (sector + 1) 0 (total_to_read - total_read_this_time) s;
          Some (r, bytes @ rest, s)
        }
      })"

lemma upt_append: "i \<le> j \<Longrightarrow> j \<le> k \<Longrightarrow> [i..<j] @ [j..<k] = [i..<k]"
  using upt_add_eq_append [of i j "k - j"] by simp

lemma disk_loop_done: "disk_loop read_sector disk sec off 0 s = Some (0, [], s)"
  by (subst disk_loop.simps) simp

lemma disk_loop_fail:
  "n \<noteq> 0 \<Longrightarrow> read_sector disk sec (replicate 256 0) s = Some (r, ws, s1) \<Longrightarrow> r \<noteq> 0
    \<Longrightarrow> disk_loop read_sector disk sec off n s = Some (-1, [], s1)"
  by (subst disk_loop.simps) simp

lemma disk_loop_more:
  assumes "n \<noteq> 0" "read_sector disk sec (replicate 256 0) s = Some (0, ws, s1)"
    and k: "k = (if 512 - off > n then n else 512 - off)"
  shows "disk_loop read_sector disk sec off n s = do {
    (r, rest, s) \<leftarrow> disk_loop read_sector disk (sec + 1) 0 (n - k) s1;
    Some (r, map (\<lambda>i. buf_byte ws (unat (off + of_nat i))) [0..<unat k] @ rest, s)
  }"
  unfolding k by (subst disk_loop.simps) (simp only: assms(1,2) Let_def bind.bind_lunit if_False
      not_True_eq_False split_conv option.case not_not if_True refl)

definition diskstream_read ::
  "'d port_io \<Rightarrow> u32 \<Rightarrow> u32 \<Rightarrow> ('d, 'z) disk_scheme \<Rightarrow> (int \<times> u8 list \<times> ('d, 'z) disk_scheme) option" where
  "diskstream_read io stream amount s = do {
     st \<leftarrow> streams s stream;
     let sector = pos st div 512;
     let offset = pos st mod 512;
     (r, out, s) \<leftarrow> disk_loop (ata_read_sector io) (disk_id st) sector offset amount s;
     if r \<noteq> 0 then Some (-1, out, s)
     else do {
       st \<leftarrow> streams s stream;
       Some (0, out, s\<lparr>streams := (streams s)(stream \<mapsto> st\<lparr>pos := pos st + amount\<rparr>)\<rparr>)
     }
   }"

definition diskstream_close :: "u32 \<Rightarrow> ('d, 'z) disk_scheme \<Rightarrow> ('d, 'z) disk_scheme" where
  "diskstream_close stream s = (kfree stream s)\<lparr>streams := (streams s)(stream := None)\<rparr>"

section \<open>What the streams need of the driver\<close>

text \<open>\<open>bytes_on s disk\<close> is the disk as a sequence of bytes, \<open>sectors s disk\<close> its length in
  sectors, and \<open>same s s'\<close> says that two states differ in the inside of the device only.\<close>

locale block_device =
  fixes ready :: "'s \<Rightarrow> bool" and sectors :: "'s \<Rightarrow> int \<Rightarrow> nat" and bytes_on :: "'s \<Rightarrow> int \<Rightarrow> nat \<Rightarrow> u8"
    and same :: "'s \<Rightarrow> 's \<Rightarrow> bool"
    and read_sector :: "int \<Rightarrow> u32 \<Rightarrow> u16 list \<Rightarrow> 's \<Rightarrow> (int \<times> u16 list \<times> 's) option"
  assumes same_refl: "same s s" and same_trans: "same s s' \<Longrightarrow> same s' s'' \<Longrightarrow> same s s''"
    and sectors_bound: "ready s \<Longrightarrow> sectors s disk < 2 ^ 28"
    and read_hit: "ready s \<Longrightarrow> length buf = 256 \<Longrightarrow> unat lba < sectors s disk \<Longrightarrow>
      \<exists>ws s'. read_sector disk lba buf s = Some (0, ws, s') \<and> same s s' \<and> ready s'
        \<and> sectors s' = sectors s \<and> bytes_on s' = bytes_on s
        \<and> (\<forall>k<512. buf_byte ws k = bytes_on s disk (512 * unat lba + k))"
    and read_miss: "ready s \<Longrightarrow> length buf = 256 \<Longrightarrow> unat lba = sectors s disk \<Longrightarrow>
      \<exists>r ws s'. read_sector disk lba buf s = Some (r, ws, s') \<and> r \<noteq> 0 \<and> same s s' \<and> ready s'
        \<and> sectors s' = sectors s \<and> bytes_on s' = bytes_on s"
begin

text \<open>The loop delivers the bytes from its start on; when the disk ends first, it delivers what
  is there and reports an error.\<close>

lemma disk_loop_reads:
  assumes "ready s" "unat off < 512" "from = 512 * unat sec + unat off" "from \<le> 512 * sectors s disk"
  shows "\<exists>s'. same s s' \<and> ready s' \<and> sectors s' = sectors s \<and> bytes_on s' = bytes_on s
    \<and> disk_loop read_sector disk sec off n s =
      (if from + unat n \<le> 512 * sectors s disk
       then Some (0, map (bytes_on s disk) [from..<from + unat n], s')
       else Some (-1, map (bytes_on s disk) [from..<512 * sectors s disk], s'))"
  using assms
proof (induction "unat n" arbitrary: n sec off s "from" rule: less_induct)
  case less
  show ?case
  proof (cases "n = 0")
    case True
    then show ?thesis
      using same_refl less.prems by (intro exI [of _ s]) (simp add: disk_loop_done)
  next
    case False
    then have npos: "0 < unat n" by (simp add: unat_gt_0)
    have sec: "unat sec \<le> sectors s disk" using less.prems(3,4) by linarith
    show ?thesis
    proof (cases "unat sec < sectors s disk")
      case False
      then have eq: "unat sec = sectors s disk" using sec by simp
      then have "unat off = 0" using less.prems(3,4) by simp
      have "length (replicate 256 (0 :: u16)) = 256" by simp
      from read_miss [OF less.prems(1) this eq] obtain r ws s' where
        r: "read_sector disk sec (replicate 256 0) s = Some (r, ws, s')" "r \<noteq> 0" "same s s'" "ready s'"
          "sectors s' = sectors s" "bytes_on s' = bytes_on s" by blast
      show ?thesis
        using r \<open>n \<noteq> 0\<close> npos eq \<open>unat off = 0\<close> less.prems(3)
        by (intro exI [of _ s']) (simp add: disk_loop_fail)
    next
      case True
      have "length (replicate 256 (0 :: u16)) = 256" by simp
      from read_hit [OF less.prems(1) this True] obtain ws s1 where
        r: "read_sector disk sec (replicate 256 0) s = Some (0, ws, s1)" "same s s1" "ready s1"
          "sectors s1 = sectors s" "bytes_on s1 = bytes_on s"
          "\<forall>k<512. buf_byte ws k = bytes_on s disk (512 * unat sec + k)" by blast
      define k where "k = (if 512 - off > n then n else 512 - off)"
      have "unat (512 - off) = 512 - unat off"
        using less.prems(2) by (subst unat_minus_le) simp_all
      then have k: "unat k = min (unat n) (512 - unat off)" by (simp add: k_def word_less_nat_alt)
      have nk: "unat (n - k) = unat n - unat k" using k by (intro unat_minus_le) simp
      have bytes: "map (\<lambda>i. buf_byte ws (unat (off + of_nat i))) [0..<unat k]
        = map (bytes_on s disk) [from..<from + unat k]"
      proof (rule nth_equalityI)
        fix i assume "i < length (map (\<lambda>i. buf_byte ws (unat (off + of_nat i))) [0..<unat k])"
        then have i: "i < unat k" by simp
        then have u: "unat off + i < 512" using k less.prems(2) by linarith
        then have "unat (off + of_nat i) = unat off + i" by (intro unat_plus_of_nat) simp
        then show "map (\<lambda>i. buf_byte ws (unat (off + of_nat i))) [0..<unat k] ! i
          = map (bytes_on s disk) [from..<from + unat k] ! i"
          using i u r(6) less.prems(3) by (simp add: add.assoc)
      qed simp
      have sec1: "unat (sec + 1) = unat sec + 1"
        using True sectors_bound [OF less.prems(1), of disk] unat_plus_of_nat [of sec 1] by simp
      show ?thesis
      proof (cases "unat n \<le> 512 - unat off")
        case True2: True
        then have "unat (n - k) = 0" using k nk by simp
        then have "n - k = 0" by (simp only: unsigned_eq_0_iff)
        moreover have "unat k = unat n" using True2 k by simp
        moreover have "from + unat n \<le> 512 * sectors s disk"
          using True2 True less.prems(2,3) by linarith
        ultimately show ?thesis
          using r(2-5) bytes disk_loop_more [where read_sector = read_sector and s = s and ?s1.0 = s1 and off = off, OF \<open>n \<noteq> 0\<close> r(1) k_def]
          by (intro exI [of _ s1]) (simp add: disk_loop_done)
      next
        case False2: False
        then have k': "unat k = 512 - unat off" using k by simp
        have "unat (n - k) < unat n" using nk k' npos less.prems(2) by simp
        moreover have "unat (0 :: u32) < 512" by simp
        moreover have from1: "from + unat k = 512 * unat (sec + 1) + unat (0 :: u32)"
          using k' less.prems(2,3) sec1 by simp
        moreover have "from + unat k \<le> 512 * sectors s1 disk" using from1 sec1 True r(4) by simp
        ultimately obtain s2 where s2: "same s1 s2" "ready s2" "sectors s2 = sectors s1" "bytes_on s2 = bytes_on s1"
          "disk_loop read_sector disk (sec + 1) 0 (n - k) s1 =
            (if from + unat k + unat (n - k) \<le> 512 * sectors s1 disk
             then Some (0, map (bytes_on s1 disk) [from + unat k..<from + unat k + unat (n - k)], s2)
             else Some (-1, map (bytes_on s1 disk) [from + unat k..<512 * sectors s1 disk], s2))"
          using less.hyps [OF _ r(3)] by metis
        have n: "from + unat k + unat (n - k) = from + unat n" using nk k by simp
        have "[from..<from + unat k] @ [from + unat k..<from + unat n] = [from..<from + unat n]"
          using k by (simp add: upt_append)
        moreover have "from + unat k \<le> 512 * sectors s disk \<Longrightarrow>
          [from..<from + unat k] @ [from + unat k..<512 * sectors s disk] = [from..<512 * sectors s disk]"
          by (simp add: upt_append)
        ultimately show ?thesis
          using r s2(1-4) s2(5) [unfolded n] disk_loop_more [where read_sector = read_sector and s = s and ?s1.0 = s1 and off = off, OF \<open>n \<noteq> 0\<close> r(1) k_def] bytes same_trans [OF r(2) s2(1)] \<open>from + unat k \<le> 512 * sectors s1 disk\<close>
          by (intro exI [of _ s2]) (auto simp: map_append [symmetric] simp del: map_append)
      qed
    qed
  qed
qed

end


section \<open>The ATA drives are a block device\<close>

definition drive_ready :: "ata \<Rightarrow> bool" where
  "drive_ready d \<longleftrightarrow> ata_idle d \<and> ata_delay d < 50000 \<and> (\<forall>drv. ata_size d drv < 2 ^ 28)"

definition drive_sectors :: "ata \<Rightarrow> int \<Rightarrow> nat" where
  "drive_sectors d disk = ata_size d (disk \<noteq> 0)"

definition drive_bytes :: "ata \<Rightarrow> int \<Rightarrow> nat \<Rightarrow> u8" where
  "drive_bytes d disk n = buf_byte (ata_img d (disk \<noteq> 0) (n div 512)) (n mod 512)"

text \<open>The drives after some readings: ready again, with the same contents.\<close>

definition same_drives :: "ata \<Rightarrow> ata \<Rightarrow> bool" where
  "same_drives d d' \<longleftrightarrow> drive_ready d' \<and> drive_bytes d' = drive_bytes d \<and> drive_sectors d' = drive_sectors d"

lemma same_drives_refl: "drive_ready d \<Longrightarrow> same_drives d d"
  by (simp add: same_drives_def)

lemma same_drives_trans: "same_drives a b \<Longrightarrow> same_drives b c \<Longrightarrow> same_drives a c"
  by (simp add: same_drives_def)

lemma same_drivesD:
  assumes "same_drives d d'"
  shows "drive_ready d'" "drive_bytes d' = drive_bytes d" "drive_sectors d' = drive_sectors d"
  using assms by (simp_all add: same_drives_def)

abbreviation ata_ready :: "(ata, 'z) machine_scheme \<Rightarrow> bool" where
  "ata_ready s \<equiv> drive_ready (dev s)"

abbreviation ata_sectors :: "(ata, 'z) machine_scheme \<Rightarrow> int \<Rightarrow> nat" where
  "ata_sectors s \<equiv> drive_sectors (dev s)"

abbreviation disk_bytes :: "(ata, 'z) machine_scheme \<Rightarrow> int \<Rightarrow> nat \<Rightarrow> u8" where
  "disk_bytes s \<equiv> drive_bytes (dev s)"

definition only_dev :: "('d, 'z) machine_scheme \<Rightarrow> ('d, 'z) machine_scheme \<Rightarrow> bool" where
  "only_dev s s' \<longleftrightarrow> s' = s\<lparr>dev := dev s'\<rparr>"

lemma only_devI: "only_dev s (s\<lparr>dev := d\<rparr>)"
  by (simp add: only_dev_def)

lemma ata_view:
  assumes "drive_ready d" "same_disk d d'" "ata_idle d'"
  shows "same_drives d d'"
  using assms by (auto simp: fun_eq_iff same_drives_def drive_sectors_def drive_bytes_def drive_ready_def same_disk_def)

interpretation ata_disk: block_device ata_ready ata_sectors disk_bytes only_dev "ata_read_sector ata_io"
proof unfold_locales
  fix s s' s'' :: "(ata, 'z) machine_scheme" and disk :: int and lba :: u32 and buf :: "u16 list"
  show "only_dev s s" by (simp add: only_dev_def)
  show "only_dev s s' \<Longrightarrow> only_dev s' s'' \<Longrightarrow> only_dev s s''"
    unfolding only_dev_def by (metis (no_types) dev_dev)
  assume ready: "ata_ready s"
  then show "ata_sectors s disk < 2 ^ 28" by (simp add: drive_ready_def drive_sectors_def)
  assume buf: "length buf = 256"
  have idle: "ata_idle (dev s)" "ata_delay (dev s) < 50000" using ready by (simp_all add: drive_ready_def)
  {
    assume lba: "unat lba < ata_sectors s disk"
    then have "unat lba < 2 ^ 28" using ready by (simp add: drive_ready_def drive_sectors_def) (meson less_trans)
    from ata_read_sector_eq [OF idle(1) buf this idle(2), of disk] lba
    obtain d' where d': "ata_idle d'" "same_disk (dev s) d'" "ata_read_sector ata_io disk lba buf s
      = Some (0, ata_img (dev s) (disk \<noteq> 0) (unat lba), s\<lparr>dev := d'\<rparr>)"
      by (auto simp: drive_sectors_def)
    have "\<forall>k<512. buf_byte (ata_img (dev s) (disk \<noteq> 0) (unat lba)) k = disk_bytes s disk (512 * unat lba + k)"
      by (simp add: drive_bytes_def)
    then show "\<exists>ws s'. ata_read_sector ata_io disk lba buf s = Some (0, ws, s') \<and> only_dev s s' \<and> ata_ready s'
        \<and> ata_sectors s' = ata_sectors s \<and> disk_bytes s' = disk_bytes s
        \<and> (\<forall>k<512. buf_byte ws k = disk_bytes s disk (512 * unat lba + k))"
      using d'(3) same_drivesD [OF ata_view [OF ready d'(2,1)]] only_devI [of s d'] by fastforce
  next
    assume lba: "unat lba = ata_sectors s disk"
    then have "unat lba < 2 ^ 28" using ready by (simp add: drive_ready_def drive_sectors_def)
    from ata_read_sector_eq [OF idle(1) buf this idle(2), of disk] lba
    obtain d' where d': "ata_idle d'" "same_disk (dev s) d'"
      "ata_read_sector ata_io disk lba buf s = Some (-2, buf, s\<lparr>dev := d'\<rparr>)"
      by (auto simp: drive_sectors_def)
    then show "\<exists>r ws s'. ata_read_sector ata_io disk lba buf s = Some (r, ws, s') \<and> r \<noteq> 0 \<and> only_dev s s'
        \<and> ata_ready s' \<and> ata_sectors s' = ata_sectors s \<and> disk_bytes s' = disk_bytes s"
      using same_drivesD [OF ata_view [OF ready d'(2,1)]] only_devI [of s d'] by fastforce
  }
qed

text \<open>Reading through a stream on the drives.\<close>

lemma diskstream_read_spec:
  fixes s :: "(ata, 'z) disk_scheme"
  assumes st: "streams s stream = Some \<lparr>pos = p, disk_id = disk\<rparr>" and ready: "ata_ready s"
    and p: "unat p \<le> 512 * ata_sectors s disk"
  shows "\<exists>d'. same_drives (dev s) d' \<and> diskstream_read ata_io stream n s =
    (if unat p + unat n \<le> 512 * ata_sectors s disk
     then Some (0, map (disk_bytes s disk) [unat p..<unat p + unat n],
       s\<lparr>dev := d', streams := (streams s)(stream \<mapsto> \<lparr>pos = p + n, disk_id = disk\<rparr>)\<rparr>)
     else Some (-1, map (disk_bytes s disk) [unat p..<512 * ata_sectors s disk], s\<lparr>dev := d'\<rparr>))"
proof -
  have off: "unat (p mod 512) < 512" by (simp add: unat_mod)
  have start: "unat p = 512 * unat (p div 512) + unat (p mod 512)" by (simp add: unat_mod unat_div)
  obtain s' where s': "only_dev s s'" "ata_ready s'" "ata_sectors s' = ata_sectors s" "disk_bytes s' = disk_bytes s"
    "disk_loop (ata_read_sector ata_io) disk (p div 512) (p mod 512) n s =
      (if unat p + unat n \<le> 512 * ata_sectors s disk
       then Some (0, map (disk_bytes s disk) [unat p..<unat p + unat n], s')
       else Some (-1, map (disk_bytes s disk) [unat p..<512 * ata_sectors s disk], s'))"
    using ata_disk.disk_loop_reads [OF ready off start p, of n] by blast
  obtain d' where d': "s' = s\<lparr>dev := d'\<rparr>" using s'(1) unfolding only_dev_def by blast
  then have "same_drives (dev s) d'" using s'(2-4) by (simp add: same_drives_def)
  then show ?thesis
    using s'(5) st by (intro exI [of _ d']) (simp add: diskstream_read_def d' Let_def)
qed

section \<open>Properties\<close>

text \<open>C28: a read of \<open>n\<close> bytes from a stream that lies within the disk returns exactly the bytes of
  the disk from the stream's position on, across any number of sectors, and advances the position
  by \<open>n\<close>; nothing but the device's registers changes besides.\<close>

theorem diskstream_read_bytes:
  fixes s :: "(ata, 'z) disk_scheme"
  assumes "streams s stream = Some \<lparr>pos = p, disk_id = disk\<rparr>" and "ata_ready s"
    and "unat p + unat n \<le> 512 * ata_sectors s disk"
  shows "\<exists>d'. diskstream_read ata_io stream n s
      = Some (0, map (disk_bytes s disk) [unat p..<unat p + unat n],
          s\<lparr>dev := d', streams := (streams s)(stream \<mapsto> \<lparr>pos = p + n, disk_id = disk\<rparr>)\<rparr>)
    \<and> same_drives (dev s) d'"
  using diskstream_read_spec [OF assms(1,2), of n] assms(3) by auto

definition boot_disk :: "ata \<Rightarrow> ata disk" where
  "boot_disk d = keyboard.extend (boot_keyboard d) \<lparr>streams = [0x20010 \<mapsto> \<lparr>pos = 510, disk_id = 0\<rparr>]\<rparr>"

lemma boot_disk_simps [simp]:
  "dev (boot_disk d) = d" "streams (boot_disk d) = [0x20010 \<mapsto> \<lparr>pos = 510, disk_id = 0\<rparr>]"
  by (simp_all add: boot_disk_def keyboard.extend_def boot_keyboard_def cpu.extend_def boot_cpu_def)

lemma blank_drives_ready: "drive_ready blank_drives" "drive_sectors blank_drives 0 = 32768"
  by (simp_all add: drive_ready_def drive_sectors_def ata_idle_def blank_drives_def)

lemma blank_drives_bytes:
  "drive_bytes blank_drives disk n = buf_byte (replicate 256 (of_nat (n div 512))) (n mod 512)"
  by (simp add: drive_bytes_def blank_drives_def)

theorem diskstream_read_bytes_witness:
  "\<exists>s'. diskstream_read ata_io 0x20010 4 (boot_disk blank_drives) = Some (0, [0, 0, 1, 0], s')"
  using diskstream_read_bytes [of "boot_disk blank_drives" "0x20010" 510 0 4]
  by (auto simp: blank_drives_ready blank_drives_bytes buf_byte_def)

text \<open>A read that would pass the end of the disk returns -1 after the bytes that there are, and
  leaves the stream where it was.\<close>

theorem diskstream_read_past_end:
  fixes s :: "(ata, 'z) disk_scheme"
  assumes "streams s stream = Some \<lparr>pos = p, disk_id = disk\<rparr>" and "ata_ready s"
    and "unat p \<le> 512 * ata_sectors s disk" and "512 * ata_sectors s disk < unat p + unat n"
  shows "\<exists>d'. diskstream_read ata_io stream n s
      = Some (-1, map (disk_bytes s disk) [unat p..<512 * ata_sectors s disk], s\<lparr>dev := d'\<rparr>)
    \<and> same_drives (dev s) d'"
  using diskstream_read_spec [OF assms(1-3), of n] assms(4) by auto

theorem diskstream_read_past_end_witness:
  "\<exists>s'. diskstream_read ata_io 0x20010 8
      ((boot_disk blank_drives)\<lparr>streams := [0x20010 \<mapsto> \<lparr>pos = 16777215, disk_id = 0\<rparr>]\<rparr>)
    = Some (-1, [127], s')"
  using diskstream_read_past_end [of "(boot_disk blank_drives)\<lparr>streams := [0x20010 \<mapsto> \<lparr>pos = 16777215, disk_id = 0\<rparr>]\<rparr>"
      "0x20010" 16777215 0 8]
  by (auto simp: blank_drives_ready blank_drives_bytes buf_byte_def)

end
