(* ===== verification/PathParser.thy ===== *)
theory PathParser
  imports DiskStream Chain
begin

text \<open>
  Paths, \<open>src/fs/path_parser.c\<close>. The objects that \<open>kmalloc\<close> returns are kept in stores by
  type: \<open>path_roots\<close>, \<open>path_parts\<close> and \<open>names\<close> (the 256-byte buffers of the components), each under
  its address. A path argument is a C string, given as the object from the pointer on.
\<close>

section \<open>State\<close>

record path_root =
  drive_no :: int
  first :: u32

record path_part =
  part :: u32
  part_next :: u32

record 'd paths = "'d disk" +
  path_roots :: "u32 \<Rightarrow> path_root option"
  path_parts :: "u32 \<Rightarrow> path_part option"
  names :: "u32 \<Rightarrow> u8 list option"

section \<open>Operations\<close>

definition path_parser_get_drive_no :: "u8 list \<Rightarrow> (int \<times> u8 list) option" where
  "path_parser_get_drive_no path = do {
     c0 \<leftarrow> rd path 0;
     if \<not> isdigit c0 then Some (-1, path)
     else do {
       c1 \<leftarrow> rd path 1;
       if c1 \<noteq> 58 then Some (-1, path)
       else do {
         c2 \<leftarrow> rd path 2;
         if c2 \<noteq> 47 then Some (-1, path)
         else Some (sint c0 - 48, drop 3 path)
       }
     }
   }"

definition path_parser_create_root ::
  "int \<Rightarrow> ('d, 'z) paths_scheme \<Rightarrow> (u32 \<times> ('d, 'z) paths_scheme) option" where
  "path_parser_create_root drive s = do {
     (root, s) \<leftarrow> kmalloc 8 s;
     Some (root, s\<lparr>path_roots := (path_roots s)(root \<mapsto> \<lparr>drive_no = drive, first = 0\<rparr>)\<rparr>)
   }"

text \<open>The loop that copies a component into the buffer.\<close>

fun copy_part :: "u8 list \<Rightarrow> u8 list \<Rightarrow> nat \<Rightarrow> (u8 list \<times> nat \<times> u8 list) option" where
  "copy_part [] result i = None"
| "copy_part (c # path) result i =
     (if c \<noteq> 0 \<and> c \<noteq> 47 then do { result \<leftarrow> wr result i c; copy_part path result (i + 1) }
      else Some (result, i, c # path))"

definition path_parser_get_next_part ::
  "u8 list \<Rightarrow> ('d, 'z) paths_scheme \<Rightarrow> (u32 \<times> u8 list \<times> ('d, 'z) paths_scheme) option" where
  "path_parser_get_next_part path s = do {
     (result, s) \<leftarrow> kmalloc 256 s;
     let buffer = map (\<lambda>i. mem s (result + of_nat i)) [0..<256];
     (buffer, i, path) \<leftarrow> copy_part path buffer 0;
     let path = (if hd path = 47 then tl path else path);
     if i = 0 then Some (0, path, kfree result s)
     else do {
       buffer \<leftarrow> wr buffer i 0;
       Some (result, path, s\<lparr>names := (names s)(result \<mapsto> buffer)\<rparr>)
     }
   }"

partial_function (option) parse_parts ::
  "u8 list \<Rightarrow> u32 \<Rightarrow> u32 \<Rightarrow> u32 \<Rightarrow> ('d, 'z) paths_scheme \<Rightarrow> ('d, 'z) paths_scheme option" where
  "parse_parts path root first_part last_part s = do {
     (part_str, path, s) \<leftarrow> path_parser_get_next_part path s;
     if part_str = 0 then Some s
     else do {
       (p, s) \<leftarrow> kmalloc 8 s;
       let s = s\<lparr>path_parts := (path_parts s)(p \<mapsto> \<lparr>part = part_str, part_next = 0\<rparr>)\<rparr>;
       (first_part, s) \<leftarrow>
         (if first_part = 0 then do {
            r \<leftarrow> path_roots s root;
            Some (p, s\<lparr>path_roots := (path_roots s)(root \<mapsto> r\<lparr>first := p\<rparr>)\<rparr>)
          } else do {
            l \<leftarrow> path_parts s last_part;
            Some (first_part, s\<lparr>path_parts := (path_parts s)(last_part \<mapsto> l\<lparr>part_next := p\<rparr>)\<rparr>)
          });
       parse_parts path root first_part p s
     }
   }"

definition path_parser_parse ::
  "u8 list \<Rightarrow> ('d, 'z) paths_scheme \<Rightarrow> (u32 \<times> ('d, 'z) paths_scheme) option" where
  "path_parser_parse path s = do {
     (drive, path) \<leftarrow> path_parser_get_drive_no path;
     if drive < 0 then Some (0, s)
     else do {
       (root, s) \<leftarrow> path_parser_create_root drive s;
       s \<leftarrow> parse_parts path root 0 0 s;
       Some (root, s)
     }
   }"

partial_function (option) free_parts ::
  "u32 \<Rightarrow> ('d, 'z) paths_scheme \<Rightarrow> ('d, 'z) paths_scheme option" where
  "free_parts p s =
     (if p = 0 then Some s
      else do {
        pt \<leftarrow> path_parts s p;
        let s = (kfree (part pt) s)\<lparr>names := (names s)(part pt := None)\<rparr>;
        let s = (kfree p s)\<lparr>path_parts := (path_parts s)(p := None)\<rparr>;
        free_parts (part_next pt) s
      })"

definition path_parser_free :: "u32 \<Rightarrow> ('d, 'z) paths_scheme \<Rightarrow> ('d, 'z) paths_scheme option" where
  "path_parser_free root s = do {
     r \<leftarrow> path_roots s root;
     s \<leftarrow> free_parts (first r) s;
     Some ((kfree root s)\<lparr>path_roots := (path_roots s)(root := None)\<rparr>)
   }"

section \<open>What a path denotes\<close>

text \<open>The components of the text behind the drive: up to the first empty one.\<close>

function path_components :: "u8 list \<Rightarrow> u8 list list" where
  "path_components t = (let c = takeWhile (\<lambda>x. x \<noteq> 47) t
     in if c = [] then [] else c # path_components (drop (Suc (length c)) t))"
  by auto
termination
proof (relation "measure length")
  fix t c :: "u8 list"
  assume "c = takeWhile (\<lambda>x. x \<noteq> 47) t" "c \<noteq> []"
  then show "(drop (Suc (length c)) t, t) \<in> measure length" by (cases t) auto
qed simp

declare path_components.simps [simp del]

section \<open>One component\<close>

lemma digit_value: "isdigit c \<Longrightarrow> 0 \<le> sint c - 48 \<and> sint c - 48 \<le> 9"
  by (simp add: isdigit_def)

lemma get_drive_no_ok: "isdigit d \<Longrightarrow>
    path_parser_get_drive_no (d # 58 # 47 # t) = Some (sint d - 48, t)"
  by (simp add: path_parser_get_drive_no_def rd_def numeral_3_eq_3)

definition component :: "u8 list \<Rightarrow> u8 list" where
  "component t = takeWhile (\<lambda>x. x \<noteq> 47) t"

lemma component_unfold:
  "path_components t = (if component t = [] then []
     else component t # path_components (drop (Suc (length (component t))) t))"
  by (subst path_components.simps) (simp add: component_def Let_def)

lemma copy_part_spec:
  assumes "terminated path" "i + length (component (str_of path)) \<le> length buf"
  shows "copy_part path buf i = Some (take i buf @ component (str_of path)
      @ drop (i + length (component (str_of path))) buf,
    i + length (component (str_of path)), drop (length (component (str_of path))) path)"
  using assms
proof (induction path arbitrary: buf i)
  case (Cons c path)
  show ?case
  proof (cases "c \<noteq> 0 \<and> c \<noteq> 47")
    case True
    then have "take (Suc i) (buf[i := c]) = take i buf @ [c]"
      using Cons.prems by (simp add: component_def take_Suc_conv_app_nth)
    then show ?thesis
      using Cons.IH [of "Suc i" "buf[i := c]"] Cons.prems True by (simp add: component_def wr_def)
  qed (auto simp: component_def)
qed simp

lemma copy_part_overflow:
  assumes "terminated path" "i \<le> length buf" "length buf < i + length (component (str_of path))"
  shows "copy_part path buf i = None"
  using assms
proof (induction path arbitrary: buf i)
  case (Cons c path)
  then show ?case by (auto simp: component_def wr_def split: if_splits)
qed simp

lemma component_rest:
  assumes "terminated path"
  defines "c \<equiv> component (str_of path)"
  defines "rest \<equiv> drop (length c) path"
  shows "terminated rest" "rest \<noteq> []" "str_of (if hd rest = 47 then tl rest else rest) = drop (Suc (length c)) (str_of path)"
    "terminated (if hd rest = 47 then tl rest else rest)"
proof -
  have "terminated rest \<and> rest \<noteq> [] \<and> terminated (if hd rest = 47 then tl rest else rest)
    \<and> str_of (if hd rest = 47 then tl rest else rest) = drop (Suc (length c)) (str_of path)"
    unfolding rest_def c_def using assms(1)
  proof (induction path)
    case (Cons x path)
    then show ?case by (auto simp: component_def)
  qed simp
  then show "terminated rest" "rest \<noteq> []" "str_of (if hd rest = 47 then tl rest else rest) = drop (Suc (length c)) (str_of path)"
    "terminated (if hd rest = 47 then tl rest else rest)" by auto
qed

text \<open>What the parser leaves alone: everything but the heap and its own stores.\<close>

definition paths_only :: "('d, 'z) paths_scheme \<Rightarrow> ('d, 'z) paths_scheme \<Rightarrow> bool" where
  "paths_only s s' \<longleftrightarrow> s' = s\<lparr>mem := mem s', placement_address := placement_address s',
     global_base := global_base s', path_roots := path_roots s', path_parts := path_parts s', names := names s'\<rparr>"

lemma paths_only_refl [simp]: "paths_only s s"
  by (simp add: paths_only_def)

lemma paths_only_trans: "paths_only s s' \<Longrightarrow> paths_only s' s'' \<Longrightarrow> paths_only s s''"
  unfolding paths_only_def by (erule ssubst [of s'']) (erule ssubst [of s' _ "\<lambda>z. _ z = _ z"] | simp)+

lemma heap_only_paths: "heap_only s s' \<Longrightarrow> paths_only s s'"
  unfolding heap_only_def paths_only_def by (erule ssubst) simp

lemma heap_only_stores:
  fixes s :: "('d, 'z) paths_scheme"
  assumes "heap_only s s'"
  shows "path_roots s' = path_roots s" "path_parts s' = path_parts s" "names s' = names s"
proof -
  have e: "s' = s\<lparr>mem := mem s', placement_address := placement_address s', global_base := global_base s'\<rparr>"
    using assms by (simp add: heap_only_def)
  show "path_roots s' = path_roots s" by (subst e) simp
  show "path_parts s' = path_parts s" by (subst e) simp
  show "names s' = names s" by (subst e) simp
qed

text \<open>Memory of the owners in \<open>L\<close> is untouched.\<close>

definition keeps :: "(u32 \<times> nat) set \<Rightarrow> ram \<Rightarrow> ram \<Rightarrow> bool" where
  "keeps L m m' \<longleftrightarrow> (\<forall>q k x. (q, k) \<in> L \<longrightarrow> x \<in> region q k \<longrightarrow> m' x = m x)"

lemma keeps_refl [simp]: "keeps L m m"
  by (simp add: keeps_def)

lemma keeps_trans: "keeps L m m' \<Longrightarrow> keeps K m' m'' \<Longrightarrow> L \<subseteq> K \<Longrightarrow> keeps L m m''"
  by (auto simp: keeps_def)

text \<open>The end of the heap has moved up, by at most \<open>n\<close>.\<close>

definition grows :: "nat \<Rightarrow> u32 \<Rightarrow> u32 \<Rightarrow> bool" where
  [simp]: "grows n a b \<longleftrightarrow> unat a \<le> unat b \<and> unat b \<le> unat a + n"

lemma kmalloc_grows:
  assumes "heap_owns h L" and "sz \<noteq> 0" and room: "unat (placement_address h) + 16 + unat sz < 4294967296"
    and run: "kmalloc sz h = Some (p, h')"
  shows "grows (16 + unat sz) (placement_address h) (placement_address h')"
proof -
  have e: "unat (placement_address h + (sz + 16)) = unat (placement_address h) + (16 + unat sz)"
    using room by (simp add: unat_plus)
  have "placement_address h' = placement_address h \<or> placement_address h' = placement_address h + (sz + 16)"
    using kmalloc_int_owns [OF assms(1,2), of h 0] room run unfolding kmalloc_def by fastforce
  then show ?thesis using e by auto
qed

lemma kmalloc_obtain:
  fixes h :: "('d, 'z) kheap_scheme"
  assumes "heap_owns h L" and n: "unat sz = n" "n \<noteq> 0" "unat (placement_address h) + (16 + n) < 4294967296"
  obtains p h' where "kmalloc sz h = Some (p, h')" "p \<noteq> 0" "heap_only h h'"
    "heap_owns h' (insert (p, n) L)" "p \<notin> fst ` L" "keeps L (mem h) (mem h')"
    "grows (16 + n) (placement_address h) (placement_address h')"
proof -
  have "sz \<noteq> 0" "unat (placement_address h) + 16 + unat sz < 4294967296" using n by auto
  note k0 = kmalloc_spec [OF assms(1) this]
  obtain p h' where k: "kmalloc sz h = Some (p, h')" "p \<noteq> 0" "heap_only h h'"
    "heap_owns h' (insert (p, n) L)"
    "\<forall>q k. (q, k) \<in> L \<longrightarrow> q \<noteq> p \<and> (\<forall>x \<in> region q k. mem h' x = mem h x)"
    using k0 unfolding n(1) add.assoc by blast
  have "grows (16 + n) (placement_address h) (placement_address h')"
    using kmalloc_grows [OF assms(1) \<open>sz \<noteq> 0\<close> _ k(1)] n by simp
  moreover have "p \<notin> fst ` L"
  proof
    assume "p \<in> fst ` L"
    then obtain n where "(p, n) \<in> L" by auto
    then show False using k(5) by blast
  qed
  moreover have "keeps L (mem h) (mem h')" using k(5) by (simp add: keeps_def del: in_region)
  ultimately show ?thesis using that k by blast
qed

lemma update_after:
  "length c < length buf \<Longrightarrow> (c @ drop (length c) buf)[length c := x] = c @ x # drop (Suc (length c)) buf"
  by (simp add: list_update_append Cons_nth_drop_Suc [symmetric])

lemma next_part_none:
  fixes s :: "('d, 'z) paths_scheme"
  assumes own: "heap_owns s L" and room: "unat (placement_address s) + 272 < 4294967296"
    and path: "terminated path" "component (str_of path) = []"
  shows "\<exists>path' s'. path_parser_get_next_part path s = Some (0, path', s') \<and> heap_owns s' L
    \<and> heap_only s s' \<and> keeps L (mem s) (mem s')
    \<and> grows 272 (placement_address s) (placement_address s')"
proof -
  have "unat (256 :: u32) = 256" "(256 :: nat) \<noteq> 0" "unat (placement_address s) + (16 + 256) < 4294967296"
    using room by simp_all
  note k0 = kmalloc_obtain [OF own this]
  obtain p s1 where k: "kmalloc 256 s = Some (p, s1)" "heap_only s s1" "heap_owns s1 (insert (p, 256) L)"
    "p \<notin> fst ` L" "keeps L (mem s) (mem s1)"
    "grows (16 + 256) (placement_address s) (placement_address s1)" by (rule k0) blast
  let ?buf = "map (\<lambda>i. mem s1 (p + of_nat i)) [0..<256]"
  have "copy_part path ?buf 0 = Some (?buf, 0, path)"
    using copy_part_spec [of path 0 ?buf] path by simp
  then have run: "path_parser_get_next_part path s
      = Some (0, if hd path = 47 then tl path else path, kfree p s1)"
    by (simp add: path_parser_get_next_part_def k(1) Let_def del: upt_rec_numeral)
  have "insert (p, 256) L - {(p, 256)} = L" using k(4) by force
  then have f: "heap_owns (kfree p s1) L" "heap_only s1 (kfree p s1)"
    "\<forall>q k. (q, k) \<in> insert (p, 256) L \<longrightarrow> (\<forall>x \<in> region q k. mem (kfree p s1) x = mem s1 x)"
    "placement_address (kfree p s1) = placement_address s1"
    using kfree_spec [OF k(3), of p 256] by auto
  have "keeps L (mem s) (mem (kfree p s1))"
    using k(5) f(3) by (simp add: keeps_def del: in_region)
  then show ?thesis
    using run f(1) heap_only_trans [OF k(2) f(2)] k(6) f(4) by auto
qed

lemma next_part_some:
  fixes s :: "('d, 'z) paths_scheme"
  assumes own: "heap_owns s L" and room: "unat (placement_address s) + 272 < 4294967296"
    and path: "terminated path" "component (str_of path) \<noteq> []" "length (component (str_of path)) < 256"
  shows "\<exists>p path' s' b. path_parser_get_next_part path s
      = Some (p, path', s'\<lparr>names := (names s)(p \<mapsto> b)\<rparr>) \<and> p \<noteq> 0
    \<and> terminated path' \<and> str_of path' = drop (Suc (length (component (str_of path)))) (str_of path)
    \<and> terminated b \<and> str_of b = component (str_of path)
    \<and> heap_only s s' \<and> heap_owns s' (insert (p, 256) L) \<and> p \<notin> fst ` L \<and> keeps L (mem s) (mem s')
    \<and> grows 272 (placement_address s) (placement_address s')"
proof -
  have "unat (256 :: u32) = 256" "(256 :: nat) \<noteq> 0" "unat (placement_address s) + (16 + 256) < 4294967296"
    using room by simp_all
  note k0 = kmalloc_obtain [OF own this]
  obtain p s1 where k: "kmalloc 256 s = Some (p, s1)" "p \<noteq> 0" "heap_only s s1"
    "heap_owns s1 (insert (p, 256) L)" "p \<notin> fst ` L" "keeps L (mem s) (mem s1)"
    "grows (16 + 256) (placement_address s) (placement_address s1)" by (rule k0) blast
  let ?c = "component (str_of path)"
  let ?buf = "map (\<lambda>i. mem s1 (p + of_nat i)) [0..<256]"
  define b where "b = ?c @ 0 # drop (Suc (length ?c)) ?buf"
  have "copy_part path ?buf 0 = Some (?c @ drop (length ?c) ?buf, length ?c, drop (length ?c) path)"
    using copy_part_spec [of path 0 ?buf] path by simp
  moreover have "(?c @ drop (length ?c) ?buf)[length ?c := 0] = b"
    using path(3) unfolding b_def by (intro update_after) simp
  moreover have "length (?c @ drop (length ?c) ?buf) = 256" using path(3) by simp
  ultimately have run: "path_parser_get_next_part path s = Some (p,
      if hd (drop (length ?c) path) = 47 then tl (drop (length ?c) path) else drop (length ?c) path,
      s1\<lparr>names := (names s1)(p \<mapsto> b)\<rparr>)"
    using path(2,3)
    by (simp add: path_parser_get_next_part_def k(1) wr_def Let_def del: upt_rec_numeral)
  have "0 \<notin> set ?c"
    using str_of_no_NUL [of path] by (auto simp: component_def dest: set_takeWhileD)
  then have "terminated b" "str_of b = ?c" by (simp_all add: b_def str_of_append)
  then show ?thesis
    using run k component_rest [OF path(1)] heap_only_stores(3) [OF k(3)] by fastforce
qed

section \<open>A whole path\<close>

text \<open>A parsed path in memory: the addresses of each part and of its name, and the name.\<close>

type_synonym parsed = "(u32 \<times> u32 \<times> u8 list) list"

fun part_chain :: "('d, 'z) paths_scheme \<Rightarrow> u32 \<Rightarrow> parsed \<Rightarrow> bool" where
  "part_chain s p [] \<longleftrightarrow> p = 0"
| "part_chain s p ((a, n, x) # ts) \<longleftrightarrow> p \<noteq> 0 \<and> a = p
     \<and> (\<exists>q. path_parts s p = Some \<lparr>part = n, part_next = q\<rparr> \<and> part_chain s q ts)
     \<and> (\<exists>b. names s n = Some b \<and> terminated b \<and> str_of b = x)"

definition part_addrs :: "parsed \<Rightarrow> u32 list" where
  "part_addrs ts = concat (map (\<lambda>(a, n, x). [a, n]) ts)"

definition part_blocks :: "parsed \<Rightarrow> (u32 \<times> nat) set" where
  "part_blocks ts = (\<Union>(a, n, x) \<in> set ts. {(a, 8), (n, 256)})"

definition part_names :: "parsed \<Rightarrow> u8 list list" where
  "part_names ts = map (\<lambda>(a, n, x). x) ts"

lemma part_simps [simp]:
  "part_addrs [] = []" "part_addrs ((a, n, x) # ts) = a # n # part_addrs ts"
  "part_blocks [] = {}" "part_blocks ((a, n, x) # ts) = insert (a, 8) (insert (n, 256) (part_blocks ts))"
  "part_names [] = []" "part_names ((a, n, x) # ts) = x # part_names ts"
  by (auto simp: part_addrs_def part_blocks_def part_names_def)

lemma part_blocks_addrs: "fst ` part_blocks ts = set (part_addrs ts)"
proof (induction ts)
  case (Cons t ts)
  then show ?case by (cases t) simp
qed simp

lemma part_chain_cong:
  "(\<And>a. a \<in> set (part_addrs ts) \<Longrightarrow> path_parts s' a = path_parts s a \<and> names s' a = names s a)
    \<Longrightarrow> part_chain s' p ts \<longleftrightarrow> part_chain s p ts"
  by (induction s p ts rule: part_chain.induct) auto

text \<open>The stores agree outside the addresses in \<open>A\<close>, and the memory owned by \<open>L\<close> is kept.\<close>

definition path_frame :: "u32 set \<Rightarrow> (u32 \<times> nat) set \<Rightarrow> ('d, 'z) paths_scheme \<Rightarrow> ('d, 'z) paths_scheme \<Rightarrow> bool" where
  "path_frame A L s s' \<longleftrightarrow> paths_only s s' \<and> keeps L (mem s) (mem s')
     \<and> (\<forall>a. a \<notin> A \<longrightarrow> path_parts s' a = path_parts s a \<and> names s' a = names s a \<and> path_roots s' a = path_roots s a)"

lemma path_frame_trans:
  assumes f: "path_frame A L s s'" and g: "path_frame B K s' s''" and sub: "A \<subseteq> C" "B \<subseteq> C" "L \<subseteq> K"
  shows "path_frame C L s s''"
proof -
  have "paths_only s s''" using f g paths_only_trans unfolding path_frame_def by metis
  moreover have "keeps L (mem s) (mem s'')" using f g keeps_trans sub(3) unfolding path_frame_def by metis
  moreover have "path_parts s'' a = path_parts s a \<and> names s'' a = names s a \<and> path_roots s'' a = path_roots s a"
    if "a \<notin> C" for a
  proof -
    have "a \<notin> A" "a \<notin> B" using that sub by auto
    then show ?thesis using f g by (simp add: path_frame_def)
  qed
  ultimately show ?thesis by (simp add: path_frame_def)
qed

lemma path_frame_heap: "heap_only s s' \<Longrightarrow> keeps L (mem s) (mem s') \<Longrightarrow> path_frame A L s s'"
  by (simp add: path_frame_def heap_only_paths heap_only_stores)

lemma path_frame_part: "a \<in> A \<Longrightarrow> path_frame A L s (s\<lparr>path_parts := (path_parts s)(a := v)\<rparr>)"
  by (simp add: path_frame_def paths_only_def)

lemma path_frame_name: "a \<in> A \<Longrightarrow> path_frame A L s (s\<lparr>names := (names s)(a := v)\<rparr>)"
  by (simp add: path_frame_def paths_only_def)

lemma path_frame_root: "a \<in> A \<Longrightarrow> path_frame A L s (s\<lparr>path_roots := (path_roots s)(a := v)\<rparr>)"
  by (simp add: path_frame_def paths_only_def)

lemma heap_owns_stores [simp]:
  fixes s :: "('d, 'z) paths_scheme"
  shows "heap_owns (s\<lparr>path_parts := f\<rparr>) L \<longleftrightarrow> heap_owns s L"
    "heap_owns (s\<lparr>names := g\<rparr>) L \<longleftrightarrow> heap_owns s L"
    "heap_owns (s\<lparr>path_roots := h\<rparr>) L \<longleftrightarrow> heap_owns s L"
  by (rule heap_owns_same; simp)+

text \<open>One component made and put into a part, not yet linked.\<close>

lemma new_part:
  fixes s :: "('d, 'z) paths_scheme"
  assumes own: "heap_owns s L" and room: "unat (placement_address s) + 296 < 4294967296"
    and path: "terminated path" "component (str_of path) \<noteq> []" "length (component (str_of path)) < 256"
  obtains n path' s1 p s2 b where
    "path_parser_get_next_part path s = Some (n, path', s1)" "n \<noteq> 0"
    "kmalloc 8 s1 = Some (p, s2)" "p \<noteq> 0" "p \<noteq> n" "p \<notin> fst ` L" "n \<notin> fst ` L"
    "terminated path'" "str_of path' = drop (Suc (length (component (str_of path)))) (str_of path)"
    "names s2 n = Some b" "terminated b" "str_of b = component (str_of path)"
    "heap_owns s2 (insert (p, 8) (insert (n, 256) L))" "path_frame {p, n} L s s2" "path_parts s2 = path_parts s"
    "path_roots s2 = path_roots s"
    "grows 296 (placement_address s) (placement_address s2)"
proof -
  have "unat (placement_address s) + 272 < 4294967296" using room by simp
  from next_part_some [OF own this path]
  obtain n path' s0 b where n: "path_parser_get_next_part path s = Some (n, path', s0\<lparr>names := (names s)(n \<mapsto> b)\<rparr>)"
    "n \<noteq> 0" "terminated path'" "str_of path' = drop (Suc (length (component (str_of path)))) (str_of path)"
    "terminated b" "str_of b = component (str_of path)" "heap_only s s0"
    "heap_owns s0 (insert (n, 256) L)" "n \<notin> fst ` L" "keeps L (mem s) (mem s0)"
    "grows 272 (placement_address s) (placement_address s0)" by blast
  let ?s1 = "s0\<lparr>names := (names s)(n \<mapsto> b)\<rparr>"
  have own1: "heap_owns ?s1 (insert (n, 256) L)" using n(8) by simp
  have "unat (8 :: u32) = 8" "(8 :: nat) \<noteq> 0" "unat (placement_address ?s1) + (16 + 8) < 4294967296"
    using room n(11) by simp_all
  note k0 = kmalloc_obtain [OF own1 this]
  obtain p s2 where k: "kmalloc 8 ?s1 = Some (p, s2)" "p \<noteq> 0" "heap_only ?s1 s2"
    "heap_owns s2 (insert (p, 8) (insert (n, 256) L))" "p \<notin> fst ` insert (n, 256) L"
    "keeps (insert (n, 256) L) (mem ?s1) (mem s2)"
    "grows (16 + 8) (placement_address ?s1) (placement_address s2)" by (rule k0) blast
  have "path_frame {p, n} L s s0" using n(7,10) by (rule path_frame_heap)
  moreover have "path_frame {p, n} L s0 ?s1"
    using heap_only_stores(3) [OF n(7)] path_frame_name [of n "{p, n}" L s0 "Some b"] by simp
  ultimately have "path_frame {p, n} L s ?s1" by (rule path_frame_trans) auto
  moreover have "path_frame {p, n} L ?s1 s2"
    using k(3,6) by (intro path_frame_heap) (auto simp: keeps_def simp del: in_region)
  ultimately have fr: "path_frame {p, n} L s s2" by (rule path_frame_trans) auto
  show ?thesis
    by (rule that [OF n(1,2) k(1,2) _ _ n(9,3,4) _ n(5,6) k(4) fr])
      (use k(5,7) n(11) heap_only_stores [OF k(3)] heap_only_stores [OF n(7)] in auto)
qed

lemma parse_tail:
  fixes s :: "('d, 'z) paths_scheme"
  assumes "heap_owns s L" "l \<in> fst ` L" "path_parts s l = Some \<lparr>part = m, part_next = 0\<rparr>" "f \<noteq> 0"
    and "terminated path" "\<forall>x \<in> set (path_components (str_of path)). length x < 256"
    and "unat (placement_address s) + 296 * length (path_components (str_of path)) + 272 < 4294967296"
  shows "\<exists>s' ts q. parse_parts path root f l s = Some s' \<and> part_chain s' q ts
    \<and> part_names ts = path_components (str_of path)
    \<and> path_parts s' l = Some \<lparr>part = m, part_next = q\<rparr>
    \<and> heap_owns s' (part_blocks ts \<union> L) \<and> distinct (part_addrs ts)
    \<and> set (part_addrs ts) \<inter> fst ` L = {}
    \<and> path_frame (insert l (set (part_addrs ts))) L s s' \<and> path_roots s' = path_roots s
    \<and> names s' l = names s l
    \<and> grows (296 * length (path_components (str_of path)) + 272) (placement_address s) (placement_address s')"
  using assms
proof (induction "path_components (str_of path)" arbitrary: path l m s L)
  case Nil
  have "component (str_of path) = []"
    using Nil.hyps component_unfold [of "str_of path"] by (simp split: if_splits)
  with next_part_none [OF Nil.prems(1) _ Nil.prems(5)] Nil.prems(7) Nil.hyps
  obtain path' s' where "path_parser_get_next_part path s = Some (0, path', s')" "heap_owns s' L"
    "heap_only s s'" "keeps L (mem s) (mem s')"
    "grows 272 (placement_address s) (placement_address s')" by auto
  then show ?case
    using Nil.prems(3) Nil.hyps heap_only_stores [of s s']
    by (intro exI [of _ s'] exI [of _ "[]"] exI [of _ 0])
      (simp add: parse_parts.simps path_frame_heap)
next
  case (Cons x xs)
  have ne: "component (str_of path) \<noteq> []" and x: "x = component (str_of path)"
    and xs: "xs = path_components (drop (Suc (length (component (str_of path)))) (str_of path))"
    using Cons.hyps(2) component_unfold [of "str_of path"] by (simp_all split: if_splits)
  have len: "length (component (str_of path)) < 256" using Cons.prems(6) Cons.hyps(2) x by (metis list.set_intros(1))
  have "unat (placement_address s) + 296 < 4294967296"
    using Cons.prems(7) by (simp add: Cons.hyps(2) [symmetric])
  note k0 = new_part [OF Cons.prems(1) this Cons.prems(5) ne len]
  obtain n path' s1 p s2 b where k: "path_parser_get_next_part path s = Some (n, path', s1)" "n \<noteq> 0"
    "kmalloc 8 s1 = Some (p, s2)" "p \<noteq> 0" "p \<noteq> n" "p \<notin> fst ` L" "n \<notin> fst ` L"
    "terminated path'" "str_of path' = drop (Suc (length (component (str_of path)))) (str_of path)"
    "names s2 n = Some b" "terminated b" "str_of b = component (str_of path)"
    "heap_owns s2 (insert (p, 8) (insert (n, 256) L))" "path_frame {p, n} L s s2"
    "path_parts s2 = path_parts s" "path_roots s2 = path_roots s"
    "grows 296 (placement_address s) (placement_address s2)" by (rule k0) blast
  let ?L = "insert (p, 8) (insert (n, 256) L)"
  let ?s3 = "s2\<lparr>path_parts := (path_parts s2)(p \<mapsto> \<lparr>part = n, part_next = 0\<rparr>)\<rparr>"
  let ?s4 = "?s3\<lparr>path_parts := (path_parts ?s3)(l \<mapsto> \<lparr>part = m, part_next = p\<rparr>)\<rparr>"
  have lp: "l \<noteq> p" "l \<noteq> n" using k(6,7) Cons.prems(2) by auto
  have run: "parse_parts path root f l s = parse_parts path' root f p ?s4"
    by (subst parse_parts.simps)
      (simp add: k(1-3) k(15) Cons.prems(3,4) lp Let_def)
  have fr4: "path_frame {l, p, n} L s ?s4"
    by (rule path_frame_trans [OF k(14) path_frame_trans [OF
        path_frame_part [of p "{p}" L] path_frame_part [of l "{l}" L], of "{l, p}"]]) auto
  have xs': "xs = path_components (str_of path')" using xs k(9) by simp
  have "\<exists>s' ts q. parse_parts path' root f p ?s4 = Some s' \<and> part_chain s' q ts
    \<and> part_names ts = path_components (str_of path')
    \<and> path_parts s' p = Some \<lparr>part = n, part_next = q\<rparr>
    \<and> heap_owns s' (part_blocks ts \<union> ?L) \<and> distinct (part_addrs ts)
    \<and> set (part_addrs ts) \<inter> fst ` ?L = {}
    \<and> path_frame (insert p (set (part_addrs ts))) ?L ?s4 s' \<and> path_roots s' = path_roots ?s4
    \<and> names s' p = names ?s4 p
    \<and> grows (296 * length (path_components (str_of path')) + 272) (placement_address ?s4) (placement_address s')"
  proof (rule Cons.hyps(1))
    show "xs = path_components (str_of path')" by (rule xs')
    show "heap_owns ?s4 ?L" using k(13) by simp
    show "path_parts ?s4 p = Some \<lparr>part = n, part_next = 0\<rparr>" using lp by auto
    show "\<forall>x \<in> set (path_components (str_of path')). length x < 256"
      using Cons.prems(6) Cons.hyps(2) xs' by (metis list.set_intros(2))
    show "unat (placement_address ?s4) + 296 * length (path_components (str_of path')) + 272 < 4294967296"
      using Cons.prems(7) k(17) xs' by (simp add: Cons.hyps(2) [symmetric])
  qed (use Cons.prems(4) k(8) in auto)
  then obtain s' ts q where r: "parse_parts path' root f p ?s4 = Some s'" "part_chain s' q ts"
    "part_names ts = path_components (str_of path')" "path_parts s' p = Some \<lparr>part = n, part_next = q\<rparr>"
    "heap_owns s' (part_blocks ts \<union> ?L)" "distinct (part_addrs ts)" "set (part_addrs ts) \<inter> fst ` ?L = {}"
    "path_frame (insert p (set (part_addrs ts))) ?L ?s4 s'" "path_roots s' = path_roots ?s4"
    "names s' p = names ?s4 p"
    "grows (296 * length (path_components (str_of path')) + 272) (placement_address ?s4) (placement_address s')"
    by blast
  have nn: "n \<notin> insert p (set (part_addrs ts))" using r(7) k(5) by auto
  then have nb: "names s' n = Some b" using r(8) k(10) by (simp add: path_frame_def)
  have "l \<notin> insert p (set (part_addrs ts))" using r(7) lp Cons.prems(2) by auto
  then have ls: "path_parts s' l = Some \<lparr>part = m, part_next = p\<rparr>" "names s' l = names s2 l"
    using r(8) lp by (simp_all add: path_frame_def)
  have "names s2 l = names s l" using k(14) lp by (simp add: path_frame_def)
  have "path_frame (insert l (set (part_addrs ((p, n, x) # ts)))) L s s'"
    by (rule path_frame_trans [OF fr4 r(8)]) auto
  moreover have "part_chain s' p ((p, n, x) # ts)"
    using r(2,4) k(4,11,12) nb x by simp
  moreover have "part_names ((p, n, x) # ts) = path_components (str_of path)"
    using r(3) xs' Cons.hyps(2) by simp
  moreover have "heap_owns s' (part_blocks ((p, n, x) # ts) \<union> L)"
    using r(5) by (simp add: Un_commute)
  moreover have "distinct (part_addrs ((p, n, x) # ts))" "set (part_addrs ((p, n, x) # ts)) \<inter> fst ` L = {}"
    using r(6,7) k(5-7) by auto
  moreover have "path_roots s' = path_roots s" using r(9) k(16) by simp
  moreover have "parse_parts path root f l s = Some s'" using run r(1) by simp
  moreover have "names s' l = names s l" using ls(2) \<open>names s2 l = _\<close> by simp
  moreover have "grows (296 * length (path_components (str_of path)) + 272) (placement_address s) (placement_address s')"
    using r(11) k(17) xs' by (simp add: Cons.hyps(2) [symmetric])
  ultimately show ?case using ls(1) by blast
qed

text \<open>The whole parse. \<open>parsed_path\<close> says what a root address stands for.\<close>

definition parsed_path :: "('d, 'z) paths_scheme \<Rightarrow> u32 \<Rightarrow> int \<Rightarrow> parsed \<Rightarrow> bool" where
  "parsed_path s root d ts \<longleftrightarrow> root \<noteq> 0 \<and> root \<notin> set (part_addrs ts) \<and> distinct (part_addrs ts)
     \<and> (\<exists>p. path_roots s root = Some \<lparr>drive_no = d, first = p\<rparr> \<and> part_chain s p ts)"

definition path_blocks :: "u32 \<Rightarrow> parsed \<Rightarrow> (u32 \<times> nat) set" where
  "path_blocks root ts = insert (root, 8) (part_blocks ts)"

definition path_addrs :: "u32 \<Rightarrow> parsed \<Rightarrow> u32 set" where
  "path_addrs root ts = insert root (set (part_addrs ts))"

lemma path_blocks_addrs: "fst ` path_blocks root ts = path_addrs root ts"
  by (simp add: path_blocks_def path_addrs_def part_blocks_addrs)

lemma parse_parts_spec:
  fixes s :: "('d, 'z) paths_scheme"
  assumes "heap_owns s L" "root \<in> fst ` L" "path_roots s root = Some \<lparr>drive_no = d, first = 0\<rparr>"
    and "terminated path" "\<forall>x \<in> set (path_components (str_of path)). length x < 256"
    and "unat (placement_address s) + 296 * length (path_components (str_of path)) + 272 < 4294967296"
  shows "\<exists>s' ts q. parse_parts path root 0 0 s = Some s' \<and> part_chain s' q ts
    \<and> part_names ts = path_components (str_of path)
    \<and> path_roots s' root = Some \<lparr>drive_no = d, first = q\<rparr>
    \<and> heap_owns s' (part_blocks ts \<union> L) \<and> distinct (part_addrs ts)
    \<and> set (part_addrs ts) \<inter> fst ` L = {}
    \<and> path_frame (insert root (set (part_addrs ts))) L s s'
    \<and> grows (296 * length (path_components (str_of path)) + 272) (placement_address s) (placement_address s')"
proof (cases "component (str_of path) = []")
  case True
  then have nil: "path_components (str_of path) = []" by (simp add: component_unfold)
  with next_part_none [OF assms(1) _ assms(4) True] assms(6)
  obtain path' s' where "path_parser_get_next_part path s = Some (0, path', s')" "heap_owns s' L"
    "heap_only s s'" "keeps L (mem s) (mem s')"
    "grows 272 (placement_address s) (placement_address s')" by auto
  then show ?thesis
    using assms(3) nil heap_only_stores [of s s']
    by (intro exI [of _ s'] exI [of _ "[]"] exI [of _ 0])
      (simp add: parse_parts.simps path_frame_heap)
next
  case ne: False
  let ?x = "component (str_of path)"
  let ?xs = "path_components (drop (Suc (length ?x)) (str_of path))"
  have comps: "path_components (str_of path) = ?x # ?xs"
    using ne by (subst component_unfold) simp
  have len: "length ?x < 256" using assms(5) comps by simp
  have "unat (placement_address s) + 296 < 4294967296" using assms(6) comps by simp
  note k0 = new_part [OF assms(1) this assms(4) ne len]
  obtain n path' s1 p s2 b where k: "path_parser_get_next_part path s = Some (n, path', s1)" "n \<noteq> 0"
    "kmalloc 8 s1 = Some (p, s2)" "p \<noteq> 0" "p \<noteq> n" "p \<notin> fst ` L" "n \<notin> fst ` L"
    "terminated path'" "str_of path' = drop (Suc (length ?x)) (str_of path)"
    "names s2 n = Some b" "terminated b" "str_of b = ?x"
    "heap_owns s2 (insert (p, 8) (insert (n, 256) L))" "path_frame {p, n} L s s2"
    "path_parts s2 = path_parts s" "path_roots s2 = path_roots s"
    "grows 296 (placement_address s) (placement_address s2)" by (rule k0) blast
  let ?L = "insert (p, 8) (insert (n, 256) L)"
  let ?s3 = "s2\<lparr>path_parts := (path_parts s2)(p \<mapsto> \<lparr>part = n, part_next = 0\<rparr>)\<rparr>"
  let ?s4 = "?s3\<lparr>path_roots := (path_roots ?s3)(root \<mapsto> \<lparr>drive_no = d, first = p\<rparr>)\<rparr>"
  have run: "parse_parts path root 0 0 s = parse_parts path' root p p ?s4"
    by (subst parse_parts.simps)
      (simp add: k(1-3) k(16) assms(3) Let_def)
  have fr4: "path_frame {root, p, n} L s ?s4"
    by (rule path_frame_trans [OF k(14) path_frame_trans [OF
        path_frame_part [of p "{p}" L] path_frame_root [of root "{root}" L], of "{root, p}"]]) auto
  have "heap_owns ?s4 ?L" "p \<in> fst ` ?L" "path_parts ?s4 p = Some \<lparr>part = n, part_next = 0\<rparr>"
    "\<forall>x \<in> set (path_components (str_of path')). length x < 256"
    "unat (placement_address ?s4) + 296 * length (path_components (str_of path')) + 272 < 4294967296"
    using k(13) k(9) k(17) assms(5,6) comps by auto
  from parse_tail [OF this(1-3) k(4) k(8) this(4-5), of root]
  obtain s' ts q where r: "parse_parts path' root p p ?s4 = Some s'" "part_chain s' q ts"
    "part_names ts = path_components (str_of path')" "path_parts s' p = Some \<lparr>part = n, part_next = q\<rparr>"
    "heap_owns s' (part_blocks ts \<union> ?L)" "distinct (part_addrs ts)" "set (part_addrs ts) \<inter> fst ` ?L = {}"
    "path_frame (insert p (set (part_addrs ts))) ?L ?s4 s'" "path_roots s' = path_roots ?s4"
    "grows (296 * length (path_components (str_of path')) + 272) (placement_address ?s4) (placement_address s')"
    by blast
  have nb: "names s' n = Some b" using r(7,8) k(5,10) by (auto simp: path_frame_def)
  have "path_frame (insert root (set (part_addrs ((p, n, ?x) # ts)))) L s s'"
    by (rule path_frame_trans [OF fr4 r(8)]) auto
  moreover have "part_chain s' p ((p, n, ?x) # ts)"
    using r(2,4) k(4,11,12) nb by simp
  moreover have "part_names ((p, n, ?x) # ts) = path_components (str_of path)"
    using r(3) k(9) comps by simp
  moreover have "heap_owns s' (part_blocks ((p, n, ?x) # ts) \<union> L)"
    using r(5) by (simp add: Un_commute)
  moreover have "distinct (part_addrs ((p, n, ?x) # ts))" "set (part_addrs ((p, n, ?x) # ts)) \<inter> fst ` L = {}"
    using r(6,7) k(5-7) by auto
  moreover have "path_roots s' root = Some \<lparr>drive_no = d, first = p\<rparr>" using r(9) by simp
  moreover have "grows (296 * length (path_components (str_of path)) + 272) (placement_address s) (placement_address s')"
    using r(10) k(17) k(9) comps by simp
  moreover have "parse_parts path root 0 0 s = Some s'" using run r(1) by simp
  ultimately show ?thesis by blast
qed

lemma path_parser_parse_spec:
  fixes s :: "('d, 'z) paths_scheme"
  assumes "heap_owns s L" "isdigit c" "terminated t"
    and "\<forall>x \<in> set (path_components (str_of t)). length x < 256"
    and "unat (placement_address s) + 296 * length (path_components (str_of t)) + 296 < 4294967296"
  shows "\<exists>root s' ts. path_parser_parse (c # 58 # 47 # t) s = Some (root, s')
    \<and> parsed_path s' root (sint c - 48) ts \<and> part_names ts = path_components (str_of t)
    \<and> heap_owns s' (path_blocks root ts \<union> L) \<and> path_addrs root ts \<inter> fst ` L = {}
    \<and> path_frame (path_addrs root ts) L s s'
    \<and> grows (296 * length (path_components (str_of t)) + 296) (placement_address s) (placement_address s')"
proof -
  have "unat (8 :: u32) = 8" "(8 :: nat) \<noteq> 0" "unat (placement_address s) + (16 + 8) < 4294967296"
    using assms(5) by simp_all
  note k0 = kmalloc_obtain [OF assms(1) this]
  obtain root s1 where k: "kmalloc 8 s = Some (root, s1)" "root \<noteq> 0" "heap_only s s1"
    "heap_owns s1 (insert (root, 8) L)" "root \<notin> fst ` L" "keeps L (mem s) (mem s1)"
    "grows (16 + 8) (placement_address s) (placement_address s1)" by (rule k0) blast
  let ?s2 = "s1\<lparr>path_roots := (path_roots s1)(root \<mapsto> \<lparr>drive_no = sint c - 48, first = 0\<rparr>)\<rparr>"
  have "heap_owns ?s2 (insert (root, 8) L)" "root \<in> fst ` insert (root, 8) L"
    "path_roots ?s2 root = Some \<lparr>drive_no = sint c - 48, first = 0\<rparr>"
    "unat (placement_address ?s2) + 296 * length (path_components (str_of t)) + 272 < 4294967296"
    using k(4,7) assms(5) by simp_all
  from parse_parts_spec [OF this(1-3) assms(3,4) this(4)]
  obtain s' ts q where r: "parse_parts t root 0 0 ?s2 = Some s'" "part_chain s' q ts"
    "part_names ts = path_components (str_of t)" "path_roots s' root = Some \<lparr>drive_no = sint c - 48, first = q\<rparr>"
    "heap_owns s' (part_blocks ts \<union> insert (root, 8) L)" "distinct (part_addrs ts)"
    "set (part_addrs ts) \<inter> fst ` insert (root, 8) L = {}"
    "path_frame (insert root (set (part_addrs ts))) (insert (root, 8) L) ?s2 s'"
    "grows (296 * length (path_components (str_of t)) + 272) (placement_address ?s2) (placement_address s')" by blast
  have run: "path_parser_parse (c # 58 # 47 # t) s = Some (root, s')"
    using assms(2) digit_value [OF assms(2)] r(1)
    by (simp add: path_parser_parse_def get_drive_no_ok path_parser_create_root_def k(1))
  have "path_frame {root} L s ?s2"
    by (rule path_frame_trans [OF path_frame_heap [OF k(3,6), of "{}"] path_frame_root [of root "{root}" L]]) auto
  then have "path_frame (path_addrs root ts) L s s'"
    unfolding path_addrs_def by (rule path_frame_trans [OF _ r(8)]) auto
  moreover have "parsed_path s' root (sint c - 48) ts"
    using r(2,4,6,7) k(2) by (auto simp: parsed_path_def)
  moreover have "heap_owns s' (path_blocks root ts \<union> L)" using r(5) by (simp add: path_blocks_def)
  moreover have "path_addrs root ts \<inter> fst ` L = {}" using r(7) k(5) by (auto simp: path_addrs_def)
  moreover have "grows (296 * length (path_components (str_of t)) + 296) (placement_address s) (placement_address s')"
    using r(9) k(7) by simp
  ultimately show ?thesis using run r(3) by blast
qed

section \<open>Freeing a path\<close>

lemma free_block:
  fixes h :: "('d, 'z) kheap_scheme"
  assumes "heap_owns h (insert (p, n) L)" "p \<notin> fst ` L"
  shows "heap_owns (kfree p h) L" "heap_only h (kfree p h)" "keeps L (mem h) (mem (kfree p h))"
    "placement_address (kfree p h) = placement_address h"
proof -
  have e: "insert (p, n) L - {(p, n)} = L" using assms(2) by force
  have k: "heap_owns (kfree p h) (insert (p, n) L - {(p, n)})" "heap_only h (kfree p h)"
    "\<forall>q k. (q, k) \<in> insert (p, n) L \<longrightarrow> (\<forall>x \<in> region q k. mem (kfree p h) x = mem h x)"
    "placement_address (kfree p h) = placement_address h"
    using kfree_spec [OF assms(1), of p n] by blast+
  show "heap_owns (kfree p h) L" using k(1) unfolding e .
  show "keeps L (mem h) (mem (kfree p h))" using k(3) by (simp add: keeps_def del: in_region)
qed (use kfree_spec [OF assms(1), of p n] in blast)+

lemma free_parts_spec:
  fixes s :: "('d, 'z) paths_scheme"
  assumes "heap_owns s (part_blocks ts \<union> L)" "part_chain s p ts" "distinct (part_addrs ts)"
    and "set (part_addrs ts) \<inter> fst ` L = {}"
  shows "\<exists>s'. free_parts p s = Some s' \<and> heap_owns s' L \<and> path_frame (set (part_addrs ts)) L s s'
    \<and> path_roots s' = path_roots s \<and> placement_address s' = placement_address s
    \<and> (\<forall>(a, n, x) \<in> set ts. path_parts s' a = None \<and> names s' n = None)"
  using assms
proof (induction ts arbitrary: p s)
  case Nil
  then show ?case
    by (intro exI [of _ s]) (simp add: free_parts.simps path_frame_def)
next
  case (Cons t ts)
  obtain a n x where t: "t = (a, n, x)" by (cases t)
  obtain q where q: "p \<noteq> 0" "a = p" "path_parts s p = Some \<lparr>part = n, part_next = q\<rparr>" "part_chain s q ts"
    using Cons.prems(2) t by auto
  have d: "a \<noteq> n" "a \<notin> set (part_addrs ts)" "n \<notin> set (part_addrs ts)" "distinct (part_addrs ts)"
    "a \<notin> fst ` L" "n \<notin> fst ` L" "set (part_addrs ts) \<inter> fst ` L = {}"
    using Cons.prems(3,4) t by auto
  let ?K = "part_blocks ts \<union> L"
  have own: "heap_owns s (insert (n, 256) (insert (a, 8) ?K))"
    using Cons.prems(1) t by (simp add: insert_commute)
  have nin: "n \<notin> fst ` insert (a, 8) ?K" "a \<notin> fst ` ?K"
    using d by (simp_all add: image_Un part_blocks_addrs)
  note f1 = free_block [OF own nin(1)]
  let ?s1 = "(kfree n s)\<lparr>names := (names s)(n := None)\<rparr>"
  have "heap_owns ?s1 (insert (a, 8) ?K)" using f1(1) by simp
  note f2 = free_block [OF this nin(2)]
  let ?s2 = "(kfree a ?s1)\<lparr>path_parts := (path_parts s)(a := None)\<rparr>"
  note st1 = heap_only_stores [OF f1(2)] and st2 = heap_only_stores [OF f2(2)]
  have run: "free_parts p s = free_parts q ?s2"
    by (subst free_parts.simps) (use q st1 st2 in \<open>simp add: Let_def\<close>)
  have n1: "path_frame {n} L (kfree n s) ?s1"
    using path_frame_name [of n "{n}" L "kfree n s" None] st1 by simp
  have keep1: "keeps L (mem s) (mem (kfree n s))" using f1(3) by (auto simp: keeps_def simp del: in_region)
  have fr1: "path_frame {n} L s ?s1"
    by (rule path_frame_trans [OF path_frame_heap [OF f1(2) keep1, of "{n}"] n1]) auto
  have p1: "path_frame {a} L (kfree a ?s1) ?s2"
    using path_frame_part [of a "{a}" L "kfree a ?s1" None] st1 st2 by simp
  have keep2: "keeps L (mem ?s1) (mem (kfree a ?s1))" using f2(3) by (auto simp: keeps_def simp del: in_region)
  have fr2: "path_frame {a} L ?s1 ?s2"
    by (rule path_frame_trans [OF path_frame_heap [OF f2(2) keep2, of "{a}"] p1]) auto
  have fr: "path_frame {a, n} L s ?s2" by (rule path_frame_trans [OF fr1 fr2]) auto
  have "part_chain ?s2 q ts \<longleftrightarrow> part_chain s q ts"
    by (rule part_chain_cong) (use d st1 st2 in auto)
  then have "part_chain ?s2 q ts" using q(4) by simp
  moreover have "heap_owns ?s2 (part_blocks ts \<union> L)" using f2(1) by simp
  ultimately obtain s' where s': "free_parts q ?s2 = Some s'" "heap_owns s' L"
    "path_frame (set (part_addrs ts)) L ?s2 s'" "path_roots s' = path_roots ?s2"
    "placement_address s' = placement_address ?s2"
    "\<forall>(a, n, x) \<in> set ts. path_parts s' a = None \<and> names s' n = None"
    using Cons.IH [of ?s2 q] d by blast
  have "path_frame (set (part_addrs (t # ts))) L s s'"
    by (rule path_frame_trans [OF fr s'(3)]) (auto simp: t)
  moreover have "path_parts s' a = None" using s'(3) d(2) by (simp add: path_frame_def)
  moreover have "names s' n = None" using s'(3) d(3) st1 st2 by (simp add: path_frame_def)
  ultimately show ?case using run s' f1(4) f2(4) st1 st2 t by simp
qed

lemma path_parser_free_spec:
  fixes s :: "('d, 'z) paths_scheme"
  assumes "heap_owns s (path_blocks root ts \<union> L)" "parsed_path s root d ts" "path_addrs root ts \<inter> fst ` L = {}"
  shows "\<exists>s'. path_parser_free root s = Some s' \<and> heap_owns s' L \<and> path_frame (path_addrs root ts) L s s'
    \<and> placement_address s' = placement_address s \<and> path_roots s' root = None
    \<and> (\<forall>(a, n, x) \<in> set ts. path_parts s' a = None \<and> names s' n = None)
    \<and> (\<forall>a. a \<noteq> root \<longrightarrow> path_roots s' a = path_roots s a)"
proof -
  obtain p where p: "path_roots s root = Some \<lparr>drive_no = d, first = p\<rparr>" "part_chain s p ts"
    and d: "distinct (part_addrs ts)" "root \<notin> set (part_addrs ts)"
    using assms(2) by (auto simp: parsed_path_def)
  have "heap_owns s (part_blocks ts \<union> insert (root, 8) L)" "set (part_addrs ts) \<inter> fst ` insert (root, 8) L = {}"
    using assms(1,3) d(2) by (auto simp: path_blocks_def path_addrs_def)
  from free_parts_spec [OF this(1) p(2) d(1) this(2)]
  obtain s1 where s1: "free_parts p s = Some s1" "heap_owns s1 (insert (root, 8) L)"
    "path_frame (set (part_addrs ts)) (insert (root, 8) L) s s1"
    "path_roots s1 = path_roots s" "placement_address s1 = placement_address s"
    "\<forall>(a, n, x) \<in> set ts. path_parts s1 a = None \<and> names s1 n = None" by blast
  have "root \<notin> fst ` L" using assms(3) by (simp add: path_addrs_def)
  note f = free_block [OF s1(2) this]
  note st = heap_only_stores [OF f(2)]
  let ?s' = "(kfree root s1)\<lparr>path_roots := (path_roots s1)(root := None)\<rparr>"
  have r1: "path_frame {root} L (kfree root s1) ?s'"
    using path_frame_root [of root "{root}" L "kfree root s1" None] st by simp
  have fr1: "path_frame {root} L s1 ?s'"
    by (rule path_frame_trans [OF path_frame_heap [OF f(2,3), of "{root}"] r1]) auto
  have fr0: "path_frame (set (part_addrs ts)) L s s1"
    using s1(3) by (auto simp: path_frame_def keeps_def simp del: in_region)
  have "path_frame (path_addrs root ts) L s ?s'"
    by (rule path_frame_trans [OF fr0 fr1]) (auto simp: path_addrs_def)
  moreover have "path_parser_free root s = Some ?s'"
    using p s1(1) st by (simp add: path_parser_free_def)
  ultimately show ?thesis using f(1,4) s1(4-6) st by simp
qed

lemma parse_free_stores:
  fixes s :: "('d, 'z) paths_scheme"
  assumes own: "heap_owns s L" and c: "isdigit c" "terminated t"
    and fits: "\<forall>x \<in> set (path_components (str_of t)). length x < 256"
    and room: "unat (placement_address s) + 296 * length (path_components (str_of t)) + 296 < 4294967296"
  shows "\<exists>root s1 ts s2. path_parser_parse (c # 58 # 47 # t) s = Some (root, s1)
    \<and> parsed_path s1 root (sint c - 48) ts \<and> part_names ts = path_components (str_of t)
    \<and> path_parser_free root s1 = Some s2 \<and> heap_owns s2 L \<and> paths_only s s2 \<and> keeps L (mem s) (mem s2)"
proof -
  obtain root s1 ts where p: "path_parser_parse (c # 58 # 47 # t) s = Some (root, s1)"
    "parsed_path s1 root (sint c - 48) ts" "part_names ts = path_components (str_of t)"
    "heap_owns s1 (path_blocks root ts \<union> L)" "path_addrs root ts \<inter> fst ` L = {}"
    "path_frame (path_addrs root ts) L s s1"
    using path_parser_parse_spec [OF own c fits room] by blast
  obtain s2 where f: "path_parser_free root s1 = Some s2" "heap_owns s2 L" "path_frame (path_addrs root ts) L s1 s2"
    using path_parser_free_spec [OF p(4,2,5)] by blast
  have "path_frame (path_addrs root ts) L s s2" by (rule path_frame_trans [OF p(6) f(3)]) auto
  then show ?thesis using p f unfolding path_frame_def by blast
qed

section \<open>Properties\<close>

text \<open>A component that does not fit its buffer is written past the end of it.\<close>

lemma next_part_overflow:
  fixes s :: "('d, 'z) paths_scheme"
  assumes "terminated t" "256 \<le> length (component (str_of t))" "kmalloc 256 s = Some (n, s1)"
  shows "path_parser_get_next_part t s = None"
proof -
  let ?buf = "map (\<lambda>i. mem s1 (n + of_nat i)) [0..<256]"
  show ?thesis
  proof (cases "length (component (str_of t)) = 256")
    case True
    then have "copy_part t ?buf 0 = Some (component (str_of t), 256, drop 256 t)"
      using copy_part_spec [of t 0 ?buf] assms(1) by simp
    then show ?thesis
      using assms(3) True by (simp add: path_parser_get_next_part_def wr_def Let_def del: upt_rec_numeral)
  next
    case False
    then have "copy_part t ?buf 0 = None" using copy_part_overflow [of t 0 ?buf] assms by simp
    then show ?thesis using assms(3) by (simp add: path_parser_get_next_part_def del: upt_rec_numeral)
  qed
qed

definition boot_paths :: "'d disk \<Rightarrow> 'd paths" where
  "boot_paths s = disk.extend s \<lparr>path_roots = Map.empty, path_parts = Map.empty, names = Map.empty\<rparr>"

lemma boot_paths_owns: "heap_owns (boot_paths (boot_disk d)) {}"
  and boot_paths_placement: "placement_address (boot_paths (boot_disk d)) = 0x20000"
  by (rule heap_owns_empty;
    simp add: boot_paths_def disk.extend_def boot_disk_def keyboard.extend_def boot_keyboard_def
      cpu.extend_def boot_cpu_def)
    (simp add: boot_paths_def disk.extend_def boot_disk_def keyboard.extend_def boot_keyboard_def
      cpu.extend_def boot_cpu_def)

lemma bin_sh: "path_components [98, 105, 110, 47, 115, 104] = [[98, 105, 110], [115, 104]]"
  by (simp add: component_unfold component_def)

text \<open>C20: \<open>path_parser_parse\<close> turns a path of a drive digit and components into a root that holds
  the drive's number and, in order, exactly the components before the first empty one, each as a
  C string of its own block; what other owners hold in memory is kept.\<close>

theorem path_parser_parse_components:
  fixes s :: "('d, 'z) paths_scheme"
  assumes "heap_owns s L" "isdigit c" "terminated t"
    and "\<forall>x \<in> set (path_components (str_of t)). length x < 256"
    and "unat (placement_address s) + 296 * length (path_components (str_of t)) + 296 < 4294967296"
  shows "\<exists>root s' ts. path_parser_parse (c # 58 # 47 # t) s = Some (root, s')
    \<and> parsed_path s' root (sint c - 48) ts \<and> part_names ts = path_components (str_of t)
    \<and> heap_owns s' (path_blocks root ts \<union> L) \<and> keeps L (mem s) (mem s')"
  using path_parser_parse_spec [OF assms] unfolding path_frame_def by blast

theorem path_parser_parse_components_witness:
  "\<exists>root s' ts. path_parser_parse (lit ''0:/bin/sh'') (boot_paths (boot_disk blank_drives)) = Some (root, s')
    \<and> parsed_path s' root 0 ts \<and> part_names ts = [bytes_of ''bin'', bytes_of ''sh'']"
  using path_parser_parse_components [of "boot_paths (boot_disk blank_drives)" "{}" 48 "lit ''bin/sh''"]
  by (auto simp: bin_sh boot_paths_owns boot_paths_placement isdigit_def chars)

text \<open>A path that does not start with a digit, a colon and a slash gives NULL, with nothing
  allocated.\<close>

theorem path_parser_rejects:
  assumes "terminated path"
    and "\<not> (\<exists>c t. path = c # 58 # 47 # t \<and> isdigit c)"
  shows "path_parser_parse path s = Some (0, s)"
proof -
  have "path_parser_get_drive_no path = Some (-1, path)"
  proof (cases path)
    case (Cons c p)
    show ?thesis
    proof (cases "isdigit c")
      case True
      then have "c \<noteq> 0" by (auto simp: isdigit_def)
      with assms(1) Cons obtain c1 p1 where p: "p = c1 # p1" by (cases p) auto
      show ?thesis
      proof (cases "c1 = 58")
        case c1: True
        with assms(1) Cons p \<open>c \<noteq> 0\<close> obtain c2 p2 where "p1 = c2 # p2" by (cases p1) auto
        then show ?thesis using assms(2) True c1 p Cons
          by (auto simp: path_parser_get_drive_no_def rd_def)
      qed (simp add: path_parser_get_drive_no_def rd_def Cons p True)
    qed (simp add: path_parser_get_drive_no_def rd_def Cons)
  qed (use assms in simp)
  then show ?thesis by (simp add: path_parser_parse_def)
qed

theorem path_parser_rejects_witness:
  "path_parser_parse (lit ''bin/sh'') s = Some (0, s)"
  by (rule path_parser_rejects) (simp_all add: chars)

text \<open>A path whose first component has 256 characters or more is written past its 256-byte
  buffer: \<open>path_parser_parse\<close> does not bound the copy.\<close>

theorem path_parser_overflows:
  fixes s :: "('d, 'z) paths_scheme"
  assumes own: "heap_owns s L" and room: "unat (placement_address s) + 296 < 4294967296"
    and path: "isdigit c" "terminated t" "256 \<le> length (takeWhile (\<lambda>x. x \<noteq> 47) (str_of t))"
  shows "path_parser_parse (c # 58 # 47 # t) s = None"
proof -
  have "unat (8 :: u32) = 8" "(8 :: nat) \<noteq> 0" "unat (placement_address s) + (16 + 8) < 4294967296"
    using room by simp_all
  note k0 = kmalloc_obtain [OF own this]
  obtain root s1 where k: "kmalloc 8 s = Some (root, s1)" "heap_owns s1 (insert (root, 8) L)"
    "grows (16 + 8) (placement_address s) (placement_address s1)" by (rule k0) blast
  let ?s2 = "s1\<lparr>path_roots := (path_roots s1)(root \<mapsto> \<lparr>drive_no = sint c - 48, first = 0\<rparr>)\<rparr>"
  have own2: "heap_owns ?s2 (insert (root, 8) L)" using k(2) by simp
  have "unat (256 :: u32) = 256" "(256 :: nat) \<noteq> 0" "unat (placement_address ?s2) + (16 + 256) < 4294967296"
    using room k(3) by simp_all
  note k1 = kmalloc_obtain [OF own2 this]
  obtain n s3 where n: "kmalloc 256 ?s2 = Some (n, s3)" by (rule k1) blast
  have "path_parser_get_next_part t ?s2 = None"
    using next_part_overflow [OF path(2) _ n] path(3) by (simp add: component_def)
  then show ?thesis
    using path(1) digit_value [OF path(1)]
    by (simp add: path_parser_parse_def get_drive_no_ok path_parser_create_root_def k(1) parse_parts.simps)
qed

theorem path_parser_overflows_witness:
  "path_parser_parse (48 # 58 # 47 # replicate 256 65 @ [0]) (boot_paths (boot_disk blank_drives)) = None"
  using path_parser_overflows [of "boot_paths (boot_disk blank_drives)" "{}" 48 "replicate 256 65 @ [0]"]
  by (simp add: boot_paths_owns boot_paths_placement isdigit_def str_of_append)

text \<open>Freeing what was parsed gives back every block: the heap has the owners that it had before
  the parse, with their memory, and only the heap and the parser's own objects have changed.\<close>

theorem path_parser_parse_free:
  fixes s :: "('d, 'z) paths_scheme"
  assumes own: "heap_owns s L" and c: "isdigit c" "terminated t"
    and fits: "\<forall>x \<in> set (path_components (str_of t)). length x < 256"
    and room: "unat (placement_address s) + 296 * length (path_components (str_of t)) + 296 < 4294967296"
  shows "\<exists>root s1 s2. path_parser_parse (c # 58 # 47 # t) s = Some (root, s1)
    \<and> path_parser_free root s1 = Some s2 \<and> heap_owns s2 L \<and> keeps L (mem s) (mem s2) \<and> paths_only s s2"
  using parse_free_stores [OF assms] by blast

theorem path_parser_parse_free_witness:
  "\<exists>root s1 s2. path_parser_parse (lit ''0:/bin/sh'') (boot_paths (boot_disk blank_drives)) = Some (root, s1)
    \<and> path_parser_free root s1 = Some s2 \<and> heap_owns s2 {}"
  using path_parser_parse_free [of "boot_paths (boot_disk blank_drives)" "{}" 48 "lit ''bin/sh''"]
  by (auto simp: bin_sh boot_paths_owns boot_paths_placement isdigit_def chars)

end
