(* ===== verification/Fat16.thy ===== *)
theory Fat16
  imports FatFormat PathParser
begin

text \<open>
  The FAT16 driver, \<open>src/fs/fat16.c\<close>. A \<open>struct disk *\<close> is an index into \<open>disks\<close> (the
  array of \<open>src/fs/file.c\<close>); the driver's private data and its open files are objects on the heap,
  in the stores \<open>fat_privates\<close> and \<open>fat_files\<close>. What a function writes through its \<open>out\<close>
  pointer is part of its result.
\<close>

section \<open>State\<close>

record fs_disk =
  disk_no :: int
  fs_private :: u32

record fat_private =
  bpb :: fat_boot_sector
  stream :: u32

record fat_file_descriptor =
  desc_item :: fat_directory_item
  file_pos :: u32
  last_cluster :: u32
  last_cluster_pos :: u32

record 'd fat = "'d paths" +
  disks :: "fs_disk list"
  fat_privates :: "u32 \<Rightarrow> fat_private option"
  fat_files :: "u32 \<Rightarrow> fat_file_descriptor option"

datatype FILE_MODE = FILE_MODE_READ | FILE_MODE_WRITE | FILE_MODE_APPEND | FILE_MODE_INVALID

datatype FILE_SEEK_MODE = FILE_SEEK_SET | FILE_SEEK_CUR | FILE_SEEK_END

record file_stat =
  stat_flags :: u32
  stat_filesize :: u32

definition FAT16_CLUSTER_RESERVED_MIN :: u32 where "FAT16_CLUSTER_RESERVED_MIN = 0xFFF0"
definition FAT16_CLUSTER_LAST_MIN :: u32 where "FAT16_CLUSTER_LAST_MIN = 0xFFF8"

definition private_of :: "nat \<Rightarrow> ('d, 'z) fat_scheme \<Rightarrow> fat_private option" where
  "private_of disk s = do { d \<leftarrow> rd (disks s) disk; fat_privates s (fs_private d) }"

definition cluster_size :: "fat_boot_sector \<Rightarrow> u32" where
  "cluster_size b = ucast (sectors_per_cluster b) * ucast (bytes_per_sector b)"

section \<open>Clusters\<close>

definition fat16_get_fat_entry ::
  "'d port_io \<Rightarrow> nat \<Rightarrow> u32 \<Rightarrow> ('d, 'z) fat_scheme \<Rightarrow> (u32 \<times> ('d, 'z) fat_scheme) option" where
  "fat16_get_fat_entry io disk cluster s = do {
     pr \<leftarrow> private_of disk s;
     let fat_table_sector = (ucast (reserved_sectors (bpb pr)) :: u32);
     let fat_table_offset = cluster * 2;
     let fat_table_abs_pos = fat_table_sector * ucast (bytes_per_sector (bpb pr)) + fat_table_offset;
     (_, s) \<leftarrow> diskstream_seek (stream pr) fat_table_abs_pos s;
     (r, entry, s) \<leftarrow> diskstream_read io (stream pr) 2 s;
     if r \<noteq> 0 then Some (0xFFFF, s) else Some (ucast (le16 entry 0), s)
   }"

primrec skip_clusters ::
  "'d port_io \<Rightarrow> nat \<Rightarrow> nat \<Rightarrow> u32 \<Rightarrow> ('d, 'z) fat_scheme \<Rightarrow> (u32 \<times> ('d, 'z) fat_scheme) option" where
  "skip_clusters io disk 0 current_cluster s = Some (current_cluster, s)"
| "skip_clusters io disk (Suc clusters_to_skip) current_cluster s = do {
     (current_cluster, s) \<leftarrow> fat16_get_fat_entry io disk current_cluster s;
     if current_cluster \<ge> FAT16_CLUSTER_LAST_MIN then Some (0xFFFF, s)
     else skip_clusters io disk clusters_to_skip current_cluster s
   }"

definition fat16_get_cluster_for_offset ::
  "'d port_io \<Rightarrow> nat \<Rightarrow> u32 \<Rightarrow> u32 \<Rightarrow> ('d, 'z) fat_scheme \<Rightarrow> (u32 \<times> ('d, 'z) fat_scheme) option" where
  "fat16_get_cluster_for_offset io disk start_cluster offset s = do {
     pr \<leftarrow> private_of disk s;
     let cluster_size = cluster_size (bpb pr);
     if cluster_size = 0 then None
     else skip_clusters io disk (unat (offset div cluster_size)) start_cluster s
   }"

definition root_directory_sector :: "fat_boot_sector \<Rightarrow> u32" where
  "root_directory_sector b = ucast (reserved_sectors b) + ucast (fat_copies b) * ucast (fat_sectors b)"

definition cluster_to_sector :: "fat_boot_sector \<Rightarrow> u32 \<Rightarrow> u32" where
  "cluster_to_sector b cluster =
     (let root_dir_sectors = (ucast (root_dir_entries b) * 32 + (ucast (bytes_per_sector b) - 1)) div ucast (bytes_per_sector b);
          first_data_sector = ucast (reserved_sectors b) + ucast (fat_copies b) * ucast (fat_sectors b) + root_dir_sectors
      in first_data_sector + (cluster - 2) * ucast (sectors_per_cluster b))"

definition fat16_cluster_to_sector :: "nat \<Rightarrow> u32 \<Rightarrow> ('d, 'z) fat_scheme \<Rightarrow> u32 option" where
  "fat16_cluster_to_sector disk cluster s = do {
     pr \<leftarrow> private_of disk s;
     if bytes_per_sector (bpb pr) = 0 then None else Some (cluster_to_sector (bpb pr) cluster)
   }"

definition fat16_get_root_directory_sector :: "nat \<Rightarrow> ('d, 'z) fat_scheme \<Rightarrow> u32 option" where
  "fat16_get_root_directory_sector disk s = do {
     pr \<leftarrow> private_of disk s;
     Some (root_directory_sector (bpb pr))
   }"

definition fat16_get_bytes_per_sector :: "nat \<Rightarrow> ('d, 'z) fat_scheme \<Rightarrow> u32 option" where
  "fat16_get_bytes_per_sector disk s = do {
     pr \<leftarrow> private_of disk s;
     Some (ucast (bytes_per_sector (bpb pr)))
   }"

section \<open>Directories\<close>

text \<open>What one pass of a directory loop finds: the end of the directory, an item to skip, an
  item that matches, or nothing.\<close>

datatype pass = Read_error | End_mark | Match fat_directory_item | No_match

definition directory_pass ::
  "'d port_io \<Rightarrow> u32 \<Rightarrow> u8 list \<Rightarrow> ('d, 'z) fat_scheme \<Rightarrow> (pass \<times> ('d, 'z) fat_scheme) option" where
  "directory_pass io st name s = do {
     (r, bytes, s) \<leftarrow> diskstream_read io st 32 s;
     if r \<noteq> 0 then Some (Read_error, s)
     else do {
       let item = read_directory_item bytes;
       if filename item ! 0 = 0 then Some (End_mark, s)
       else if filename item ! 0 = 0xE5 then Some (No_match, s)
       else do {
         out_name \<leftarrow> fat16_get_full_relative_filename item (replicate 13 0) 13;
         c \<leftarrow> strncasecmp out_name name 13;
         Some (if c = 0 then Match item else No_match, s)
       }
     }
   }"

text \<open>The loop over the items of a directory occurs twice, with codes of its own for a failed read
  and for the end mark; \<open>rest\<close> is the code when the loop runs out.\<close>

primrec entries_loop ::
  "int \<Rightarrow> int \<Rightarrow> int \<Rightarrow> 'd port_io \<Rightarrow> u32 \<Rightarrow> u8 list \<Rightarrow> nat \<Rightarrow> ('d, 'z) fat_scheme
    \<Rightarrow> (int \<times> fat_directory_item option \<times> ('d, 'z) fat_scheme) option" where
  "entries_loop failed marked rest io st name 0 s = Some (rest, None, s)"
| "entries_loop failed marked rest io st name (Suc n) s = do {
     (p, s) \<leftarrow> directory_pass io st name s;
     case p of Read_error \<Rightarrow> Some (failed, None, s)
     | End_mark \<Rightarrow> Some (marked, None, s)
     | Match item \<Rightarrow> Some (0, Some item, s)
     | No_match \<Rightarrow> entries_loop failed marked rest io st name n s
   }"

definition root_entries_loop ::
  "'d port_io \<Rightarrow> u32 \<Rightarrow> u8 list \<Rightarrow> nat \<Rightarrow> ('d, 'z) fat_scheme
    \<Rightarrow> (int \<times> fat_directory_item option \<times> ('d, 'z) fat_scheme) option" where
  "root_entries_loop = entries_loop (-1) (-4) (-4)"

text \<open>In a cluster, \<open>1\<close> stands for "go on with the next cluster".\<close>

definition cluster_entries_loop ::
  "'d port_io \<Rightarrow> u32 \<Rightarrow> u8 list \<Rightarrow> nat \<Rightarrow> ('d, 'z) fat_scheme
    \<Rightarrow> (int \<times> fat_directory_item option \<times> ('d, 'z) fat_scheme) option" where
  "cluster_entries_loop = entries_loop (-2) (-3) 1"

partial_function (option) subdirectory_loop ::
  "'d port_io \<Rightarrow> nat \<Rightarrow> fat_private \<Rightarrow> u8 list \<Rightarrow> u32 \<Rightarrow> ('d, 'z) fat_scheme
    \<Rightarrow> (int \<times> fat_directory_item option \<times> ('d, 'z) fat_scheme) option" where
  "subdirectory_loop io disk pr name current_cluster s =
     (if current_cluster < FAT16_CLUSTER_RESERVED_MIN then do {
        abs_sector \<leftarrow> fat16_cluster_to_sector disk current_cluster s;
        (_, s) \<leftarrow> diskstream_seek (stream pr) (abs_sector * ucast (bytes_per_sector (bpb pr))) s;
        (r, item, s) \<leftarrow> cluster_entries_loop io (stream pr) name (unat (cluster_size (bpb pr) div 32)) s;
        if r \<noteq> 1 then Some (r, item, s)
        else do {
          (current_cluster, s) \<leftarrow> fat16_get_fat_entry io disk current_cluster s;
          subdirectory_loop io disk pr name current_cluster s
        }
      } else Some (-4, None, s))"

definition fat16_get_directory_entry ::
  "'d port_io \<Rightarrow> nat \<Rightarrow> u32 \<Rightarrow> u8 list \<Rightarrow> ('d, 'z) fat_scheme
    \<Rightarrow> (int \<times> fat_directory_item option \<times> ('d, 'z) fat_scheme) option" where
  "fat16_get_directory_entry io disk cluster name s = do {
     pr \<leftarrow> private_of disk s;
     if cluster = 0 then do {
       root_dir_sector \<leftarrow> fat16_get_root_directory_sector disk s;
       (_, s) \<leftarrow> diskstream_seek (stream pr) (root_dir_sector * ucast (bytes_per_sector (bpb pr))) s;
       root_entries_loop io (stream pr) name (unat (root_dir_entries (bpb pr))) s
     } else subdirectory_loop io disk pr name cluster s
   }"


text \<open>The path is the address of a \<open>struct path_part\<close>; \<open>part_string s p\<close> is its \<open>part\<close>.\<close>

definition part_string :: "u32 \<Rightarrow> ('d, 'z) paths_scheme \<Rightarrow> u8 list option" where
  "part_string p s = do { pt \<leftarrow> path_parts s p; names s (part pt) }"

section \<open>Files\<close>

text \<open>The walk of \<open>fat16_open\<close>: \<open>Some None\<close> is the return of NULL, \<open>item\<close> the local variable,
  \<open>None\<close> while it is not initialised.\<close>

partial_function (option) open_walk ::
  "'d port_io \<Rightarrow> nat \<Rightarrow> u32 \<Rightarrow> u32 \<Rightarrow> fat_directory_item option \<Rightarrow> ('d, 'z) fat_scheme
    \<Rightarrow> (fat_directory_item option option \<times> ('d, 'z) fat_scheme) option" where
  "open_walk io disk current_part current_cluster item s =
     (if current_part = 0 then Some (Some item, s)
      else do {
        name \<leftarrow> part_string current_part s;
        (r, item, s) \<leftarrow> fat16_get_directory_entry io disk current_cluster name s;
        if r \<noteq> 0 then Some (None, s)
        else do {
          found \<leftarrow> item;
          pt \<leftarrow> path_parts s current_part;
          if part_next pt \<noteq> 0 \<and> \<not> is_directory found then Some (None, s)
          else open_walk io disk (part_next pt)
            (if part_next pt \<noteq> 0 then ucast (low_16_bits_first_cluster found) else current_cluster)
            (Some found) s
        }
      })"

definition fat16_open ::
  "'d port_io \<Rightarrow> nat \<Rightarrow> u32 \<Rightarrow> FILE_MODE \<Rightarrow> ('d, 'z) fat_scheme \<Rightarrow> (u32 \<times> ('d, 'z) fat_scheme) option" where
  "fat16_open io disk path mode s =
     (if mode \<noteq> FILE_MODE_READ then Some (0, s)
      else do {
        (item, s) \<leftarrow> open_walk io disk path 0 None s;
        case item of None \<Rightarrow> Some (0, s)
        | Some item \<Rightarrow> do {
            item \<leftarrow> item;
            if is_directory item then Some (0, s)
            else do {
              (desc, s) \<leftarrow> kmalloc 44 s;
              Some (desc, s\<lparr>fat_files := (fat_files s)(desc \<mapsto>
                \<lparr>desc_item = item, file_pos = 0, last_cluster = ucast (low_16_bits_first_cluster item),
                  last_cluster_pos = 0\<rparr>)\<rparr>)
            }
          }
      })"

definition fat16_close :: "u32 \<Rightarrow> ('d, 'z) fat_scheme \<Rightarrow> (int \<times> ('d, 'z) fat_scheme) option" where
  "fat16_close file s = Some (0, (kfree file s)\<lparr>fat_files := (fat_files s)(file := None)\<rparr>)"

text \<open>The loop of \<open>fat16_read\<close> returns \<open>total_read\<close> and the bytes written at \<open>out\<close>, the
  partial bytes of a failing last read included.\<close>

partial_function (option) read_loop ::
  "'d port_io \<Rightarrow> nat \<Rightarrow> fat_private \<Rightarrow> u32 \<Rightarrow> u32 \<Rightarrow> u32 \<Rightarrow> u32 \<Rightarrow> u8 list \<Rightarrow> ('d, 'z) fat_scheme
    \<Rightarrow> (u32 \<times> u8 list \<times> ('d, 'z) fat_scheme) option" where
  "read_loop io disk pr file total_to_read total_read current_cluster out s =
     (if total_read < total_to_read then do {
        desc \<leftarrow> fat_files s file;
        let cluster_size = cluster_size (bpb pr);
        let offset_in_file = file_pos desc + total_read;
        let offset_in_cluster = offset_in_file mod cluster_size;
        (current_cluster, s) \<leftarrow>
          (if total_read > 0 \<and> offset_in_cluster = 0 then do {
             (current_cluster, s) \<leftarrow> fat16_get_fat_entry io disk current_cluster s;
             Some (current_cluster, s\<lparr>fat_files := (fat_files s)(file \<mapsto>
               desc\<lparr>last_cluster := current_cluster, last_cluster_pos := offset_in_file\<rparr>)\<rparr>)
           } else Some (current_cluster, s));
        if current_cluster \<ge> FAT16_CLUSTER_RESERVED_MIN then Some (total_read, out, s)
        else do {
          abs_sector \<leftarrow> fat16_cluster_to_sector disk current_cluster s;
          let abs_pos = abs_sector * ucast (bytes_per_sector (bpb pr)) + offset_in_cluster;
          let to_read_this_cluster = cluster_size - offset_in_cluster;
          let to_read_this_cluster =
            (if to_read_this_cluster > total_to_read - total_read then total_to_read - total_read
             else to_read_this_cluster);
          (_, s) \<leftarrow> diskstream_seek (stream pr) abs_pos s;
          (r, bytes, s) \<leftarrow> diskstream_read io (stream pr) to_read_this_cluster s;
          if r \<noteq> 0 then Some (total_read, out @ bytes, s)
          else read_loop io disk pr file total_to_read (total_read + to_read_this_cluster)
            current_cluster (out @ bytes) s
        }
      } else Some (total_read, out, s))"

definition fat16_read ::
  "'d port_io \<Rightarrow> nat \<Rightarrow> u32 \<Rightarrow> u32 \<Rightarrow> u32 \<Rightarrow> ('d, 'z) fat_scheme \<Rightarrow> (int \<times> u8 list \<times> ('d, 'z) fat_scheme) option" where
  "fat16_read io disk file sz nmemb s = do {
     desc \<leftarrow> fat_files s file;
     pr \<leftarrow> private_of disk s;
     let total_to_read = sz * nmemb;
     let total_to_read = (if file_pos desc + total_to_read > filesize (desc_item desc)
       then filesize (desc_item desc) - file_pos desc else total_to_read);
     if total_to_read = 0 then Some (0, [], s)
     else do {
       let (start_cluster, start_pos) =
         (if file_pos desc \<ge> last_cluster_pos desc then (last_cluster desc, last_cluster_pos desc)
          else (ucast (low_16_bits_first_cluster (desc_item desc)), 0));
       (current_cluster, s) \<leftarrow> fat16_get_cluster_for_offset io disk start_cluster (file_pos desc - start_pos) s;
       if current_cluster \<ge> FAT16_CLUSTER_RESERVED_MIN then Some (0, [], s)
       else do {
         let cluster_size = cluster_size (bpb pr);
         let s = s\<lparr>fat_files := (fat_files s)(file \<mapsto> desc\<lparr>last_cluster := current_cluster,
           last_cluster_pos := (file_pos desc div cluster_size) * cluster_size\<rparr>)\<rparr>;
         (total_read, out, s) \<leftarrow> read_loop io disk pr file total_to_read 0 current_cluster [] s;
         desc \<leftarrow> fat_files s file;
         let s = s\<lparr>fat_files := (fat_files s)(file \<mapsto> desc\<lparr>file_pos := file_pos desc + total_read\<rparr>)\<rparr>;
         if sz = 0 then None else Some (sint (total_read div sz), out, s)
       }
     }
   }"

definition fat16_seek ::
  "u32 \<Rightarrow> int \<Rightarrow> FILE_SEEK_MODE \<Rightarrow> ('d, 'z) fat_scheme \<Rightarrow> (int \<times> ('d, 'z) fat_scheme) option" where
  "fat16_seek file offset whence s = do {
     desc \<leftarrow> fat_files s file;
     let new_pos = (case whence of
       FILE_SEEK_SET \<Rightarrow> word_of_int offset
     | FILE_SEEK_CUR \<Rightarrow> file_pos desc + word_of_int offset
     | FILE_SEEK_END \<Rightarrow> filesize (desc_item desc) + word_of_int offset);
     if new_pos > filesize (desc_item desc) then Some (-1, s)
     else Some (0, s\<lparr>fat_files := (fat_files s)(file \<mapsto> desc\<lparr>file_pos := new_pos\<rparr>)\<rparr>)
   }"

definition fat16_tell :: "u32 \<Rightarrow> ('d, 'z) fat_scheme \<Rightarrow> int option" where
  "fat16_tell file s = do { desc \<leftarrow> fat_files s file; Some (sint (file_pos desc)) }"

text \<open>The attribute and the flag of each test of \<open>fat16_stat\<close>, in order.\<close>

definition stat_table :: "(u8 \<times> u32) list" where
  "stat_table = [(0x01, 0x01), (0x02, 0x02), (0x04, 0x04), (0x08, 0x08), (0x10, 0x10), (0x20, 0x20)]"

definition fat16_stat :: "nat \<Rightarrow> u32 \<Rightarrow> ('d, 'z) fat_scheme \<Rightarrow> (int \<times> file_stat) option" where
  "fat16_stat disk file s = do {
     desc \<leftarrow> fat_files s file;
     let flags = foldl (\<lambda>f (a, b). if attribute (desc_item desc) AND a \<noteq> 0 then f OR b else f) 0 stat_table;
     Some (0, \<lparr>stat_flags = flags, stat_filesize = filesize (desc_item desc)\<rparr>)
   }"

section \<open>Listing\<close>

text \<open>One pass of a printing loop of \<open>fat16_list\<close>; the flag says whether the loop goes on.\<close>

definition list_pass :: "'d port_io \<Rightarrow> u32 \<Rightarrow> ('d, 'z) fat_scheme \<Rightarrow> (bool \<times> ('d, 'z) fat_scheme) option" where
  "list_pass io st s = do {
     (r, bytes, s) \<leftarrow> diskstream_read io st 32 s;
     if r \<noteq> 0 then Some (False, s)
     else do {
       let item = read_directory_item bytes;
       if filename item ! 0 = 0 then Some (False, s)
       else if filename item ! 0 = 0xE5 then Some (True, s)
       else do {
         out_name \<leftarrow> fat16_get_full_relative_filename item (replicate 13 0) 13;
         s \<leftarrow> print_string io out_name s;
         s \<leftarrow> (if is_directory item then print_string io (lit ''/'') s else Some s);
         s \<leftarrow> print_string io (lit_nl '''') s;
         Some (True, s)
       }
     }
   }"

primrec list_entries :: "'d port_io \<Rightarrow> u32 \<Rightarrow> nat \<Rightarrow> ('d, 'z) fat_scheme \<Rightarrow> ('d, 'z) fat_scheme option" where
  "list_entries io st 0 s = Some s"
| "list_entries io st (Suc n) s = do {
     (more, s) \<leftarrow> list_pass io st s;
     if more then list_entries io st n s else Some s
   }"

partial_function (option) list_clusters ::
  "'d port_io \<Rightarrow> nat \<Rightarrow> fat_private \<Rightarrow> u32 \<Rightarrow> ('d, 'z) fat_scheme \<Rightarrow> ('d, 'z) fat_scheme option" where
  "list_clusters io disk pr current_cluster s =
     (if current_cluster < FAT16_CLUSTER_RESERVED_MIN then do {
        abs_sector \<leftarrow> fat16_cluster_to_sector disk current_cluster s;
        (_, s) \<leftarrow> diskstream_seek (stream pr) (abs_sector * ucast (bytes_per_sector (bpb pr))) s;
        s \<leftarrow> list_entries io (stream pr) (unat (cluster_size (bpb pr) div 32)) s;
        (current_cluster, s) \<leftarrow> fat16_get_fat_entry io disk current_cluster s;
        list_clusters io disk pr current_cluster s
      } else Some s)"

partial_function (option) list_walk ::
  "'d port_io \<Rightarrow> nat \<Rightarrow> u32 \<Rightarrow> u32 \<Rightarrow> ('d, 'z) fat_scheme \<Rightarrow> (u32 option \<times> ('d, 'z) fat_scheme) option" where
  "list_walk io disk current_part current_cluster s =
     (if current_part = 0 then Some (Some current_cluster, s)
      else do {
        name \<leftarrow> part_string current_part s;
        (r, item, s) \<leftarrow> fat16_get_directory_entry io disk current_cluster name s;
        if r \<noteq> 0 then Some (None, s)
        else do {
          found \<leftarrow> item;
          if \<not> is_directory found then Some (None, s)
          else do {
            pt \<leftarrow> path_parts s current_part;
            list_walk io disk (part_next pt) (ucast (low_16_bits_first_cluster found)) s
          }
        }
      })"

definition fat16_list ::
  "'d port_io \<Rightarrow> nat \<Rightarrow> u32 \<Rightarrow> ('d, 'z) fat_scheme \<Rightarrow> (int \<times> ('d, 'z) fat_scheme) option" where
  "fat16_list io disk path s = do {
     pr \<leftarrow> private_of disk s;
     (cluster, s) \<leftarrow> list_walk io disk path 0 s;
     case cluster of None \<Rightarrow> Some (-1, s)
     | Some current_cluster \<Rightarrow>
         if current_cluster = 0 then do {
           root_dir_sector \<leftarrow> fat16_get_root_directory_sector disk s;
           (_, s) \<leftarrow> diskstream_seek (stream pr) (root_dir_sector * ucast (bytes_per_sector (bpb pr))) s;
           s \<leftarrow> list_entries io (stream pr) (unat (root_dir_entries (bpb pr))) s;
           Some (0, s)
         } else do {
           s \<leftarrow> list_clusters io disk pr current_cluster s;
           Some (0, s)
         }
   }"

section \<open>Mounting\<close>

text \<open>The checks on the boot sector: the code returned, 0 when the volume is accepted.\<close>

definition check_boot_sector :: "fat_boot_sector \<Rightarrow> int" where
  "check_boot_sector b =
     (if boot_signature b \<noteq> 0xAA55 then -3
      else if signature b \<noteq> 0x29 \<and> signature b \<noteq> 0x28 then -4
      else if bytes_per_sector b \<noteq> 512 \<or> sectors_per_cluster b = 0 then -5
      else 0)"

definition fat16_resolve :: "'d port_io \<Rightarrow> nat \<Rightarrow> ('d, 'z) fat_scheme \<Rightarrow> (int \<times> ('d, 'z) fat_scheme) option" where
  "fat16_resolve io disk s = do {
     d \<leftarrow> rd (disks s) disk;
     (st, s) \<leftarrow> diskstream_new (disk_no d) s;
     if st = 0 then Some (-1, s)
     else do {
       (r, bytes, s) \<leftarrow> diskstream_read io st 512 s;
       if r \<noteq> 0 then Some (-2, diskstream_close st s)
       else do {
         let b = read_boot_sector bytes;
         let code = check_boot_sector b;
         if code \<noteq> 0 then Some (code, diskstream_close st s)
         else do {
           (private, s) \<leftarrow> kmalloc 516 s;
           let s = s\<lparr>fat_privates := (fat_privates s)(private \<mapsto> \<lparr>bpb = b, stream = st\<rparr>)\<rparr>;
           d \<leftarrow> rd (disks s) disk;
           ds \<leftarrow> wr (disks s) disk (d\<lparr>fs_private := private\<rparr>);
           Some (0, s\<lparr>disks := ds\<rparr>)
         }
       }
     }
   }"

end
