(* ===== verification/FatVolume.thy ===== *)
theory FatVolume
  imports Fat16
begin

text \<open>
  What a FAT16 volume is, as bytes on the drive: the table of the next clusters, the clusters'
  places, chains of clusters and the items of directories; and that the driver's functions for
  clusters and directory lookup compute it. \<open>moved\<close> is the state after readings through the
  driver's stream, which change nothing else.
\<close>

lemma widen [simp]:
  "unat (ucast (x :: u16) :: u32) = unat x" "unat (ucast (y :: u8) :: u32) = unat y"
  by (transfer; simp)+

section \<open>Reading through the driver's stream\<close>

definition moved :: "u32 \<Rightarrow> int \<Rightarrow> ata \<Rightarrow> u32 \<Rightarrow> (ata, 'z) fat_scheme \<Rightarrow> (ata, 'z) fat_scheme" where
  "moved st dn d p s = s\<lparr>dev := d, streams := (streams s)(st \<mapsto> \<lparr>pos = p, disk_id = dn\<rparr>)\<rparr>"

lemma moved_simps [simp]:
  "dev (moved st dn d p s) = d" "streams (moved st dn d p s) st = Some \<lparr>pos = p, disk_id = dn\<rparr>"
  "disks (moved st dn d p s) = disks s" "fat_privates (moved st dn d p s) = fat_privates s"
  "fat_files (moved st dn d p s) = fat_files s" "path_parts (moved st dn d p s) = path_parts s"
  "path_roots (moved st dn d p s) = path_roots s"
  "names (moved st dn d p s) = names s" "mem (moved st dn d p s) = mem s"
  "placement_address (moved st dn d p s) = placement_address s"
  "global_base (moved st dn d p s) = global_base s"
  "private_of disk (moved st dn d p s) = private_of disk s"
  "part_string q (moved st dn d p s) = part_string q s"
  "moved st dn d p (moved st dn d' p' s) = moved st dn d p s"
  by (simp_all add: moved_def private_of_def part_string_def)

lemma moved_refl: "streams s st = Some \<lparr>pos = p, disk_id = dn\<rparr> \<Longrightarrow> moved st dn (dev s) p s = s"
  by (simp add: moved_def fun_upd_idem)

lemma moved_seek [simp]: "diskstream_seek st q (moved st dn d p s) = Some (0, moved st dn d q s)"
  by (simp add: diskstream_seek_def moved_def)

definition drive_size :: "ata \<Rightarrow> int \<Rightarrow> nat" where
  "drive_size d dn = 512 * drive_sectors d dn"

definition bytes_at :: "ata \<Rightarrow> int \<Rightarrow> nat \<Rightarrow> nat \<Rightarrow> u8 list" where
  "bytes_at d dn p n = map (drive_bytes d dn) [p..<p + n]"

lemma length_bytes_at [simp]: "length (bytes_at d dn p n) = n"
  by (simp add: bytes_at_def)

lemma same_drives_sym_ready: "same_drives d d' \<Longrightarrow> drive_ready d'"
  by (rule same_drivesD)

lemma bytes_at_same: "same_drives d d' \<Longrightarrow> bytes_at d' dn p n = bytes_at d dn p n"
  by (simp add: bytes_at_def same_drivesD)

lemma drive_size_same: "same_drives d d' \<Longrightarrow> drive_size d' dn = drive_size d dn"
  by (simp add: drive_size_def same_drivesD)

lemma moved_read:
  assumes "same_drives D d" "unat p + unat n \<le> drive_size D dn"
  shows "\<exists>d'. same_drives D d' \<and> diskstream_read ata_io st n (moved st dn d p s)
    = Some (0, bytes_at D dn (unat p) (unat n), moved st dn d' (p + n) s)"
proof -
  have r: "drive_ready d" "drive_bytes d = drive_bytes D" "drive_sectors d = drive_sectors D"
    using same_drivesD [OF assms(1)] by simp_all
  have "unat p \<le> 512 * drive_sectors d dn" using assms(2) r by (simp add: drive_size_def)
  with diskstream_read_spec [of "moved st dn d p s" st p dn n] r assms(2)
  obtain d' where d': "same_drives d d'" "diskstream_read ata_io st n (moved st dn d p s)
    = Some (0, bytes_at D dn (unat p) (unat n), (moved st dn d p s)\<lparr>dev := d',
        streams := (streams (moved st dn d p s))(st \<mapsto> \<lparr>pos = p + n, disk_id = dn\<rparr>)\<rparr>)"
    by (auto simp: drive_size_def bytes_at_def)
  then show ?thesis
    using same_drives_trans [OF assms(1)] by (intro exI [of _ d']) (simp add: moved_def)
qed

section \<open>The volume on the drive\<close>

definition fat_pos :: "fat_boot_sector \<Rightarrow> u32 \<Rightarrow> nat" where
  "fat_pos b c = 512 * unat (reserved_sectors b) + 2 * unat c"

definition root_pos :: "fat_boot_sector \<Rightarrow> nat" where
  "root_pos b = 512 * (unat (reserved_sectors b) + unat (fat_copies b) * unat (fat_sectors b))"

definition cluster_bytes :: "fat_boot_sector \<Rightarrow> nat" where
  "cluster_bytes b = 512 * unat (sectors_per_cluster b)"

definition cluster_pos :: "fat_boot_sector \<Rightarrow> u32 \<Rightarrow> nat" where
  "cluster_pos b c = root_pos b + 512 * ((32 * unat (root_dir_entries b) + 511) div 512)
     + (unat c - 2) * cluster_bytes b"

text \<open>A volume whose table and root directory are on a drive of less than 4 GB.\<close>

definition volume_ok :: "fat_boot_sector \<Rightarrow> nat \<Rightarrow> bool" where
  "volume_ok b n \<longleftrightarrow> bytes_per_sector b = 512 \<and> sectors_per_cluster b \<noteq> 0 \<and> n < 4294967296
     \<and> 512 * unat (reserved_sectors b) + 131072 \<le> n \<and> root_pos b + 32 * unat (root_dir_entries b) \<le> n"

definition cluster_ok :: "fat_boot_sector \<Rightarrow> nat \<Rightarrow> u32 \<Rightarrow> bool" where
  "cluster_ok b n c \<longleftrightarrow> 2 \<le> unat c \<and> unat c < 0xFFF0 \<and> cluster_pos b c + cluster_bytes b \<le> n"

definition fat_next :: "fat_boot_sector \<Rightarrow> ata \<Rightarrow> int \<Rightarrow> u32 \<Rightarrow> u32" where
  "fat_next b d dn c = ucast (le16 (bytes_at d dn (fat_pos b c) 2) 0)"

lemma fat_next_16: "unat (fat_next b d dn c) < 65536"
proof -
  have "unat (fat_next b d dn c) = unat (le16 (bytes_at d dn (fat_pos b c) 2) 0)"
    by (simp add: fat_next_def)
  then show ?thesis using unsigned_less [of "le16 (bytes_at d dn (fat_pos b c) 2) 0"] by simp
qed

lemma narrow_bounds: "unat (x :: u16) < 65536" "unat (y :: u8) < 256"
  using unsigned_less [of x] unsigned_less [of y] by simp_all

text \<open>A file system mounted on disk \<open>disk\<close>, whose stream reads drive \<open>dn\<close> as \<open>D\<close> has it.\<close>

definition mounted :: "nat \<Rightarrow> fat_boot_sector \<Rightarrow> u32 \<Rightarrow> int \<Rightarrow> ata \<Rightarrow> ('d, 'z) fat_scheme \<Rightarrow> bool" where
  "mounted disk b st dn D s \<longleftrightarrow> private_of disk s = Some \<lparr>bpb = b, stream = st\<rparr>
     \<and> drive_ready D \<and> volume_ok b (drive_size D dn)"

lemma mounted_moved [simp]: "mounted disk b st dn D (moved st' dn' d p s) \<longleftrightarrow> mounted disk b st dn D s"
  by (simp add: mounted_def)

lemma get_fat_entry_spec:
  assumes m: "mounted disk b st dn D s" and d: "same_drives D d" and c: "unat c < 65536"
  shows "\<exists>d' p'. same_drives D d' \<and> fat16_get_fat_entry ata_io disk c (moved st dn d p s)
    = Some (fat_next b D dn c, moved st dn d' p' s)"
proof -
  have v: "bytes_per_sector b = 512" "512 * unat (reserved_sectors b) + 131072 \<le> drive_size D dn"
    using m by (simp_all add: mounted_def volume_ok_def)
  let ?p = "ucast (reserved_sectors b) * 512 + c * 2 :: u32"
  have r: "unat (reserved_sectors b) < 65536" by (rule narrow_bounds)
  have "unat (ucast (reserved_sectors b) * 512 :: u32) = unat (reserved_sectors b) * 512"
    using r by (simp add: unat_word_ariths)
  moreover have "unat (c * 2) = unat c * 2" using c by (simp add: unat_word_ariths)
  ultimately have p: "unat ?p = fat_pos b c"
    using r c by (subst unat_plus) (simp_all add: fat_pos_def)
  have "unat ?p + unat (2 :: u32) \<le> drive_size D dn" using v(2) c by (simp add: p fat_pos_def)
  from moved_read [OF d this, of st s] obtain d' where d': "same_drives D d'"
    "diskstream_read ata_io st 2 (moved st dn d ?p s) = Some (0, bytes_at D dn (fat_pos b c) 2, moved st dn d' (?p + 2) s)"
    unfolding p by auto
  then show ?thesis
    using m v(1) by (intro exI [of _ d'] exI [of _ "?p + 2"])
      (simp add: fat16_get_fat_entry_def mounted_def fat_next_def Let_def)
qed

lemma root_sector_spec:
  assumes "volume_ok b n"
  shows "unat (root_directory_sector b * ucast (bytes_per_sector b)) = root_pos b"
proof -
  have v: "bytes_per_sector b = 512" "root_pos b < 4294967296" using assms by (auto simp: volume_ok_def)
  have m: "unat (fat_copies b) * unat (fat_sectors b) < 4294967296"
    and t: "unat (reserved_sectors b) + unat (fat_copies b) * unat (fat_sectors b) < 4294967296"
    using v(2) by (simp_all add: root_pos_def)
  have "unat (root_directory_sector b) = unat (reserved_sectors b) + unat (fat_copies b) * unat (fat_sectors b)"
    using m t by (simp add: root_directory_sector_def unat_word_ariths)
  then show ?thesis
    using v by (simp add: unat_word_ariths root_pos_def)
qed

lemma cluster_sector_spec:
  assumes v: "volume_ok b n" and c: "cluster_ok b n c"
  shows "unat (cluster_to_sector b c * ucast (bytes_per_sector b)) = cluster_pos b c"
proof -
  have b: "bytes_per_sector b = 512" and n: "n < 4294967296" using v by (simp_all add: volume_ok_def)
  have c2: "2 \<le> unat c" and cp: "cluster_pos b c < 4294967296"
    using c n by (auto simp: cluster_ok_def)
  define rs where "rs = unat (reserved_sectors b) + unat (fat_copies b) * unat (fat_sectors b)"
  define rd where "rd = (32 * unat (root_dir_entries b) + 511) div 512"
  define cs where "cs = (unat c - 2) * unat (sectors_per_cluster b)"
  have pos: "cluster_pos b c = 512 * (rs + rd + cs)"
    by (simp add: cluster_pos_def root_pos_def rs_def rd_def cs_def cluster_bytes_def algebra_simps)
  have sum: "rs + rd + cs < 8388608" using cp pos by simp
  have "unat (root_directory_sector b) = rs"
    using sum by (simp add: root_directory_sector_def rs_def unat_word_ariths)
  moreover have "unat ((ucast (root_dir_entries b) * 32 + (512 - 1)) div 512 :: u32) = rd"
    using narrow_bounds(1) [of "root_dir_entries b"] by (simp add: rd_def unat_word_ariths unat_div mult.commute)
  moreover have "unat (c - 2) = unat c - 2" using c2 by (subst unat_minus_le) simp_all
  then have "unat ((c - 2) * ucast (sectors_per_cluster b)) = cs"
    using sum by (simp add: cs_def unat_word_ariths)
  ultimately have "unat (cluster_to_sector b c) = rs + rd + cs"
    using sum b unfolding cluster_to_sector_def root_directory_sector_def [symmetric] Let_def
    by (subst unat_plus, subst unat_plus) (auto simp: root_directory_sector_def unat_plus)
  then show ?thesis using sum b by (simp add: unat_word_ariths pos)
qed

section \<open>Directories\<close>

definition item_at :: "ata \<Rightarrow> int \<Rightarrow> nat \<Rightarrow> fat_directory_item" where
  "item_at d dn p = read_directory_item (bytes_at d dn p 32)"

definition items_at :: "ata \<Rightarrow> int \<Rightarrow> nat \<Rightarrow> nat \<Rightarrow> fat_directory_item list" where
  "items_at d dn p n = map (\<lambda>i. item_at d dn (p + 32 * i)) [0..<n]"

lemma items_at_Suc: "items_at d dn p (Suc n) = item_at d dn p # items_at d dn (p + 32) n"
  unfolding items_at_def by (subst upt_conv_Cons) (simp_all add: map_Suc_upt [symmetric] comp_def add.assoc del: upt_Suc)

lemma item_at_ok [simp]: "item_ok (item_at d dn p)"
  by (simp add: item_at_def read_item_ok)

lemma items_at_ok: "\<forall>it \<in> set (items_at d dn p n). item_ok it"
  by (simp add: items_at_def)

text \<open>The search of a directory: the first item of the name before the end mark, deleted items
  skipped. \<open>marked\<close> is the code at the end mark, \<open>rest\<close> the one when the items run out.\<close>

fun find_item :: "int \<Rightarrow> int \<Rightarrow> u8 list \<Rightarrow> fat_directory_item list \<Rightarrow> int \<times> fat_directory_item option" where
  "find_item marked rest name [] = (rest, None)"
| "find_item marked rest name (it # its) =
     (if filename it ! 0 = 0 then (marked, None)
      else if filename it ! 0 \<noteq> 0xE5 \<and> upcase (item_name it) = upcase name then (0, Some it)
      else find_item marked rest name its)"

lemma item_matches:
  assumes ok: "item_ok it" and name: "terminated name"
  shows "\<exists>c. strncasecmp (item_name it @ replicate (13 - length (item_name it)) 0) name 13 = Some c
    \<and> (c = 0 \<longleftrightarrow> upcase (item_name it) = upcase (str_of name))"
proof -
  let ?o = "item_name it @ replicate (13 - length (item_name it)) 0"
  have len: "length (item_name it) \<le> 12" using ok by (rule item_name_length)
  then have "13 - length (item_name it) \<noteq> 0" by simp
  then have t: "terminated ?o" by (simp add: terminated_def)
  have "str_of (replicate k 0) = []" for k by (cases k) simp_all
  then have o: "str_of ?o = item_name it" using item_name_no_NUL by (simp add: str_of_append)
  obtain c where c: "strncasecmp ?o name 13 = Some c"
    "c = 0 \<longleftrightarrow> upcase (take 13 (str_of ?o)) = upcase (take 13 (str_of name))"
    using strncasecmp_zero [OF t name] by blast
  have "upcase (item_name it) = upcase (take 13 (str_of name)) \<longleftrightarrow> upcase (item_name it) = upcase (str_of name)"
  proof (cases "length (str_of name) \<le> 13")
    case False
    have lu: "length (upcase xs) = length xs" for xs by (simp add: upcase_def)
    have "length (upcase (item_name it)) < length (upcase (take 13 (str_of name)))"
      "length (upcase (item_name it)) < length (upcase (str_of name))"
      using False len by (simp_all add: lu)
    then have "upcase (item_name it) \<noteq> upcase (take 13 (str_of name))"
      "upcase (item_name it) \<noteq> upcase (str_of name)" by (metis less_irrefl)+
    then show ?thesis by simp
  qed simp
  then show ?thesis using c o len by simp
qed

lemma directory_pass_spec:
  assumes d: "same_drives D d" and p: "unat p + 32 \<le> drive_size D dn" and name: "terminated name"
  shows "\<exists>d'. same_drives D d' \<and> directory_pass ata_io st name (moved st dn d p s) =
    Some (let it = item_at D dn (unat p) in
      if filename it ! 0 = 0 then End_mark
      else if filename it ! 0 \<noteq> 0xE5 \<and> upcase (item_name it) = upcase (str_of name) then Match it
      else No_match, moved st dn d' (p + 32) s)"
proof -
  have "unat p + unat (32 :: u32) \<le> drive_size D dn" using p by simp
  from moved_read [OF d this, of st s] obtain d' where d': "same_drives D d'"
    "diskstream_read ata_io st 32 (moved st dn d p s) = Some (0, bytes_at D dn (unat p) 32, moved st dn d' (p + 32) s)"
    by auto
  let ?it = "item_at D dn (unat p)"
  have n: "fat16_get_full_relative_filename ?it (replicate 13 0) 13
    = Some (item_name ?it @ replicate (13 - length (item_name ?it)) 0)"
    by (rule full_relative_filename_spec) simp_all
  obtain c where c: "strncasecmp (item_name ?it @ replicate (13 - length (item_name ?it)) 0) name 13 = Some c"
    "c = 0 \<longleftrightarrow> upcase (item_name ?it) = upcase (str_of name)"
    using item_matches [OF item_at_ok name] by blast
  show ?thesis
    using d' n c by (intro exI [of _ d'])
      (simp add: directory_pass_def item_at_def [symmetric] Let_def)
qed

lemma entries_loop_spec:
  assumes "same_drives D d" "unat p + 32 * n \<le> drive_size D dn" "drive_size D dn < 4294967296" "terminated name"
  shows "\<exists>d' p'. same_drives D d' \<and> entries_loop failed marked rest ata_io st name n (moved st dn d p s) =
    (let (r, it) = find_item marked rest (str_of name) (items_at D dn (unat p) n)
     in Some (r, it, moved st dn d' p' s))"
  using assms
proof (induction n arbitrary: d p)
  case 0
  then show ?case by (intro exI [of _ d] exI [of _ p]) (simp add: items_at_def)
next
  case (Suc n)
  have p32: "unat p + 32 \<le> drive_size D dn" using Suc.prems(2) by simp
  from directory_pass_spec [OF Suc.prems(1) this Suc.prems(4), of st s]
  obtain d1 where d1: "same_drives D d1" "directory_pass ata_io st name (moved st dn d p s) =
    Some (let it = item_at D dn (unat p) in
      if filename it ! 0 = 0 then End_mark
      else if filename it ! 0 \<noteq> 0xE5 \<and> upcase (item_name it) = upcase (str_of name) then Match it
      else No_match, moved st dn d1 (p + 32) s)" by blast
  have up: "unat (p + 32) = unat p + 32"
    using p32 Suc.prems(3) by (subst unat_plus) simp_all
  have "unat (p + 32) + 32 * n \<le> drive_size D dn" using Suc.prems(2) up by simp
  from Suc.IH [OF d1(1) this Suc.prems(3,4)] obtain d' p' where d': "same_drives D d'"
    "entries_loop failed marked rest ata_io st name n (moved st dn d1 (p + 32) s) =
      (let (r, it) = find_item marked rest (str_of name) (items_at D dn (unat p + 32) n)
       in Some (r, it, moved st dn d' p' s))" unfolding up by blast
  let ?it = "item_at D dn (unat p)"
  show ?case
  proof (cases "filename ?it ! 0 = 0 \<or> filename ?it ! 0 \<noteq> 0xE5 \<and> upcase (item_name ?it) = upcase (str_of name)")
    case True
    then show ?thesis
      using d1 by (intro exI [of _ d1] exI [of _ "p + 32"]) (auto simp: items_at_Suc Let_def)
  next
    case False
    then show ?thesis
      using d1 d' by (intro exI [of _ d'] exI [of _ p']) (auto simp: items_at_Suc Let_def)
  qed
qed

text \<open>A chain of clusters, up to a table entry that is no cluster.\<close>

fun fat_chain :: "fat_boot_sector \<Rightarrow> ata \<Rightarrow> int \<Rightarrow> u32 \<Rightarrow> u32 list \<Rightarrow> bool" where
  "fat_chain b d dn c [] \<longleftrightarrow> 0xFFF0 \<le> unat c"
| "fat_chain b d dn c (x # xs) \<longleftrightarrow> x = c \<and> cluster_ok b (drive_size d dn) c
     \<and> fat_chain b d dn (fat_next b d dn c) xs"

definition cluster_items :: "fat_boot_sector \<Rightarrow> ata \<Rightarrow> int \<Rightarrow> u32 list \<Rightarrow> fat_directory_item list" where
  "cluster_items b d dn cs = concat (map (\<lambda>c. items_at d dn (cluster_pos b c) (cluster_bytes b div 32)) cs)"

lemma fat_chain_start: "fat_chain b d dn c cs \<Longrightarrow> c < FAT16_CLUSTER_RESERVED_MIN \<longleftrightarrow> cs \<noteq> []"
  by (cases cs) (auto simp: cluster_ok_def word_less_nat_alt FAT16_CLUSTER_RESERVED_MIN_def)

lemma find_item_rest: "rest \<noteq> 0 \<Longrightarrow> rest \<noteq> marked \<Longrightarrow> fst (find_item marked rest name its) = rest \<Longrightarrow>
    find_item marked rest' name (its @ its') = find_item marked rest' name its'"
  by (induction its) (auto split: if_splits)

lemma find_item_stop: "rest \<noteq> 0 \<Longrightarrow> rest \<noteq> marked \<Longrightarrow> fst (find_item marked rest name its) \<noteq> rest \<Longrightarrow>
    find_item marked rest' name (its @ its') = find_item marked rest name its"
  by (induction its) (auto split: if_splits)

lemma cluster_bytes_spec:
  assumes "volume_ok b n"
  shows "unat (cluster_size b) = cluster_bytes b" "0 < cluster_bytes b" "cluster_bytes b \<le> 130560"
    "cluster_size b \<noteq> 0" "32 * (cluster_bytes b div 32) = cluster_bytes b"
proof -
  have b: "bytes_per_sector b = 512" "sectors_per_cluster b \<noteq> 0" using assms by (simp_all add: volume_ok_def)
  have l: "unat (sectors_per_cluster b) < 256" by (rule narrow_bounds)
  then show s: "unat (cluster_size b) = cluster_bytes b"
    using b by (simp add: cluster_size_def cluster_bytes_def unat_word_ariths)
  show "0 < cluster_bytes b" using b(2) by (simp add: cluster_bytes_def unat_gt_0)
  then show "cluster_size b \<noteq> 0" using s by auto
  show "cluster_bytes b \<le> 130560" using l by (simp add: cluster_bytes_def)
  have "cluster_bytes b = 32 * (16 * unat (sectors_per_cluster b))" by (simp add: cluster_bytes_def)
  then show "32 * (cluster_bytes b div 32) = cluster_bytes b" by simp
qed

lemma subdirectory_spec:
  assumes "mounted disk b st dn D s" "same_drives D d" "fat_chain b D dn c cs" "terminated name"
  shows "\<exists>d' p'. same_drives D d' \<and>
    subdirectory_loop ata_io disk \<lparr>bpb = b, stream = st\<rparr> name c (moved st dn d p s) =
    (let (r, it) = find_item (-3) (-4) (str_of name) (cluster_items b D dn cs)
     in Some (r, it, moved st dn d' p' s))"
  using assms(2-4)
proof (induction cs arbitrary: c d p)
  case Nil
  then have "\<not> c < FAT16_CLUSTER_RESERVED_MIN" using fat_chain_start by blast
  then show ?case
    using Nil by (intro exI [of _ d] exI [of _ p]) (simp add: subdirectory_loop.simps cluster_items_def)
next
  case (Cons x cs)
  have v: "volume_ok b (drive_size D dn)" using assms(1) by (simp add: mounted_def)
  have lt: "c < FAT16_CLUSTER_RESERVED_MIN" using fat_chain_start [OF Cons.prems(2)] by simp
  have c: "x = c" "cluster_ok b (drive_size D dn) c" "fat_chain b D dn (fat_next b D dn c) cs"
    using Cons.prems(2) by simp_all
  have c16: "unat c < 65536" using c(2) by (simp add: cluster_ok_def)
  let ?q = "cluster_to_sector b c * ucast (bytes_per_sector b) :: u32"
  have q: "unat ?q = cluster_pos b c" using v c(2) by (rule cluster_sector_spec)
  note cb = cluster_bytes_spec [OF v]
  let ?n = "cluster_bytes b div 32"
  have n: "unat (cluster_size b div 32) = ?n" by (simp add: unat_div cb(1))
  have fit: "unat ?q + 32 * ?n \<le> drive_size D dn" using c(2) cb(5) by (simp add: q cluster_ok_def)
  have "drive_size D dn < 4294967296" using v by (simp add: volume_ok_def)
  from entries_loop_spec [OF Cons.prems(1) fit this Cons.prems(3), of "-2" "-3" 1 st s]
  obtain d1 p1 where e: "same_drives D d1" "cluster_entries_loop ata_io st name ?n (moved st dn d ?q s) =
     (let (r, it) = find_item (-3) 1 (str_of name) (items_at D dn (cluster_pos b c) ?n)
      in Some (r, it, moved st dn d1 p1 s))" unfolding q cluster_entries_loop_def by blast
  from get_fat_entry_spec [OF assms(1) e(1) c16, of p1] obtain d2 p2 where f: "same_drives D d2"
    "fat16_get_fat_entry ata_io disk c (moved st dn d1 p1 s) = Some (fat_next b D dn c, moved st dn d2 p2 s)" by blast
  from Cons.IH [OF f(1) c(3) Cons.prems(3), of p2] obtain d3 p3 where g: "same_drives D d3"
    "subdirectory_loop ata_io disk \<lparr>bpb = b, stream = st\<rparr> name (fat_next b D dn c) (moved st dn d2 p2 s) =
      (let (r, it) = find_item (-3) (-4) (str_of name) (cluster_items b D dn cs)
       in Some (r, it, moved st dn d3 p3 s))" by blast
  have sec: "fat16_cluster_to_sector disk c (moved st dn d p s) = Some (cluster_to_sector b c)"
    using assms(1) v by (simp add: fat16_cluster_to_sector_def mounted_def volume_ok_def)
  have items: "cluster_items b D dn (x # cs) = items_at D dn (cluster_pos b c) ?n @ cluster_items b D dn cs"
    by (simp add: cluster_items_def c(1))
  let ?f = "find_item (-3) 1 (str_of name) (items_at D dn (cluster_pos b c) ?n)"
  show ?case
  proof (cases "fst ?f = 1")
    case True
    have "find_item (-3) (-4) (str_of name) (cluster_items b D dn (x # cs))
        = find_item (-3) (-4) (str_of name) (cluster_items b D dn cs)"
      unfolding items using True by (intro find_item_rest) simp_all
    then show ?thesis
      using True e f g lt sec n by (intro exI [of _ d3] exI [of _ p3])
        (subst subdirectory_loop.simps, auto split: prod.splits)
  next
    case False
    have "find_item (-3) (-4) (str_of name) (cluster_items b D dn (x # cs)) = ?f"
      unfolding items using False by (intro find_item_stop) simp_all
    then show ?thesis
      using False e lt sec n by (intro exI [of _ d1] exI [of _ p1])
        (subst subdirectory_loop.simps, auto split: prod.splits)
  qed
qed

text \<open>The items of the directory that starts at cluster \<open>c\<close>; cluster 0 is the root directory.\<close>

definition directory :: "fat_boot_sector \<Rightarrow> ata \<Rightarrow> int \<Rightarrow> u32 \<Rightarrow> fat_directory_item list \<Rightarrow> bool" where
  "directory b d dn c its \<longleftrightarrow>
     (if c = 0 then its = items_at d dn (root_pos b) (unat (root_dir_entries b))
      else \<exists>cs. fat_chain b d dn c cs \<and> its = cluster_items b d dn cs)"

definition live_items :: "fat_directory_item list \<Rightarrow> fat_directory_item list" where
  "live_items its = filter (\<lambda>it. filename it ! 0 \<noteq> 0xE5) (takeWhile (\<lambda>it. filename it ! 0 \<noteq> 0) its)"

definition lookup_item :: "u8 list \<Rightarrow> fat_directory_item list \<Rightarrow> fat_directory_item option" where
  "lookup_item name its = find (\<lambda>it. upcase (item_name it) = upcase name) (live_items its)"

lemma find_item_lookup:
  assumes "marked < 0" "rest < 0"
  shows "snd (find_item marked rest name its) = lookup_item name its
    \<and> (fst (find_item marked rest name its) = 0 \<longleftrightarrow> lookup_item name its \<noteq> None)
    \<and> fst (find_item marked rest name its) \<le> 0"
  using assms by (induction its) (auto simp: lookup_item_def live_items_def)

lemma get_directory_entry_spec:
  assumes m: "mounted disk b st dn D s" and d: "same_drives D d" and dir: "directory b D dn c its"
    and name: "terminated name"
  shows "\<exists>d' p'. same_drives D d' \<and> fat16_get_directory_entry ata_io disk c name (moved st dn d p s) =
    (let (r, it) = find_item (if c = 0 then -4 else -3) (-4) (str_of name) its
     in Some (r, it, moved st dn d' p' s))"
proof (cases "c = 0")
  case True
  have v: "volume_ok b (drive_size D dn)" using m by (simp add: mounted_def)
  let ?q = "root_directory_sector b * ucast (bytes_per_sector b) :: u32"
  have q: "unat ?q = root_pos b" using v by (rule root_sector_spec)
  have fit: "unat ?q + 32 * unat (root_dir_entries b) \<le> drive_size D dn" "drive_size D dn < 4294967296"
    unfolding q using v by (simp_all add: volume_ok_def)
  from entries_loop_spec [OF d fit name, of "-1" "-4" "-4" st s]
  obtain d' p' where e: "same_drives D d'" "root_entries_loop ata_io st name (unat (root_dir_entries b)) (moved st dn d ?q s) =
     (let (r, it) = find_item (-4) (-4) (str_of name) (items_at D dn (root_pos b) (unat (root_dir_entries b)))
      in Some (r, it, moved st dn d' p' s))" unfolding q root_entries_loop_def by blast
  then show ?thesis
    using m True dir by (intro exI [of _ d'] exI [of _ p'])
      (simp add: fat16_get_directory_entry_def fat16_get_root_directory_sector_def mounted_def directory_def)
next
  case False
  then obtain cs where cs: "fat_chain b D dn c cs" "its = cluster_items b D dn cs"
    using dir by (auto simp: directory_def)
  from subdirectory_spec [OF m d cs(1) name, of p] show ?thesis
    using m False cs(2) by (simp add: fat16_get_directory_entry_def mounted_def)
qed

section \<open>Paths\<close>

text \<open>Following a list of names from a directory; \<open>r\<close> is the item at the end, \<open>None\<close> when a name
  is not found or one that is not the last is no directory.\<close>

fun walk :: "fat_boot_sector \<Rightarrow> ata \<Rightarrow> int \<Rightarrow> u32 \<Rightarrow> u8 list list \<Rightarrow> fat_directory_item option \<Rightarrow> bool" where
  "walk b d dn c [] r \<longleftrightarrow> False"
| "walk b d dn c [x] r \<longleftrightarrow> (\<exists>its. directory b d dn c its \<and> r = lookup_item x its)"
| "walk b d dn c (x # y # xs) r \<longleftrightarrow> (\<exists>its. directory b d dn c its \<and>
     (case lookup_item x its of None \<Rightarrow> r = None
      | Some sub \<Rightarrow> if is_directory sub then walk b d dn (ucast (low_16_bits_first_cluster sub)) (y # xs) r
          else r = None))"

lemma part_chain_moved [simp]: "part_chain (moved st dn d p s) q ts \<longleftrightarrow> part_chain s q ts"
  by (rule part_chain_cong) simp

lemma open_walk_spec:
  assumes m: "mounted disk b st dn D s"
    and "part_chain s p ts" "ts \<noteq> []" "walk b D dn c (part_names ts) r" "same_drives D d"
  shows "\<exists>d' q'. same_drives D d' \<and> open_walk ata_io disk p c it0 (moved st dn d q s)
    = Some (map_option Some r, moved st dn d' q' s)"
  using assms(2-)
proof (induction ts arbitrary: p c it0 d q)
  case (Cons t ts)
  obtain a n x where t: "t = (a, n, x)" by (cases t)
  obtain nx nm where pt: "p \<noteq> 0" "path_parts s p = Some \<lparr>part = n, part_next = nx\<rparr>" "part_chain s nx ts"
    "names s n = Some nm" "terminated nm" "str_of nm = x"
    using Cons.prems(1) t by auto
  have name: "part_string p (moved st dn d q s) = Some nm" by (simp add: part_string_def pt)
  have "\<exists>its. directory b D dn c its \<and> (if ts = [] then r = lookup_item x its else
      case lookup_item x its of None \<Rightarrow> r = None
      | Some sub \<Rightarrow> if is_directory sub then walk b D dn (ucast (low_16_bits_first_cluster sub)) (part_names ts) r
          else r = None)"
  proof (cases ts)
    case ts: (Cons t' ts')
    obtain a' n' x' where t': "t' = (a', n', x')" by (cases t')
    show ?thesis using Cons.prems(3) unfolding ts t' t part_simps walk.simps by simp
  qed (use Cons.prems(3) t in simp)
  then obtain its where its: "directory b D dn c its" "if ts = [] then r = lookup_item x its else
      case lookup_item x its of None \<Rightarrow> r = None
      | Some sub \<Rightarrow> if is_directory sub then walk b D dn (ucast (low_16_bits_first_cluster sub)) (part_names ts) r
          else r = None" by blast
  from get_directory_entry_spec [OF m Cons.prems(4) its(1) pt(5), of q] pt(6)
  obtain d1 q1 where e: "same_drives D d1" "fat16_get_directory_entry ata_io disk c nm (moved st dn d q s) =
    (let (r, it) = find_item (if c = 0 then -4 else -3) (-4) x its in Some (r, it, moved st dn d1 q1 s))" by blast
  let ?f = "find_item (if c = 0 then -4 else -3) (-4) x its"
  have f: "snd ?f = lookup_item x its" "fst ?f = 0 \<longleftrightarrow> lookup_item x its \<noteq> None"
    using find_item_lookup [of "if c = 0 then -4 else -3" "-4" x its] by (simp_all split: if_splits)
  have entry: "fat16_get_directory_entry ata_io disk c nm (moved st dn d q s) =
    Some (fst ?f, lookup_item x its, moved st dn d1 q1 s)"
    using e(2) f(1) by (simp add: split_beta)
  have nx: "nx = 0 \<longleftrightarrow> ts = []" using pt(3) by (cases ts) auto
  show ?case
  proof (cases "lookup_item x its")
    case None
    then have "r = None" using its(2) by (simp split: if_splits)
    then show ?thesis
      using None e(1) entry f(2) name pt(1) by (intro exI [of _ d1] exI [of _ q1])
        (subst open_walk.simps, simp)
  next
    case (Some sub)
    have step: "open_walk ata_io disk p c it0 (moved st dn d q s) =
      (if nx \<noteq> 0 \<and> \<not> is_directory sub then Some (None, moved st dn d1 q1 s)
       else open_walk ata_io disk nx (if nx \<noteq> 0 then ucast (low_16_bits_first_cluster sub) else c)
         (Some sub) (moved st dn d1 q1 s))"
      using Some entry f(2) name pt(1,2) by (subst open_walk.simps) simp
    show ?thesis
    proof (cases "ts = []")
      case True
      then have "open_walk ata_io disk nx c (Some sub) (moved st dn d1 q1 s)
          = Some (Some (Some sub), moved st dn d1 q1 s)"
        using nx by (subst open_walk.simps) simp
      then show ?thesis
        using True nx step its(2) Some e(1) by (intro exI [of _ d1] exI [of _ q1]) simp
    next
      case ne: False
      show ?thesis
      proof (cases "is_directory sub")
        case True
        then have "walk b D dn (ucast (low_16_bits_first_cluster sub)) (part_names ts) r"
          using its(2) Some ne by simp
        from Cons.IH [OF pt(3) ne this e(1), of "Some sub" q1] show ?thesis
          using step True ne nx by simp
      next
        case False
        then have "r = None" using its(2) Some ne by simp
        then show ?thesis
          using False ne nx step e(1) by (intro exI [of _ d1] exI [of _ q1]) simp
      qed
    qed
  qed
qed simp

end
