(* ===== verification/FatFile.thy ===== *)
theory FatFile
  imports FatVolume
begin

text \<open>
  Open files of the FAT16 driver: the bytes of a file along its chain of clusters, that
  \<open>fat16_read\<close> returns them across clusters and sectors and keeps its cluster cache right, and
  how \<open>fat16_open\<close>, \<open>fat16_seek\<close> and \<open>fat16_close\<close> behave.
\<close>

section \<open>The bytes of a file\<close>

definition file_byte :: "fat_boot_sector \<Rightarrow> ata \<Rightarrow> int \<Rightarrow> u32 list \<Rightarrow> nat \<Rightarrow> u8" where
  "file_byte b d dn cs i = drive_bytes d dn (cluster_pos b (cs ! (i div cluster_bytes b)) + i mod cluster_bytes b)"

text \<open>A file whose chain has room for its size; one of size 0 needs no chain.\<close>

definition file_ok :: "fat_boot_sector \<Rightarrow> ata \<Rightarrow> int \<Rightarrow> fat_directory_item \<Rightarrow> u32 list \<Rightarrow> bool" where
  "file_ok b d dn it cs \<longleftrightarrow> unat (filesize it) \<le> length cs * cluster_bytes b
     \<and> (filesize it \<noteq> 0 \<longrightarrow> fat_chain b d dn (ucast (low_16_bits_first_cluster it)) cs)"

text \<open>The cache of an open file: a place of the chain.\<close>

definition cached_at :: "fat_boot_sector \<Rightarrow> u32 list \<Rightarrow> nat \<Rightarrow> fat_file_descriptor \<Rightarrow> bool" where
  "cached_at b cs k f \<longleftrightarrow> k < length cs \<and> last_cluster f = cs ! k \<and> unat (last_cluster_pos f) = k * cluster_bytes b"

definition open_file_ok :: "fat_boot_sector \<Rightarrow> ata \<Rightarrow> int \<Rightarrow> u32 list \<Rightarrow> fat_file_descriptor \<Rightarrow> bool" where
  "open_file_ok b d dn cs f \<longleftrightarrow> file_ok b d dn (desc_item f) cs \<and> file_pos f \<le> filesize (desc_item f)
     \<and> (filesize (desc_item f) \<noteq> 0 \<longrightarrow> (\<exists>k. cached_at b cs k f))"

lemma fat_chain_nth:
  assumes "fat_chain b d dn c cs" "i < length cs"
  shows "cluster_ok b (drive_size d dn) (cs ! i)" "i = 0 \<Longrightarrow> cs ! i = c"
    "Suc i < length cs \<Longrightarrow> cs ! Suc i = fat_next b d dn (cs ! i)"
proof -
  have "cluster_ok b (drive_size d dn) (cs ! i) \<and> (i = 0 \<longrightarrow> cs ! i = c)
    \<and> (Suc i < length cs \<longrightarrow> cs ! Suc i = fat_next b d dn (cs ! i))"
    using assms
  proof (induction cs arbitrary: c i)
    case (Cons x cs)
    show ?case
    proof (cases i)
      case 0
      then show ?thesis using Cons.prems by (cases cs) auto
    next
      case (Suc j)
      then show ?thesis using Cons.IH [of "fat_next b d dn c" j] Cons.prems by simp
    qed
  qed simp
  then show "cluster_ok b (drive_size d dn) (cs ! i)" "i = 0 \<Longrightarrow> cs ! i = c"
    "Suc i < length cs \<Longrightarrow> cs ! Suc i = fat_next b d dn (cs ! i)" by auto
qed

lemma cluster_ok_word: "cluster_ok b n c \<Longrightarrow> c < FAT16_CLUSTER_RESERVED_MIN \<and> c < FAT16_CLUSTER_LAST_MIN \<and> unat c < 65536"
  by (simp add: cluster_ok_def word_less_nat_alt FAT16_CLUSTER_RESERVED_MIN_def FAT16_CLUSTER_LAST_MIN_def)

lemma skip_clusters_spec:
  assumes m: "mounted disk b st dn D s" and chain: "fat_chain b D dn c cs"
    and "same_drives D d" "k + j < length cs"
  shows "\<exists>d' p'. same_drives D d' \<and> skip_clusters ata_io disk j (cs ! k) (moved st dn d p s)
    = Some (cs ! (k + j), moved st dn d' p' s)"
  using assms(3-)
proof (induction j arbitrary: k d p)
  case 0
  then show ?case by (intro exI [of _ d] exI [of _ p]) simp
next
  case (Suc j)
  have k: "k < length cs" "Suc k < length cs" using Suc.prems(2) by simp_all
  note ck = cluster_ok_word [OF fat_chain_nth(1) [OF chain k(1)]]
  note cn = cluster_ok_word [OF fat_chain_nth(1) [OF chain k(2)]]
  note nx = fat_chain_nth(3) [OF chain k(1) k(2)]
  from get_fat_entry_spec [OF m Suc.prems(1), of "cs ! k" p] ck obtain d1 p1 where e: "same_drives D d1"
    "fat16_get_fat_entry ata_io disk (cs ! k) (moved st dn d p s) = Some (cs ! Suc k, moved st dn d1 p1 s)"
    by (auto simp: nx)
  have "Suc k + j < length cs" using Suc.prems(2) by simp
  from Suc.IH [OF e(1) this, of p1] show ?case
    using e(2) cn by (simp add: not_le [symmetric])
qed

lemma moved_files [simp]:
  "(moved st dn d p s)\<lparr>fat_files := f\<rparr> = moved st dn d p (s\<lparr>fat_files := f\<rparr>)"
  "private_of disk (s\<lparr>fat_files := f\<rparr>) = private_of disk s"
  "mounted disk b st dn D (s\<lparr>fat_files := f\<rparr>) \<longleftrightarrow> mounted disk b st dn D s"
  by (simp_all add: moved_def private_of_def mounted_def)

lemma div_mod_within:
  fixes i :: nat
  assumes "i mod m + k < m"
  shows "(i + k) div m = i div m" "(i + k) mod m = i mod m + k"
proof -
  have "(i + k) div m = ((i mod m + k) + m * (i div m)) div m" by (simp del: div_mult_self2)
  also have "\<dots> = i div m + (i mod m + k) div m" using assms by (intro div_mult_self2) simp
  finally show "(i + k) div m = i div m" using assms by simp
  show "(i + k) mod m = i mod m + k" using assms mod_add_left_eq [of i m k] by simp
qed

lemma div_mod_next:
  fixes i :: nat
  assumes "0 < m"
  shows "(i + (m - i mod m)) mod m = 0" "(i + (m - i mod m)) div m = Suc (i div m)"
proof -
  have "i + (m - i mod m) = (i - i mod m) + m" using assms by (simp add: less_imp_le)
  also have "i - i mod m = m * (i div m)" by (rule minus_mod_eq_mult_div)
  finally have e: "i + (m - i mod m) = m * Suc (i div m)" by simp
  show "(i + (m - i mod m)) mod m = 0" unfolding e by simp
  show "(i + (m - i mod m)) div m = Suc (i div m)" unfolding e using assms by (subst nonzero_mult_div_cancel_left) simp_all
qed

text \<open>One reading within a cluster, \<open>i\<close> bytes into the file.\<close>

lemma cluster_read:
  assumes m: "mounted disk b st dn D s" and d: "same_drives D d" and c: "cluster_ok b (drive_size D dn) (cs ! (i div cluster_bytes b))"
    and o: "unat off = i mod cluster_bytes b" "unat off + unat n \<le> cluster_bytes b"
  defines "q \<equiv> cluster_to_sector b (cs ! (i div cluster_bytes b)) * ucast (bytes_per_sector b) + off"
  shows "\<exists>d'. same_drives D d' \<and> diskstream_read ata_io st n (moved st dn d q s)
    = Some (0, map (file_byte b D dn cs) [i..<i + unat n], moved st dn d' (q + n) s)"
proof -
  have v: "volume_ok b (drive_size D dn)" using m by (simp add: mounted_def)
  let ?c = "cs ! (i div cluster_bytes b)"
  have cp: "cluster_pos b ?c + cluster_bytes b \<le> drive_size D dn" "drive_size D dn < 4294967296"
    using c v by (simp_all add: cluster_ok_def volume_ok_def)
  note cb = cluster_bytes_spec [OF v]
  have q: "unat q = cluster_pos b ?c + unat off"
    unfolding q_def using cluster_sector_spec [OF v c] o(2) cp by (subst unat_plus) simp_all
  have "unat q + unat n \<le> drive_size D dn" using q o(2) cp by simp
  from moved_read [OF d this, of st s] obtain d' where d': "same_drives D d'"
    "diskstream_read ata_io st n (moved st dn d q s)
      = Some (0, bytes_at D dn (unat q) (unat n), moved st dn d' (q + n) s)" by blast
  have "bytes_at D dn (unat q) (unat n) = map (file_byte b D dn cs) [i..<i + unat n]"
  proof (rule nth_equalityI)
    fix k assume "k < length (bytes_at D dn (unat q) (unat n))"
    then have k: "k < unat n" by simp
    then have "i mod cluster_bytes b + k < cluster_bytes b" using o by simp
    then have "(i + k) div cluster_bytes b = i div cluster_bytes b"
      "(i + k) mod cluster_bytes b = i mod cluster_bytes b + k"
      by (simp_all add: div_mod_within)
    then show "bytes_at D dn (unat q) (unat n) ! k = map (file_byte b D dn cs) [i..<i + unat n] ! k"
      using k q o(1) by (simp add: bytes_at_def file_byte_def add.assoc)
  qed simp
  then show ?thesis using d' by auto
qed

section \<open>The loop\<close>

text \<open>The state with \<open>g\<close> for the open file, and where the loop stands after \<open>t\<close> of \<open>n\<close> bytes.\<close>

abbreviation with_file :: "u32 \<Rightarrow> fat_file_descriptor \<Rightarrow> ('d, 'z) fat_scheme \<Rightarrow> ('d, 'z) fat_scheme" where
  "with_file file g s \<equiv> s\<lparr>fat_files := (fat_files s)(file \<mapsto> g)\<rparr>"

definition at_place :: "fat_boot_sector \<Rightarrow> u32 list \<Rightarrow> nat \<Rightarrow> u32 \<Rightarrow> u32 \<Rightarrow> u32 \<Rightarrow> bool" where
  "at_place b cs i t n cur \<longleftrightarrow> (if t = 0 then cur = cs ! (i div cluster_bytes b)
     else t < n \<longrightarrow> i mod cluster_bytes b = 0 \<and> 0 < i div cluster_bytes b \<and> cur = cs ! (i div cluster_bytes b - 1))"

lemma read_loop_enter:
  assumes m: "mounted disk b st dn D s" and chain: "fat_chain b D dn c cs" and d: "same_drives D d"
    and i: "i = unat (file_pos g) + unat t" "i < length cs * cluster_bytes b" "i < 4294967296"
    and place: "at_place b cs i t n cur" and t: "t < n" and k: "cached_at b cs k g"
  shows "\<exists>d' p' g' k'. same_drives D d' \<and> cached_at b cs k' g' \<and> desc_item g' = desc_item g \<and> file_pos g' = file_pos g
    \<and> (if t > 0 \<and> (file_pos g + t) mod cluster_size b = 0
       then do {
         (c, s) \<leftarrow> fat16_get_fat_entry ata_io disk cur (moved st dn d p (with_file fp g s));
         Some (c, s\<lparr>fat_files := (fat_files s)(fp \<mapsto> g\<lparr>last_cluster := c, last_cluster_pos := file_pos g + t\<rparr>)\<rparr>)
       }
       else Some (cur, moved st dn d p (with_file fp g s)))
      = Some (cs ! (i div cluster_bytes b), moved st dn d' p' (with_file fp g' s))"
proof -
  have v: "volume_ok b (drive_size D dn)" using m by (simp add: mounted_def)
  note cb = cluster_bytes_spec [OF v]
  have w: "unat (file_pos g + t) = i" using i(1,3) by (simp add: unat_plus)
  then have off: "unat ((file_pos g + t) mod cluster_size b) = i mod cluster_bytes b" by (simp add: unat_mod cb(1))
  let ?j = "i div cluster_bytes b"
  have j: "?j < length cs" using i(2) cb(2) by (simp add: less_mult_imp_div_less)
  show ?thesis
  proof (cases "t = 0")
    case True
    then show ?thesis using d k place by (auto simp: at_place_def)
  next
    case False
    then have p: "i mod cluster_bytes b = 0" "0 < ?j" "cur = cs ! (?j - 1)" using place t by (simp_all add: at_place_def)
    have j1: "?j - 1 < length cs" "Suc (?j - 1) < length cs" "Suc (?j - 1) = ?j" using j p(2) by simp_all
    note ck = cluster_ok_word [OF fat_chain_nth(1) [OF chain j1(1)]]
    have nx: "fat_next b D dn cur = cs ! ?j" using fat_chain_nth(3) [OF chain j1(1,2)] j1(3) p(3) by simp
    have "mounted disk b st dn D (with_file fp g s)" using m by simp
    moreover have "unat cur < 65536" using ck p(3) by simp
    ultimately obtain d1 p1 where e: "same_drives D d1"
      "fat16_get_fat_entry ata_io disk cur (moved st dn d p (with_file fp g s))
        = Some (cs ! ?j, moved st dn d1 p1 (with_file fp g s))"
      using get_fat_entry_spec [OF _ d, of disk b st dn "with_file fp g s" cur p] unfolding nx by blast
    let ?g = "g\<lparr>last_cluster := cs ! ?j, last_cluster_pos := file_pos g + t\<rparr>"
    have "?j * cluster_bytes b = i" using p(1) by auto
    then have "cached_at b cs ?j ?g" using j w by (simp add: cached_at_def)
    moreover have "(file_pos g + t) mod cluster_size b = 0" using off p(1) by (simp add: unsigned_eq_0_iff)
    ultimately show ?thesis
      using e False by (intro exI [of _ d1] exI [of _ p1] exI [of _ ?g] exI [of _ ?j]) (simp add: word_gt_0)
  qed
qed

lemma read_loop_spec:
  assumes m: "mounted disk b st dn D s" and chain: "fat_chain b D dn c cs"
    and size: "unat P + unat n \<le> length cs * cluster_bytes b" "unat P + unat n < 4294967296"
    and "same_drives D d" "t \<le> n" "i = unat P + unat t" "file_pos g = P" "cached_at b cs k g" "at_place b cs i t n cur"
  shows "\<exists>d' p' g' k'. same_drives D d' \<and> cached_at b cs k' g' \<and> desc_item g' = desc_item g \<and> file_pos g' = P
    \<and> read_loop ata_io disk \<lparr>bpb = b, stream = st\<rparr> fp n t cur out (moved st dn d p (with_file fp g s))
      = Some (n, out @ map (file_byte b D dn cs) [i..<unat P + unat n], moved st dn d' p' (with_file fp g' s))"
  using assms(5-)
proof (induction "unat n - unat t" arbitrary: t i d p g k cur out rule: less_induct)
  case less
  have v: "volume_ok b (drive_size D dn)" using m by (simp add: mounted_def)
  note cb = cluster_bytes_spec [OF v]
  show ?case
  proof (cases "t < n")
    case False
    then have "t = n" using less.prems(2) by simp
    then show ?thesis using less.prems
      by (intro exI [of _ d] exI [of _ p] exI [of _ g] exI [of _ k]) (simp add: read_loop.simps)
  next
    case t: True
    then have tn: "unat t < unat n" by (simp add: word_less_nat_alt)
    have i: "i = unat (file_pos g) + unat t" "i < length cs * cluster_bytes b" "i < 4294967296"
      using less.prems(3,4) tn size by simp_all
    from read_loop_enter [OF m chain less.prems(1) i less.prems(6) t less.prems(5), where p = p and fp = fp]
    obtain d1 p1 g1 k1 where e: "same_drives D d1" "cached_at b cs k1 g1" "desc_item g1 = desc_item g"
      "file_pos g1 = file_pos g"
      "(if t > 0 \<and> (file_pos g + t) mod cluster_size b = 0
       then do {
         (c, s) \<leftarrow> fat16_get_fat_entry ata_io disk cur (moved st dn d p (with_file fp g s));
         Some (c, s\<lparr>fat_files := (fat_files s)(fp \<mapsto> g\<lparr>last_cluster := c, last_cluster_pos := file_pos g + t\<rparr>)\<rparr>)
       }
       else Some (cur, moved st dn d p (with_file fp g s)))
      = Some (cs ! (i div cluster_bytes b), moved st dn d1 p1 (with_file fp g1 s))" by blast
    let ?cur = "cs ! (i div cluster_bytes b)"
    have j: "i div cluster_bytes b < length cs" using i(2) cb(2) by (simp add: less_mult_imp_div_less)
    note cok = fat_chain_nth(1) [OF chain j]
    let ?off = "(file_pos g + t) mod cluster_size b"
    have w: "unat (file_pos g + t) = i" using i(1,3) by (simp add: unat_plus)
    then have off: "unat ?off = i mod cluster_bytes b" by (simp add: unat_mod cb(1))
    have lt: "i mod cluster_bytes b < cluster_bytes b" using cb(2) by simp
    define k' where "k' = (if cluster_size b - ?off > n - t then n - t else cluster_size b - ?off)"
    have u1: "unat (cluster_size b - ?off) = cluster_bytes b - i mod cluster_bytes b"
      using lt off cb(1) by (subst unat_minus_le) simp_all
    have u2: "unat (n - t) = unat n - unat t" using tn by (intro unat_minus_le) simp
    have uk: "unat k' = min (cluster_bytes b - i mod cluster_bytes b) (unat n - unat t)"
      using u1 u2 by (simp add: k'_def word_less_nat_alt)
    have kpos: "0 < unat k'" using lt tn uk by simp
    let ?q = "cluster_to_sector b ?cur * ucast (bytes_per_sector b) + ?off"
    have m1: "mounted disk b st dn D (with_file fp g1 s)" using m by simp
    have "unat ?off + unat k' \<le> cluster_bytes b" using off uk lt by simp
    from cluster_read [OF m1 e(1) cok off this]
    obtain d2 where r: "same_drives D d2"
      "diskstream_read ata_io st k' (moved st dn d1 ?q (with_file fp g1 s))
       = Some (0, map (file_byte b D dn cs) [i..<i + unat k'], moved st dn d2 (?q + k') (with_file fp g1 s))" by blast
    have sec: "fat16_cluster_to_sector disk ?cur (moved st dn d1 p1 (with_file fp g1 s)) = Some (cluster_to_sector b ?cur)"
      using m v by (simp add: fat16_cluster_to_sector_def mounted_def volume_ok_def)
    have "\<not> FAT16_CLUSTER_RESERVED_MIN \<le> ?cur" using cluster_ok_word [OF cok] by (simp add: not_le)
    with e(5) sec r(2) have run: "read_loop ata_io disk \<lparr>bpb = b, stream = st\<rparr> fp n t cur out (moved st dn d p (with_file fp g s))
      = read_loop ata_io disk \<lparr>bpb = b, stream = st\<rparr> fp n (t + k') ?cur
          (out @ map (file_byte b D dn cs) [i..<i + unat k']) (moved st dn d2 (?q + k') (with_file fp g1 s))"
      using t by (subst read_loop.simps) (simp add: k'_def Let_def del: moved_files)
    have ut: "unat (t + k') = unat t + unat k'" using uk tn size(2) by (intro unat_plus) simp
    have place: "at_place b cs (i + unat k') (t + k') n ?cur"
    proof -
      have "t + k' \<noteq> 0" using ut kpos by auto
      moreover have "unat k' = cluster_bytes b - i mod cluster_bytes b" if "t + k' < n"
        using that uk ut by (simp add: word_less_nat_alt)
      ultimately show ?thesis using div_mod_next [OF cb(2), of i] by (auto simp: at_place_def)
    qed
    have "unat n - unat (t + k') < unat n - unat t" using ut kpos tn by simp
    moreover have "t + k' \<le> n" using ut uk tn by (simp add: word_le_nat_alt)
    moreover have "i + unat k' = unat P + unat (t + k')" using ut less.prems(3) by simp
    moreover have "file_pos g1 = P" using e(4) less.prems(4) by simp
    ultimately obtain d' p' g' k'' where z: "same_drives D d'" "cached_at b cs k'' g'" "desc_item g' = desc_item g1"
      "file_pos g' = P" "read_loop ata_io disk \<lparr>bpb = b, stream = st\<rparr> fp n (t + k') ?cur
          (out @ map (file_byte b D dn cs) [i..<i + unat k']) (moved st dn d2 (?q + k') (with_file fp g1 s))
        = Some (n, (out @ map (file_byte b D dn cs) [i..<i + unat k']) @ map (file_byte b D dn cs) [i + unat k'..<unat P + unat n],
            moved st dn d' p' (with_file fp g' s))"
      using less.hyps [OF _ r(1) _ _ _ e(2) place] by metis
    have "[i..<i + unat k'] @ [i + unat k'..<unat P + unat n] = [i..<unat P + unat n]"
      using uk tn less.prems(3) by (intro upt_append) simp_all
    then show ?thesis
      using run z e(3) by (intro exI [of _ d'] exI [of _ p'] exI [of _ g'] exI [of _ k''])
        (simp add: map_append [symmetric] del: map_append)
  qed
qed

section \<open>Reading a file\<close>

text \<open>How many bytes a request for \<open>n\<close> gives: up to the end of the file.\<close>

definition readable :: "fat_file_descriptor \<Rightarrow> nat \<Rightarrow> nat" where
  "readable f n = min n (unat (filesize (desc_item f)) - unat (file_pos f))"

lemma read_start:
  assumes m: "mounted disk b st dn D s" and chain: "fat_chain b D dn (ucast (low_16_bits_first_cluster (desc_item f))) cs"
    and d: "same_drives D d" and k: "cached_at b cs k f"
    and pos: "unat (file_pos f) < length cs * cluster_bytes b"
  shows "\<exists>d' p'. same_drives D d' \<and> (let (start_cluster, start_pos) =
         (if file_pos f \<ge> last_cluster_pos f then (last_cluster f, last_cluster_pos f)
          else (ucast (low_16_bits_first_cluster (desc_item f)), 0))
       in fat16_get_cluster_for_offset ata_io disk start_cluster (file_pos f - start_pos) (moved st dn d p s))
    = Some (cs ! (unat (file_pos f) div cluster_bytes b), moved st dn d' p' s)"
proof -
  have v: "volume_ok b (drive_size D dn)" using m by (simp add: mounted_def)
  note cb = cluster_bytes_spec [OF v]
  have pr: "private_of disk s = Some \<lparr>bpb = b, stream = st\<rparr>" using m by (simp add: mounted_def)
  let ?j = "unat (file_pos f) div cluster_bytes b"
  have j: "?j < length cs" using pos cb(2) by (simp add: less_mult_imp_div_less)
  have run: "fat16_get_cluster_for_offset ata_io disk c off (moved st dn d p s)
      = skip_clusters ata_io disk (unat off div cluster_bytes b) c (moved st dn d p s)" for c off
    using cb(4) pr by (simp add: fat16_get_cluster_for_offset_def Let_def unat_div cb(1))
  show ?thesis
  proof (cases "file_pos f \<ge> last_cluster_pos f")
    case True
    then have le: "k * cluster_bytes b \<le> unat (file_pos f)" using k by (simp add: cached_at_def word_le_nat_alt)
    have "unat (file_pos f - last_cluster_pos f) = unat (file_pos f) - k * cluster_bytes b"
      using True k by (subst unat_minus_le) (simp_all add: cached_at_def word_le_nat_alt)
    moreover have "?j = k + (unat (file_pos f) - k * cluster_bytes b) div cluster_bytes b"
      using le cb(2) div_mult_self1 [of "cluster_bytes b" "unat (file_pos f) - k * cluster_bytes b" k] by simp
    moreover have "k \<le> ?j" using le cb(2) by (simp add: less_eq_div_iff_mult_less_eq)
    ultimately show ?thesis
      using skip_clusters_spec [OF m chain d, of k "?j - k" p] j k True run by (simp add: cached_at_def)
  next
    case False
    have "0 < length cs" using j by (rule le_less_trans [OF le0])
    from fat_chain_nth(2) [OF chain this] have "cs ! 0 = ucast (low_16_bits_first_cluster (desc_item f))" by simp
    then show ?thesis
      using skip_clusters_spec [OF m chain d, of 0 ?j p] j False run by simp
  qed
qed

lemma fat16_read_spec:
  assumes m: "mounted disk b st dn D s" and d: "same_drives D d"
    and f: "fat_files s fp = Some f" "open_file_ok b D dn cs f"
    and n: "sz \<noteq> 0" "unat (file_pos f) + unat sz * unat nmemb < 4294967296"
  shows "\<exists>d' p' g. same_drives D d' \<and> open_file_ok b D dn cs g \<and> desc_item g = desc_item f
    \<and> unat (file_pos g) = unat (file_pos f) + readable f (unat sz * unat nmemb)
    \<and> fat16_read ata_io disk fp sz nmemb (moved st dn d p s)
      = Some (sint (word_of_nat (readable f (unat sz * unat nmemb) div unat sz) :: u32),
          map (file_byte b D dn cs) [unat (file_pos f)..<unat (file_pos f) + readable f (unat sz * unat nmemb)],
          moved st dn d' p' (with_file fp g s))"
proof -
  have v: "volume_ok b (drive_size D dn)" using m by (simp add: mounted_def)
  note cb = cluster_bytes_spec [OF v]
  have pr: "private_of disk s = Some \<lparr>bpb = b, stream = st\<rparr>" using m by (simp add: mounted_def)
  let ?P = "file_pos f" and ?F = "filesize (desc_item f)"
  let ?r = "readable f (unat sz * unat nmemb)"
  define w where "w = (if ?P + sz * nmemb > ?F then ?F - ?P else sz * nmemb)"
  have PF: "unat ?P \<le> unat ?F" using f(2) by (simp add: open_file_ok_def word_le_nat_alt)
  have prod: "unat (sz * nmemb) = unat sz * unat nmemb" using n(2) by (simp add: unat_word_ariths)
  have "unat (?P + sz * nmemb) = unat ?P + unat sz * unat nmemb" using n(2) prod by (subst unat_plus) simp_all
  moreover have "unat (?F - ?P) = unat ?F - unat ?P" using PF by (intro unat_minus_le)
  ultimately have w: "unat w = ?r" using prod PF by (auto simp: w_def word_less_nat_alt readable_def)
  show ?thesis
  proof (cases "w = 0")
    case True
    then have "?r = 0" using w by simp
    then show ?thesis
      using True d f pr by (intro exI [of _ d] exI [of _ p] exI [of _ f])
        (simp add: fat16_read_def w_def [symmetric] Let_def fun_upd_idem)
  next
    case False
    then have r0: "0 < ?r" using w by (simp add: unat_gt_0 [symmetric])
    then have lt: "unat ?P < unat ?F" "unat ?P + unat w \<le> unat ?F" using PF w by (auto simp: readable_def)
    then have "?F \<noteq> 0" by auto
    with f(2) obtain k where k: "cached_at b cs k f"
      and chain: "fat_chain b D dn (ucast (low_16_bits_first_cluster (desc_item f))) cs"
      and size: "unat ?F \<le> length cs * cluster_bytes b" by (auto simp: open_file_ok_def file_ok_def)
    have pos: "unat ?P < length cs * cluster_bytes b" using lt(1) size by simp
    from read_start [OF m chain d k pos, of p] obtain d1 p1 where e: "same_drives D d1"
      "(let (start_cluster, start_pos) =
         (if file_pos f \<ge> last_cluster_pos f then (last_cluster f, last_cluster_pos f)
          else (ucast (low_16_bits_first_cluster (desc_item f)), 0))
       in fat16_get_cluster_for_offset ata_io disk start_cluster (file_pos f - start_pos) (moved st dn d p s))
      = Some (cs ! (unat ?P div cluster_bytes b), moved st dn d1 p1 s)" by blast
    let ?cur = "cs ! (unat ?P div cluster_bytes b)"
    have j: "unat ?P div cluster_bytes b < length cs" using pos cb(2) by (simp add: less_mult_imp_div_less)
    have cur: "\<not> FAT16_CLUSTER_RESERVED_MIN \<le> ?cur"
      using cluster_ok_word [OF fat_chain_nth(1) [OF chain j]] by (simp add: not_le)
    define g where "g = f\<lparr>last_cluster := ?cur, last_cluster_pos := (?P div cluster_size b) * cluster_size b\<rparr>"
    have le: "unat ?P div cluster_bytes b * cluster_bytes b \<le> unat ?P" by simp
    then have "unat ((?P div cluster_size b) * cluster_size b) = unat ?P div cluster_bytes b * cluster_bytes b"
      using le_less_trans [OF le unat_less_2p32] le_less_trans [OF div_le_dividend unat_less_2p32]
      by (simp add: unat_word_ariths unat_div cb(1))
    then have kg: "cached_at b cs (unat ?P div cluster_bytes b) g" using j by (simp add: cached_at_def g_def)
    have "unat ?P + unat w \<le> length cs * cluster_bytes b" using lt(2) size by simp
    moreover have "unat ?P + unat w < 4294967296" using lt(2) by (rule le_less_trans) (rule unat_less_2p32)
    moreover have "(0 :: u32) \<le> w" by simp
    moreover have "unat ?P = unat ?P + unat (0 :: u32)" by simp
    moreover have "file_pos g = ?P" by (simp add: g_def)
    moreover have "at_place b cs (unat ?P) 0 w ?cur" by (simp add: at_place_def)
    ultimately obtain d2 p2 g2 k2 where z: "same_drives D d2" "cached_at b cs k2 g2" "desc_item g2 = desc_item g"
      "file_pos g2 = ?P" "read_loop ata_io disk \<lparr>bpb = b, stream = st\<rparr> fp w 0 ?cur [] (moved st dn d1 p1 (with_file fp g s))
        = Some (w, [] @ map (file_byte b D dn cs) [unat ?P..<unat ?P + unat w], moved st dn d2 p2 (with_file fp g2 s))"
      using read_loop_spec [OF m chain _ _ e(1) _ _ _ kg] by blast
    let ?g3 = "g2\<lparr>file_pos := ?P + w\<rparr>"
    have up: "unat (?P + w) = unat ?P + ?r" using lt(2) w by (subst unat_plus) (auto intro: le_less_trans)
    have "word_of_nat (?r div unat sz) = w div sz" by (simp add: w word_arith_nat_div)
    then have run: "fat16_read ata_io disk fp sz nmemb (moved st dn d p s)
      = Some (sint (word_of_nat (?r div unat sz) :: u32),
          map (file_byte b D dn cs) [unat ?P..<unat ?P + ?r], moved st dn d2 p2 (with_file fp ?g3 s))"
      using e(2) z(4,5) f(1) pr False cur n(1)
      by (cases "last_cluster_pos f \<le> file_pos f")
        (simp_all add: fat16_read_def Let_def w_def [symmetric] g_def [symmetric] w)
    have "open_file_ok b D dn cs ?g3"
      using f(2) z(2,3) up lt(2) w by (auto simp: open_file_ok_def g_def word_le_nat_alt cached_at_def)
    then show ?thesis
      using run z(1,3) up by (intro exI [of _ d2] exI [of _ p2] exI [of _ ?g3]) (simp add: g_def)
  qed
qed

section \<open>Opening\<close>

lemma heap_owns_moved [simp]: "heap_owns (moved st dn d p s) L \<longleftrightarrow> heap_owns s L"
  by (rule heap_owns_same) simp_all

lemma heap_owns_fat [simp]:
  fixes s :: "('d, 'z) fat_scheme"
  shows "heap_owns (s\<lparr>fat_files := f\<rparr>) L \<longleftrightarrow> heap_owns s L"
    "heap_owns (s\<lparr>fat_privates := g\<rparr>) L \<longleftrightarrow> heap_owns s L"
    "heap_owns (s\<lparr>disks := ds\<rparr>) L \<longleftrightarrow> heap_owns s L"
    "heap_owns (s\<lparr>streams := h\<rparr>) L \<longleftrightarrow> heap_owns s L"
  by (rule heap_owns_same; simp)+

lemma heap_only_fat:
  fixes s :: "('d, 'z) fat_scheme"
  assumes "heap_only s s'"
  shows "disks s' = disks s" "fat_privates s' = fat_privates s" "fat_files s' = fat_files s"
    "streams s' = streams s" "dev s' = dev s"
proof -
  have e: "s' = s\<lparr>mem := mem s', placement_address := placement_address s', global_base := global_base s'\<rparr>"
    using assms by (simp add: heap_only_def)
  show "disks s' = disks s" by (subst e) simp
  show "fat_privates s' = fat_privates s" by (subst e) simp
  show "fat_files s' = fat_files s" by (subst e) simp
  show "streams s' = streams s" by (subst e) simp
  show "dev s' = dev s" by (subst e) simp
qed

definition fresh_file :: "fat_directory_item \<Rightarrow> fat_file_descriptor" where
  "fresh_file it = \<lparr>desc_item = it, file_pos = 0, last_cluster = ucast (low_16_bits_first_cluster it), last_cluster_pos = 0\<rparr>"

lemma fresh_file_ok: "file_ok b d dn it cs \<Longrightarrow> open_file_ok b d dn cs (fresh_file it)"
proof (cases "filesize it = 0")
  case False
  assume ok: "file_ok b d dn it cs"
  then have chain: "fat_chain b d dn (ucast (low_16_bits_first_cluster it)) cs"
    and "unat (filesize it) \<le> length cs * cluster_bytes b" using False by (simp_all add: file_ok_def)
  moreover have "0 < unat (filesize it)" using False by (simp add: unat_gt_0)
  ultimately have "cs \<noteq> []" by auto
  then have "cached_at b cs 0 (fresh_file it)"
    using fat_chain_nth(2) [OF chain, of 0] by (simp add: cached_at_def fresh_file_def)
  then show ?thesis using ok by (auto simp: open_file_ok_def fresh_file_def)
qed (simp add: open_file_ok_def fresh_file_def)

lemma fat16_open_spec:
  fixes s :: "(ata, 'z) fat_scheme"
  assumes m: "mounted disk b st dn D s" and d: "same_drives D d"
    and path: "part_chain s p ts" "ts \<noteq> []" "walk b D dn 0 (part_names ts) r"
    and own: "heap_owns s L" and room: "unat (placement_address s) + 60 < 4294967296"
  shows "\<exists>d' q'. same_drives D d' \<and>
    (case r of
       Some it \<Rightarrow> if is_directory it then fat16_open ata_io disk p FILE_MODE_READ (moved st dn d q s) = Some (0, moved st dn d' q' s)
         else \<exists>fp h. fat16_open ata_io disk p FILE_MODE_READ (moved st dn d q s)
             = Some (fp, h\<lparr>fat_files := (fat_files s)(fp \<mapsto> fresh_file it)\<rparr>)
           \<and> fp \<noteq> 0 \<and> heap_only (moved st dn d' q' s) h \<and> heap_owns h (insert (fp, 44) L) \<and> fp \<notin> fst ` L
           \<and> keeps L (mem s) (mem h) \<and> grows 60 (placement_address s) (placement_address h)
     | None \<Rightarrow> fat16_open ata_io disk p FILE_MODE_READ (moved st dn d q s) = Some (0, moved st dn d' q' s))"
proof -
  from open_walk_spec [OF m path d, of None q] obtain d' q' where w: "same_drives D d'"
    "open_walk ata_io disk p 0 None (moved st dn d q s) = Some (map_option Some r, moved st dn d' q' s)" by blast
  show ?thesis
  proof (cases r)
    case None
    then show ?thesis using w by (auto simp: fat16_open_def)
  next
    case (Some it)
    show ?thesis
    proof (cases "is_directory it")
      case True
      then show ?thesis using w Some by (auto simp: fat16_open_def)
    next
      case False
      have "heap_owns (moved st dn d' q' s) L" using own by simp
      moreover have "unat (44 :: u32) = 44" "(44 :: nat) \<noteq> 0" by simp_all
      moreover have "unat (placement_address (moved st dn d' q' s)) + (16 + 44) < 4294967296" using room by simp
      ultimately obtain fp h where k: "kmalloc 44 (moved st dn d' q' s) = Some (fp, h)" "fp \<noteq> 0"
        "heap_only (moved st dn d' q' s) h" "heap_owns h (insert (fp, 44) L)" "fp \<notin> fst ` L"
        "keeps L (mem (moved st dn d' q' s)) (mem h)"
        "grows (16 + 44) (placement_address (moved st dn d' q' s)) (placement_address h)"
        by (rule kmalloc_obtain)
      have "fat_files h = fat_files (moved st dn d' q' s)"
        using heap_only_fat(3) [OF k(3)] .
      then show ?thesis using w Some False k by (auto simp: fat16_open_def fresh_file_def)
    qed
  qed
qed

section \<open>What the file system changes\<close>

text \<open>The stores agree outside the addresses in \<open>A\<close>, the drives keep their contents, and the
  memory owned by \<open>L\<close> is kept. Only the fields of the file system and the heap change.\<close>

definition fat_copy :: "('d, 'z) fat_scheme \<Rightarrow> ('d, 'z) fat_scheme \<Rightarrow> ('d, 'z) fat_scheme" where
  "fat_copy s' s = s\<lparr>mem := mem s', dev := dev s', placement_address := placement_address s',
     global_base := global_base s', streams := streams s', path_roots := path_roots s', path_parts := path_parts s',
     names := names s', disks := disks s', fat_privates := fat_privates s', fat_files := fat_files s'\<rparr>"

definition fat_only :: "('d, 'z) fat_scheme \<Rightarrow> ('d, 'z) fat_scheme \<Rightarrow> bool" where
  "fat_only s s' \<longleftrightarrow> s' = fat_copy s' s"

definition fat_stores_agree :: "u32 set \<Rightarrow> ('d, 'z) fat_scheme \<Rightarrow> ('d, 'z) fat_scheme \<Rightarrow> bool" where
  "fat_stores_agree A s s' \<longleftrightarrow> (\<forall>a. a \<notin> A \<longrightarrow> streams s' a = streams s a \<and> path_roots s' a = path_roots s a
     \<and> path_parts s' a = path_parts s a \<and> names s' a = names s a \<and> fat_privates s' a = fat_privates s a
     \<and> fat_files s' a = fat_files s a)"

definition fat_frame :: "u32 set \<Rightarrow> (u32 \<times> nat) set \<Rightarrow> (ata, 'z) fat_scheme \<Rightarrow> (ata, 'z) fat_scheme \<Rightarrow> bool" where
  "fat_frame A L s s' \<longleftrightarrow> fat_only s s' \<and> fat_stores_agree A s s' \<and> same_drives (dev s) (dev s') \<and> keeps L (mem s) (mem s')"

lemma fat_copy_simps [simp]: "fat_copy s s = s" "fat_copy a (fat_copy b s) = fat_copy a s"
  by (simp_all add: fat_copy_def)

lemma fat_only_refl [simp]: "fat_only s s"
  by (simp add: fat_only_def)

lemma fat_only_trans: "fat_only s s' \<Longrightarrow> fat_only s' s'' \<Longrightarrow> fat_only s s''"
  unfolding fat_only_def by (metis fat_copy_simps(2))

lemma fat_frame_trans:
  assumes f: "fat_frame A L s s'" and g: "fat_frame B K s' s''" and sub: "A \<subseteq> C" "B \<subseteq> C" "L \<subseteq> K"
  shows "fat_frame C L s s''"
proof -
  note F = f [unfolded fat_frame_def] and G = g [unfolded fat_frame_def]
  have "fat_only s s''" using fat_only_trans [of s s' s''] F G by blast
  moreover have "keeps L (mem s) (mem s'')" using keeps_trans [of L "mem s" "mem s'" K "mem s''"] F G sub(3) by blast
  moreover have "same_drives (dev s) (dev s'')"
    using same_drives_trans [of "dev s" "dev s'" "dev s''"] F G by blast
  moreover have "fat_stores_agree C s s''"
    unfolding fat_stores_agree_def
  proof (intro allI impI)
    fix a assume "a \<notin> C"
    then have "a \<notin> A" "a \<notin> B" using sub by auto
    then show "streams s'' a = streams s a \<and> path_roots s'' a = path_roots s a
     \<and> path_parts s'' a = path_parts s a \<and> names s'' a = names s a \<and> fat_privates s'' a = fat_privates s a
     \<and> fat_files s'' a = fat_files s a" using f g by (simp add: fat_frame_def fat_stores_agree_def)
  qed
  ultimately show ?thesis by (simp add: fat_frame_def)
qed

lemma fat_only_updates:
  "fat_only s (s\<lparr>fat_files := f\<rparr>)" "fat_only s (s\<lparr>fat_privates := g\<rparr>)" "fat_only s (s\<lparr>disks := ds\<rparr>)"
  "fat_only s (s\<lparr>streams := h\<rparr>)" "fat_only s (s\<lparr>dev := d\<rparr>)"
  "fat_only s (s\<lparr>mem := m, placement_address := pa, global_base := gb\<rparr>)"
  "fat_only s (s\<lparr>mem := m, placement_address := pa, global_base := gb, path_roots := rt, path_parts := pt, names := nm\<rparr>)"
  by (simp_all add: fat_only_def fat_copy_def)

lemma fat_frame_refl: "drive_ready (dev s) \<Longrightarrow> fat_frame A L s s"
  by (simp add: fat_frame_def fat_stores_agree_def same_drives_refl)

lemma fat_frame_heap:
  assumes "heap_only s s'" "keeps L (mem s) (mem s')" "drive_ready (dev s)"
  shows "fat_frame A L s s'"
proof -
  have "s' = s\<lparr>mem := mem s', placement_address := placement_address s', global_base := global_base s'\<rparr>"
    using assms(1) by (simp add: heap_only_def)
  then have "fat_only s s'" by (metis fat_only_updates(6))
  then show ?thesis
    using assms heap_only_stores [OF assms(1)] heap_only_fat [OF assms(1)]
    by (simp add: fat_frame_def fat_stores_agree_def same_drives_refl)
qed

lemma fat_frame_moved: "same_drives (dev s) d \<Longrightarrow> st \<in> A \<Longrightarrow> fat_frame A L s (moved st dn d p s)"
  using fat_only_trans [OF fat_only_updates(5) fat_only_updates(4)]
  by (auto simp: fat_frame_def fat_stores_agree_def moved_def)

lemma fat_frame_file: "a \<in> A \<Longrightarrow> drive_ready (dev s) \<Longrightarrow> fat_frame A L s (s\<lparr>fat_files := (fat_files s)(a := v)\<rparr>)"
  by (auto simp: fat_frame_def fat_stores_agree_def same_drives_refl fat_only_updates)

lemma fat_frame_private: "a \<in> A \<Longrightarrow> drive_ready (dev s) \<Longrightarrow> fat_frame A L s (s\<lparr>fat_privates := (fat_privates s)(a := v)\<rparr>)"
  by (auto simp: fat_frame_def fat_stores_agree_def same_drives_refl fat_only_updates)

lemma fat_frame_stream: "a \<in> A \<Longrightarrow> drive_ready (dev s) \<Longrightarrow> fat_frame A L s (s\<lparr>streams := (streams s)(a := v)\<rparr>)"
  by (auto simp: fat_frame_def fat_stores_agree_def same_drives_refl fat_only_updates)

lemma fat_frame_disks: "drive_ready (dev s) \<Longrightarrow> fat_frame A L s (s\<lparr>disks := ds\<rparr>)"
  by (auto simp: fat_frame_def fat_stores_agree_def same_drives_refl fat_only_updates)

lemma fat_frame_path:
  fixes s :: "(ata, 'z) fat_scheme"
  assumes "path_frame A L s s'" "drive_ready (dev s)"
  shows "fat_frame A L s s'"
proof -
  have e: "s' = s\<lparr>mem := mem s', placement_address := placement_address s', global_base := global_base s',
     path_roots := path_roots s', path_parts := path_parts s', names := names s'\<rparr>"
    using assms(1) by (simp add: path_frame_def paths_only_def)
  then have "fat_only s s'" by (metis fat_only_updates(7))
  moreover have "dev s' = dev s" by (subst e) simp
  moreover have "streams s' = streams s" by (subst e) simp
  moreover have "fat_privates s' = fat_privates s" by (subst e) simp
  moreover have "fat_files s' = fat_files s" by (subst e) simp
  ultimately show ?thesis
    using assms by (simp add: fat_frame_def fat_stores_agree_def same_drives_refl path_frame_def)
qed

section \<open>Moving in a file\<close>

definition seek_target :: "fat_file_descriptor \<Rightarrow> int \<Rightarrow> FILE_SEEK_MODE \<Rightarrow> int" where
  "seek_target f offset whence = (case whence of FILE_SEEK_SET \<Rightarrow> offset
     | FILE_SEEK_CUR \<Rightarrow> uint (file_pos f) + offset | FILE_SEEK_END \<Rightarrow> uint (filesize (desc_item f)) + offset)"

lemma beyond_end:
  fixes F :: u32
  assumes "uint F < 2147483648" "-2147483648 \<le> t" "t < 4294967296"
  shows "word_of_int t > F \<longleftrightarrow> \<not> (0 \<le> t \<and> t \<le> uint F)"
proof -
  have u: "uint (word_of_int t :: u32) = t mod 4294967296" by (simp add: uint_word_of_int)
  have "t mod 4294967296 = (if t < 0 then t + 4294967296 else t)"
  proof (cases "t < 0")
    case True
    have "t mod 4294967296 = (t + 4294967296) mod 4294967296" by simp
    also have "\<dots> = t + 4294967296" using True assms(2) by (intro mod_pos_pos_trivial) simp_all
    finally show ?thesis using True by simp
  next
    case False
    then show ?thesis using assms(3) by (simp add: mod_pos_pos_trivial)
  qed
  then show ?thesis using assms by (auto simp: word_less_def u)
qed

lemma fat16_seek_spec:
  assumes f: "fat_files s fp = Some f" "file_pos f \<le> filesize (desc_item f)" "unat (filesize (desc_item f)) < 2147483648"
    and off: "-2147483648 \<le> off" "off < 2147483648"
  shows "fat16_seek fp off whence s =
    (if 0 \<le> seek_target f off whence \<and> seek_target f off whence \<le> uint (filesize (desc_item f))
     then Some (0, with_file fp (f\<lparr>file_pos := word_of_int (seek_target f off whence)\<rparr>) s) else Some (-1, s))"
proof -
  have F: "uint (filesize (desc_item f)) < 2147483648" using f(3) unfolding uint_nat by linarith
  have P: "uint (file_pos f) \<le> uint (filesize (desc_item f))" using f(2) by (simp add: word_le_def)
  have pos: "0 \<le> uint (file_pos f)" by simp
  have "-2147483648 \<le> seek_target f off whence \<and> seek_target f off whence < 4294967296"
  proof (cases whence)
    case FILE_SEEK_SET
    then show ?thesis using off by (simp add: seek_target_def)
  next
    case FILE_SEEK_CUR
    show ?thesis unfolding seek_target_def FILE_SEEK_CUR FILE_SEEK_MODE.case using off F P pos by linarith
  next
    case FILE_SEEK_END
    show ?thesis unfolding seek_target_def FILE_SEEK_END FILE_SEEK_MODE.case using off F P pos by linarith
  qed
  then have "-2147483648 \<le> seek_target f off whence" "seek_target f off whence < 4294967296" by simp_all
  note b = beyond_end [OF F this]
  have "(case whence of FILE_SEEK_SET \<Rightarrow> word_of_int off | FILE_SEEK_CUR \<Rightarrow> file_pos f + word_of_int off
     | FILE_SEEK_END \<Rightarrow> filesize (desc_item f) + word_of_int off) = (word_of_int (seek_target f off whence) :: u32)"
    by (cases whence) (simp_all add: seek_target_def)
  then show ?thesis using f(1) b by (simp add: fat16_seek_def Let_def)
qed

end
