(* ===== verification/FatMount.thy ===== *)
theory FatMount
  imports FatFile
begin

text \<open>
  Mounting a FAT16 volume, \<open>fat16_resolve\<close>: which boot sectors it accepts, the state it leaves,
  and that it releases its stream on every error.
\<close>

lemma diskstream_new_spec:
  fixes s :: "(ata, 'z) fat_scheme"
  assumes own: "heap_owns s L" and room: "unat (placement_address s) + 24 < 4294967296" and ready: "drive_ready (dev s)"
  obtains st s1 where "diskstream_new dn s = Some (st, moved st dn (dev s) 0 s1)" "st \<noteq> 0" "st \<notin> fst ` L"
    "heap_only s s1" "heap_owns s1 (insert (st, 8) L)" "keeps L (mem s) (mem s1)"
    "grows 24 (placement_address s) (placement_address s1)"
proof -
  have "unat (8 :: u32) = 8" "(8 :: nat) \<noteq> 0" "unat (placement_address s) + (16 + 8) < 4294967296"
    using room by simp_all
  note k0 = kmalloc_obtain [OF own this]
  obtain st s1 where k: "kmalloc 8 s = Some (st, s1)" "st \<noteq> 0" "heap_only s s1"
    "heap_owns s1 (insert (st, 8) L)" "st \<notin> fst ` L" "keeps L (mem s) (mem s1)"
    "grows (16 + 8) (placement_address s) (placement_address s1)" by (rule k0) blast
  have "diskstream_new dn s = Some (st, moved st dn (dev s) 0 s1)"
    using heap_only_fat [OF k(3)] by (simp add: diskstream_new_def k(1) moved_def)
  then show ?thesis using that k by simp
qed

text \<open>The code of \<open>fat16_resolve\<close> for what is on the drive.\<close>

definition mount_code :: "ata \<Rightarrow> int \<Rightarrow> int" where
  "mount_code d dn = (if drive_size d dn = 0 then -2 else check_boot_sector (read_boot_sector (bytes_at d dn 0 512)))"

lemma drive_size_512: "drive_size d dn = 0 \<or> 512 \<le> drive_size d dn"
  by (cases "drive_sectors d dn") (simp_all add: drive_size_def)

lemma mount_read:
  assumes ready: "drive_ready D"
  shows "\<exists>d' r bs p. same_drives D d' \<and> diskstream_read ata_io st 512 (moved st dn D 0 s) = Some (r, bs, moved st dn d' p s)
    \<and> (if drive_size D dn = 0 then r \<noteq> 0 else r = 0 \<and> bs = bytes_at D dn 0 512)"
proof (cases "drive_size D dn = 0")
  case True
  then have z: "drive_sectors D dn = 0" by (simp add: drive_size_def)
  from diskstream_read_spec [of "moved st dn D 0 s" st 0 dn 512] ready
  obtain d' where d': "same_drives D d'" "diskstream_read ata_io st 512 (moved st dn D 0 s)
      = Some (-1, [], (moved st dn D 0 s)\<lparr>dev := d'\<rparr>)" by (auto simp: z)
  have "(moved st dn D 0 s)\<lparr>dev := d'\<rparr> = moved st dn d' 0 s" by (simp add: moved_def)
  with d' have "diskstream_read ata_io st 512 (moved st dn D 0 s) = Some (-1, [], moved st dn d' 0 s)" by simp
  then show ?thesis using d'(1) True by (intro exI [of _ d'] exI [of _ "-1"] exI [of _ "[]"] exI [of _ 0]) simp
next
  case False
  have "unat (0 :: u32) + unat (512 :: u32) \<le> drive_size D dn" using False drive_size_512 [of D dn] by simp
  from moved_read [OF same_drives_refl [OF ready] this, of st s] show ?thesis using False by fastforce
qed

lemma fat16_resolve_spec:
  fixes s :: "(ata, 'z) fat_scheme"
  assumes own: "heap_owns s L" and room: "unat (placement_address s) + 556 < 4294967296"
    and ready: "drive_ready (dev s)" and disk: "rd (disks s) disk = Some dk" "disk_no dk = dn"
  shows "\<exists>A s'. fat16_resolve ata_io disk s = Some (mount_code (dev s) dn, s') \<and> A \<inter> fst ` L = {}
    \<and> fat_frame A L s s' \<and> grows 556 (placement_address s) (placement_address s')
    \<and> (if mount_code (dev s) dn = 0 then \<exists>st pr p. A = {st, pr} \<and> st \<noteq> pr \<and> heap_owns s' (insert (pr, 516) (insert (st, 8) L))
        \<and> disks s' = (disks s)[disk := dk\<lparr>fs_private := pr\<rparr>]
        \<and> fat_privates s' pr = Some \<lparr>bpb = read_boot_sector (bytes_at (dev s) dn 0 512), stream = st\<rparr>
        \<and> streams s' st = Some \<lparr>pos = p, disk_id = dn\<rparr>
       else heap_owns s' L \<and> disks s' = disks s)"
proof -
  let ?D = "dev s"
  have "unat (placement_address s) + 24 < 4294967296" using room by simp
  note k0 = diskstream_new_spec [OF own this ready]
  obtain st s1 where k: "diskstream_new dn s = Some (st, moved st dn ?D 0 s1)" "st \<noteq> 0" "st \<notin> fst ` L"
    "heap_only s s1" "heap_owns s1 (insert (st, 8) L)" "keeps L (mem s) (mem s1)"
    "grows 24 (placement_address s) (placement_address s1)" by (rule k0) blast
  obtain d' r bs p where e: "same_drives ?D d'"
    "diskstream_read ata_io st 512 (moved st dn ?D 0 s1) = Some (r, bs, moved st dn d' p s1)"
    "if drive_size ?D dn = 0 then r \<noteq> 0 else r = 0 \<and> bs = bytes_at ?D dn 0 512"
    using mount_read [OF ready] by blast
  let ?s2 = "moved st dn d' p s1"
  have ready2: "drive_ready (dev ?s2)" using same_drives_sym_ready [OF e(1)] by simp
  have "fat_frame {} L s s1" using k(4,6) ready by (rule fat_frame_heap)
  moreover have "fat_frame {st} L s1 ?s2"
    using e(1) heap_only_fat(5) [OF k(4)] by (intro fat_frame_moved) simp_all
  ultimately have fr2: "fat_frame {st} L s ?s2" by (rule fat_frame_trans) auto
  show ?thesis
  proof (cases "mount_code ?D dn = 0")
    case False
    have run: "fat16_resolve ata_io disk s = Some (mount_code ?D dn, diskstream_close st ?s2)"
      using False e k(1,2) disk by (auto simp: fat16_resolve_def mount_code_def split: if_splits)
    have "heap_owns ?s2 (insert (st, 8) L)" using k(5) by simp
    note f = free_block [OF this k(3)]
    have "fat_frame {} L ?s2 (kfree st ?s2)" using f(2,3) ready2 by (rule fat_frame_heap)
    moreover have "fat_frame {st} L (kfree st ?s2) (diskstream_close st ?s2)"
      using fat_frame_stream [of st "{st}" "kfree st ?s2" L None] heap_only_fat [OF f(2)] ready2
      by (simp add: diskstream_close_def)
    ultimately have "fat_frame {st} L ?s2 (diskstream_close st ?s2)" by (rule fat_frame_trans) auto
    with fr2 have "fat_frame {st} L s (diskstream_close st ?s2)" by (rule fat_frame_trans) auto
    moreover have "heap_owns (diskstream_close st ?s2) L" using f(1) by (simp add: diskstream_close_def)
    moreover have "disks (diskstream_close st ?s2) = disks s"
      using heap_only_fat(1) [OF f(2)] heap_only_fat(1) [OF k(4)] by (simp add: diskstream_close_def)
    moreover have "placement_address (diskstream_close st ?s2) = placement_address s1"
      using f(4) by (simp add: diskstream_close_def)
    ultimately show ?thesis
      using run False k(3,7) by (intro exI [of _ "{st}"] exI [of _ "diskstream_close st ?s2"]) simp
  next
    case True
    then have bs: "r = 0" "bs = bytes_at ?D dn 0 512" "check_boot_sector (read_boot_sector bs) = 0"
      using e(3) by (auto simp: mount_code_def split: if_splits)
    have "heap_owns ?s2 (insert (st, 8) L)" "unat (516 :: u32) = 516" "(516 :: nat) \<noteq> 0"
      "unat (placement_address ?s2) + (16 + 516) < 4294967296" using k(5,7) room by simp_all
    note k1 = kmalloc_obtain [OF this]
    obtain pr s3 where q: "kmalloc 516 ?s2 = Some (pr, s3)" "pr \<noteq> 0" "heap_only ?s2 s3"
      "heap_owns s3 (insert (pr, 516) (insert (st, 8) L))" "pr \<notin> fst ` insert (st, 8) L"
      "keeps (insert (st, 8) L) (mem ?s2) (mem s3)"
      "grows (16 + 516) (placement_address ?s2) (placement_address s3)" by (rule k1) blast
    let ?s4 = "s3\<lparr>fat_privates := (fat_privates s3)(pr \<mapsto> \<lparr>bpb = read_boot_sector bs, stream = st\<rparr>)\<rparr>"
    let ?s5 = "?s4\<lparr>disks := (disks s)[disk := dk\<lparr>fs_private := pr\<rparr>]\<rparr>"
    have ds: "disks s3 = disks s" using heap_only_fat(1) [OF q(3)] heap_only_fat(1) [OF k(4)] by simp
    have dlen: "disk < length (disks s)" using disk(1) by (simp add: rd_def split: if_splits)
    have run: "fat16_resolve ata_io disk s = Some (0, ?s5)"
      using e(2) k(1,2) disk bs q(1) ds dlen
      by (simp add: fat16_resolve_def Let_def wr_def)
    have ready3: "drive_ready (dev s3)" using ready2 heap_only_fat(5) [OF q(3)] by simp
    have "fat_frame {} L ?s2 s3"
      using q(3) ready2 q(6) by (intro fat_frame_heap) (auto simp: keeps_def simp del: in_region)
    moreover have "fat_frame {pr} L s3 ?s4" using ready3 by (intro fat_frame_private) simp_all
    ultimately have "fat_frame {pr} L ?s2 ?s4" by (rule fat_frame_trans) auto
    moreover have "fat_frame {} L ?s4 ?s5" using ready3 by (intro fat_frame_disks) simp
    ultimately have "fat_frame {pr} L ?s2 ?s5" by (rule fat_frame_trans) auto
    with fr2 have fr5: "fat_frame {st, pr} L s ?s5" by (rule fat_frame_trans) auto
    have "streams ?s5 st = Some \<lparr>pos = p, disk_id = dn\<rparr>" using heap_only_fat(4) [OF q(3)] by simp
    moreover have "heap_owns ?s5 (insert (pr, 516) (insert (st, 8) L))" using q(4) by simp
    moreover have "st \<noteq> pr" "pr \<notin> fst ` L" using q(5) by auto
    moreover have "grows 556 (placement_address s) (placement_address ?s5)" using q(7) k(7) by simp
    ultimately show ?thesis
      using run True fr5 k(3) bs(2) by (intro exI [of _ "{st, pr}"] exI [of _ ?s5]) auto
  qed
qed

end
