(* ===== verification/SampleVolume.thy ===== *)
theory SampleVolume
  imports FatMount
begin

text \<open>
  A small FAT16 volume on the first drive, on which the theorems about the file system are
  applied: 512-byte clusters, one sector of table, a root directory of 16 items with the file
  \<open>HELLO.TXT\<close> (600 bytes in clusters 2 and 3) and the directory \<open>BIN\<close> (cluster 4) with the
  file \<open>SH.ELF\<close> (cluster 5): 88 bytes, an ELF program with one segment, of 4 bytes in the file and 16 in memory.
\<close>

section \<open>Drives given by their bytes\<close>

definition drives_of :: "(nat \<Rightarrow> u8) \<Rightarrow> ata" where
  "drives_of f = blank_drives\<lparr>ata_img := (\<lambda>drv lba. map (\<lambda>k. ucast (f (512 * lba + 2 * k))
     OR push_bit 8 (ucast (f (512 * lba + 2 * k + 1)))) [0..<256])\<rparr>"

lemma word_bytes:
  "ucast (ucast (a :: u8) OR push_bit 8 (ucast (b :: u8)) :: u16) = a"
  "ucast (drop_bit 8 (ucast (a :: u8) OR push_bit 8 (ucast (b :: u8)) :: u16)) = b"
proof -
  show "ucast (ucast a OR push_bit 8 (ucast b) :: u16) = a"
    by (rule bit_word_eqI) (auto simp: bit_simps)
  show "ucast (drop_bit 8 (ucast a OR push_bit 8 (ucast b) :: u16)) = b"
    by (rule bit_word_eqI) (auto simp: bit_simps dest: bit_imp_le_length)
qed

lemma drives_of_bytes [simp]: "drive_bytes (drives_of f) dn n = f n"
proof -
  have k: "n mod 512 div 2 < 256" by simp
  have n: "512 * (n div 512) + n mod 512 = n" by simp
  have e: "even (n mod 512) \<longleftrightarrow> even n" by (simp add: dvd_mod_iff)
  show ?thesis
  proof (cases "even n")
    case True
    then have "2 * (n mod 512 div 2) = n mod 512" using e by simp
    then have "512 * (n div 512) + 2 * (n mod 512 div 2) = n" using n by simp
    then show ?thesis using k True e
      by (simp add: drive_bytes_def drives_of_def buf_byte_def word_bytes Let_def del: upt_rec_numeral)
  next
    case False
    then have "Suc (2 * (n mod 512 div 2)) = n mod 512" using e by simp
    then have "Suc (512 * (n div 512) + 2 * (n mod 512 div 2)) = n" using n by linarith
    then show ?thesis using k False e
      by (simp add: drive_bytes_def drives_of_def buf_byte_def word_bytes Let_def del: upt_rec_numeral drop_bit_or)
  qed
qed

lemma drives_of_ready [simp]: "drive_ready (drives_of f)" "drive_sectors (drives_of f) dn = 32768"
  "drive_size (drives_of f) dn = 16777216"
  by (simp_all add: drive_ready_def drive_sectors_def ata_idle_def drives_of_def blank_drives_def drive_size_def)

section \<open>The volume\<close>

definition sample_table :: "(nat \<times> u8) list" where
  "sample_table = [
     (12, 2), (13, 1), (14, 1), (16, 1), (17, 16), (22, 1), (38, 0x29), (510, 0x55), (511, 0xAA),
     (516, 3), (518, 0xFF), (519, 0xFF), (520, 0xFF), (521, 0xFF), (522, 0xFF), (523, 0xFF),
     (1024, 72), (1025, 69), (1026, 76), (1027, 76), (1028, 79), (1029, 32), (1030, 32), (1031, 32),
     (1032, 84), (1033, 88), (1034, 84), (1035, 0x20), (1050, 2), (1052, 0x58), (1053, 2),
     (1056, 66), (1057, 73), (1058, 78), (1059, 32), (1060, 32), (1061, 32), (1062, 32), (1063, 32),
     (1064, 32), (1065, 32), (1066, 32), (1067, 0x10), (1082, 4),
     (2560, 83), (2561, 72), (2562, 32), (2563, 32), (2564, 32), (2565, 32), (2566, 32), (2567, 32),
     (2568, 69), (2569, 76), (2570, 70), (2571, 0x20), (2586, 5), (2588, 88),
     (3072, 0x7F), (3073, 69), (3074, 76), (3075, 70), (3076, 1), (3098, 0x40), (3100, 52), (3116, 1),
     (3124, 1), (3128, 84), (3134, 0x40), (3140, 4), (3144, 16),
     (3156, 0xEB), (3157, 0xFE), (3158, 0x90), (3159, 0x90)]"

definition sample_byte :: "nat \<Rightarrow> u8" where
  "sample_byte n = (case map_of sample_table n of Some v \<Rightarrow> v
     | None \<Rightarrow> if n < 1536 \<or> 2560 \<le> n \<and> n < 3584 then 0 else of_nat (n div 512))"

definition sample_drives :: ata where
  "sample_drives = drives_of sample_byte"

definition sample_bpb :: fat_boot_sector where
  "sample_bpb = read_boot_sector (bytes_at sample_drives 0 0 512)"

lemma bytes_at_nth [simp]: "i < n \<Longrightarrow> bytes_at d dn p n ! i = drive_bytes d dn (p + i)"
  by (simp add: bytes_at_def)

lemma sample_drive [simp]: "drive_ready sample_drives" "drive_size sample_drives dn = 16777216"
  "drive_bytes sample_drives dn n = sample_byte n"
  by (simp_all add: sample_drives_def)

lemmas sample_eval = sample_byte_def sample_table_def le16_def le32_def

lemma boot_sector_fields:
  "bytes_per_sector (read_boot_sector b) = le16 b 11" "sectors_per_cluster (read_boot_sector b) = b ! 13"
  "reserved_sectors (read_boot_sector b) = le16 b 14" "fat_copies (read_boot_sector b) = b ! 16"
  "fat_sectors (read_boot_sector b) = le16 b 22" "root_dir_entries (read_boot_sector b) = le16 b 17"
  "signature (read_boot_sector b) = b ! 38" "boot_signature (read_boot_sector b) = le16 b 510"
  by (simp_all add: read_boot_sector_def)

lemma item_fields:
  "low_16_bits_first_cluster (read_directory_item b) = le16 b 26" "filesize (read_directory_item b) = le32 b 28"
  by (simp_all add: read_directory_item_def)

lemma sample_bpb_fields [simp]:
  "bytes_per_sector sample_bpb = 512" "sectors_per_cluster sample_bpb = 1" "reserved_sectors sample_bpb = 1"
  "fat_copies sample_bpb = 1" "fat_sectors sample_bpb = 1" "root_dir_entries sample_bpb = 16"
  "signature sample_bpb = 0x29" "boot_signature sample_bpb = 0xAA55"
  unfolding sample_bpb_def boot_sector_fields by (simp_all add: sample_eval)

lemma sample_volume [simp]: "volume_ok sample_bpb 16777216" "root_pos sample_bpb = 1024"
  "cluster_bytes sample_bpb = 512"
  by (simp_all add: volume_ok_def root_pos_def cluster_bytes_def)

lemma sample_cluster [simp]: "cluster_pos sample_bpb c = 1536 + (unat c - 2) * 512"
  by (simp add: cluster_pos_def)

lemma sample_next [simp]:
  "fat_next sample_bpb sample_drives dn 2 = 3" "fat_next sample_bpb sample_drives dn 3 = 0xFFFF"
  "fat_next sample_bpb sample_drives dn 4 = 0xFFFF" "fat_next sample_bpb sample_drives dn 5 = 0xFFFF"
  by (simp_all add: fat_next_def fat_pos_def sample_eval)

definition hello :: fat_directory_item where "hello = item_at sample_drives 0 1024"
definition bin :: fat_directory_item where "bin = item_at sample_drives 0 1056"
definition sh_elf :: fat_directory_item where "sh_elf = item_at sample_drives 0 2560"

lemma items_at_numeral:
  "items_at d dn p 0 = []"
  "items_at d dn p (numeral k) = item_at d dn p # items_at d dn (p + 32) (pred_numeral k)"
  by (simp_all add: items_at_Suc numeral_eq_Suc) (simp add: items_at_def)

lemma item_at_fields:
  "i < 8 \<Longrightarrow> filename (item_at d dn p) ! i = drive_bytes d dn (p + i)"
  "filename (item_at d dn p) = map (drive_bytes d dn) [p..<p + 8]"
  "ext (item_at d dn p) = map (drive_bytes d dn) [p + 8..<p + 11]"
  "attribute (item_at d dn p) = drive_bytes d dn (p + 11)"
  by (simp_all add: item_at_def read_directory_item_def slice_def bytes_at_def take_map drop_map add.commute)

lemmas item_eval = item_at_def read_directory_item_def slice_def bytes_at_def

lemma sample_hello:
  "filename hello ! 0 = 72" "item_name hello = bytes_of ''HELLO.TXT''" "\<not> is_directory hello"
  "low_16_bits_first_cluster hello = 2" "filesize hello = 600"
proof -
  show "filename hello ! 0 = 72" by (simp add: hello_def item_at_fields sample_eval)
  have f: "filename hello = [72, 69, 76, 76, 79, 32, 32, 32]" "ext hello = [84, 88, 84]"
    by (simp_all add: hello_def item_at_fields sample_eval)
  show "item_name hello = bytes_of ''HELLO.TXT''" by (simp add: item_name_def trimmed_def f chars)
  show "\<not> is_directory hello"
    by (simp add: hello_def is_directory_def FAT_FILE_SUBDIRECTORY_def item_at_fields sample_eval)
  show "low_16_bits_first_cluster hello = 2" "filesize hello = 600"
    by (simp_all add: hello_def item_at_def item_fields sample_eval)
qed

lemma sample_bin:
  "filename bin ! 0 = 66" "item_name bin = bytes_of ''BIN''" "is_directory bin"
  "low_16_bits_first_cluster bin = 4"
proof -
  show "filename bin ! 0 = 66" by (simp add: bin_def item_at_fields sample_eval)
  have f: "filename bin = [66, 73, 78, 32, 32, 32, 32, 32]" "ext bin = [32, 32, 32]"
    by (simp_all add: bin_def item_at_fields sample_eval)
  show "item_name bin = bytes_of ''BIN''" by (simp add: item_name_def trimmed_def f chars)
  show "is_directory bin"
    by (simp add: bin_def is_directory_def FAT_FILE_SUBDIRECTORY_def item_at_fields sample_eval)
  show "low_16_bits_first_cluster bin = 4"
    by (simp add: bin_def item_at_def item_fields sample_eval)
qed

lemma sample_sh_elf:
  "filename sh_elf ! 0 = 83" "item_name sh_elf = bytes_of ''SH.ELF''" "\<not> is_directory sh_elf"
  "low_16_bits_first_cluster sh_elf = 5" "filesize sh_elf = 88"
proof -
  show "filename sh_elf ! 0 = 83" by (simp add: sh_elf_def item_at_fields sample_eval)
  have f: "filename sh_elf = [83, 72, 32, 32, 32, 32, 32, 32]" "ext sh_elf = [69, 76, 70]"
    by (simp_all add: sh_elf_def item_at_fields sample_eval)
  show "item_name sh_elf = bytes_of ''SH.ELF''" by (simp add: item_name_def trimmed_def f chars)
  show "\<not> is_directory sh_elf"
    by (simp add: sh_elf_def is_directory_def FAT_FILE_SUBDIRECTORY_def item_at_fields sample_eval)
  show "low_16_bits_first_cluster sh_elf = 5" "filesize sh_elf = 88"
    by (simp_all add: sh_elf_def item_at_def item_fields sample_eval)
qed

lemma sample_chains:
  "fat_chain sample_bpb sample_drives 0 2 [2, 3]" "fat_chain sample_bpb sample_drives 0 4 [4]"
  "fat_chain sample_bpb sample_drives 0 5 [5]"
  by (simp_all add: cluster_ok_def)

lemma sample_files: "file_ok sample_bpb sample_drives 0 hello [2, 3]" "file_ok sample_bpb sample_drives 0 sh_elf [5]"
  using sample_chains by (simp_all add: file_ok_def sample_hello sample_sh_elf)

lemma sample_data: "1536 \<le> n \<Longrightarrow> n < 2560 \<Longrightarrow> sample_byte n = of_nat (n div 512)"
  by (simp add: sample_byte_def sample_table_def)

lemma sample_hello_bytes:
  "i < 1024 \<Longrightarrow> file_byte sample_bpb sample_drives 0 [2, 3] i = (if i < 512 then 3 else 4)"
proof (cases "i < 512")
  case True
  then have "(1536 + i) div 512 = 3" by simp
  then show ?thesis using True sample_data [of "1536 + i"] by (simp add: file_byte_def)
next
  case False
  assume "i < 1024"
  then obtain k where k: "i = 512 + k" "k < 512" using False le_Suc_ex [of 512 i] by auto
  then have "(2048 + k) div 512 = 4" by simp
  then show ?thesis using k sample_data [of "2048 + k"] by (simp add: file_byte_def)
qed

lemma sample_program_bytes:
  "i < 512 \<Longrightarrow> file_byte sample_bpb sample_drives 0 [5] i = sample_byte (3072 + i)"
  by (simp add: file_byte_def)

lemma sample_root: "\<exists>its. directory sample_bpb sample_drives 0 0 its
    \<and> lookup_item (bytes_of ''hello.txt'') its = Some hello \<and> lookup_item (bytes_of ''bin'') its = Some bin"
proof -
  let ?its = "items_at sample_drives 0 1024 16"
  have "filename (item_at sample_drives 0 1088) ! 0 = 0" by (simp add: item_at_fields sample_eval)
  then have "live_items ?its = [hello, bin]"
    using sample_hello(1) sample_bin(1)
    by (simp add: items_at_numeral live_items_def hello_def bin_def)
  then have "lookup_item (bytes_of ''hello.txt'') ?its = Some hello" "lookup_item (bytes_of ''bin'') ?its = Some bin"
    by (simp_all add: lookup_item_def sample_hello sample_bin chars toupper_def)
  then show ?thesis by (auto simp: directory_def)
qed

lemma sample_bin_directory: "\<exists>its. directory sample_bpb sample_drives 0 4 its
    \<and> lookup_item (bytes_of ''sh.elf'') its = Some sh_elf"
proof -
  let ?its = "items_at sample_drives 0 2560 16"
  have "filename (item_at sample_drives 0 2592) ! 0 = 0" by (simp add: item_at_fields sample_eval)
  then have "live_items ?its = [sh_elf]"
    using sample_sh_elf(1) by (simp add: items_at_numeral live_items_def sh_elf_def)
  then have "lookup_item (bytes_of ''sh.elf'') ?its = Some sh_elf"
    by (simp add: lookup_item_def sample_sh_elf chars toupper_def)
  moreover have "cluster_items sample_bpb sample_drives 0 [4] = ?its" by (simp add: cluster_items_def)
  ultimately have "directory sample_bpb sample_drives 0 4 ?its"
    using sample_chains(2) by (simp add: directory_def del: fat_chain.simps) (metis sample_chains(2))
  then show ?thesis using \<open>lookup_item _ _ = _\<close> by blast
qed

lemma sample_walks:
  "walk sample_bpb sample_drives 0 0 [bytes_of ''hello.txt''] (Some hello)"
  "walk sample_bpb sample_drives 0 0 [bytes_of ''bin'', bytes_of ''sh.elf''] (Some sh_elf)"
proof -
  obtain its where r: "directory sample_bpb sample_drives 0 0 its"
    "lookup_item (bytes_of ''hello.txt'') its = Some hello" "lookup_item (bytes_of ''bin'') its = Some bin"
    using sample_root by blast
  obtain its' where "directory sample_bpb sample_drives 0 4 its'" "lookup_item (bytes_of ''sh.elf'') its' = Some sh_elf"
    using sample_bin_directory by blast
  then have "walk sample_bpb sample_drives 0 4 [bytes_of ''sh.elf''] (Some sh_elf)" by auto
  then show "walk sample_bpb sample_drives 0 0 [bytes_of ''bin'', bytes_of ''sh.elf''] (Some sh_elf)"
    using r sample_bin(3,4) by (intro walk.simps(3) [THEN iffD2] exI [of _ its]) (simp del: walk.simps)
  show "walk sample_bpb sample_drives 0 0 [bytes_of ''hello.txt''] (Some hello)"
    using r by (simp del: not_None_eq) metis
qed

section \<open>A machine with the volume\<close>

text \<open>Before mounting, and with the volume mounted on disk 0 and \<open>HELLO.TXT\<close> open.\<close>

definition boot_fat :: "ata \<Rightarrow> ata fat" where
  "boot_fat d = paths.extend (boot_paths (boot_disk d))
     \<lparr>disks = [\<lparr>disk_no = 0, fs_private = 0\<rparr>, \<lparr>disk_no = 1, fs_private = 0\<rparr>],
      fat_privates = Map.empty, fat_files = Map.empty\<rparr>"

lemma boot_fat_simps [simp]:
  "dev (boot_fat d) = d" "disks (boot_fat d) = [\<lparr>disk_no = 0, fs_private = 0\<rparr>, \<lparr>disk_no = 1, fs_private = 0\<rparr>]"
  "streams (boot_fat d) = [0x20010 \<mapsto> \<lparr>pos = 510, disk_id = 0\<rparr>]" "placement_address (boot_fat d) = 0x20000"
  by (simp_all add: boot_fat_def boot_paths_def paths.extend_def disk.extend_def boot_disk_def keyboard.extend_def
    boot_keyboard_def cpu.extend_def boot_cpu_def)

lemma boot_fat_owns [simp]: "heap_owns (boot_fat d) {}"
  by (rule heap_owns_empty; simp add: boot_fat_def boot_paths_def paths.extend_def disk.extend_def boot_disk_def
    keyboard.extend_def boot_keyboard_def cpu.extend_def boot_cpu_def)

definition sample_mounted :: "ata fat" where
  "sample_mounted = (boot_fat sample_drives)\<lparr>
     disks := [\<lparr>disk_no = 0, fs_private = 0x20110\<rparr>, \<lparr>disk_no = 1, fs_private = 0\<rparr>],
     fat_privates := [0x20110 \<mapsto> \<lparr>bpb = sample_bpb, stream = 0x20010\<rparr>],
     fat_files := [0x20320 \<mapsto> fresh_file hello]\<rparr>"

lemma sample_mounted_simps [simp]:
  "dev sample_mounted = sample_drives" "streams sample_mounted 0x20010 = Some \<lparr>pos = 510, disk_id = 0\<rparr>"
  "fat_files sample_mounted 0x20320 = Some (fresh_file hello)"
  by (simp_all add: sample_mounted_def)

lemma sample_is_mounted [simp]: "mounted 0 sample_bpb 0x20010 0 sample_drives sample_mounted"
  by (simp add: mounted_def private_of_def sample_mounted_def rd_def)

end
