(* ===== verification/FatProps.thy ===== *)
theory FatProps
  imports SampleVolume
begin

text \<open>
  The properties of the FAT16 driver, each applied to the sample volume.
\<close>

text \<open>The name of a directory item fits the 13-byte buffer whatever the item holds: the base up
  to its first space or NUL and, when the extension does not start with one, a dot and the extension,
  padded with NULs.\<close>

theorem full_relative_filename_fits:
  assumes "length (filename item) = 8" and "length (ext item) = 3" and "length out = 13"
  shows "fat16_get_full_relative_filename item out 13
      = Some (item_name item @ replicate (13 - length (item_name item)) 0)
    \<and> length (item_name item) \<le> 12 \<and> 0 \<notin> set (item_name item)"
  using full_relative_filename_spec item_name_length item_name_no_NUL assms by (simp add: item_ok_def)

theorem full_relative_filename_fits_witness:
  "fat16_get_full_relative_filename hello (replicate 13 7) 13 = Some (bytes_of ''HELLO.TXT'' @ replicate 4 0)"
  using full_relative_filename_fits [of hello "replicate 13 7"] item_at_ok
  by (simp add: sample_hello item_ok_def hello_def [symmetric] chars) (simp add: hello_def item_at_fields)

text \<open>C5: on a mounted volume, \<open>fat16_get_directory_entry\<close> returns the first live item of the
  directory (the root, or the clusters of a finite chain) whose name is the one asked for up to the
  case of letters, and a negative code exactly when there is none; only the stream moves.\<close>

theorem get_directory_entry_finds:
  fixes s :: "(ata, 'z) fat_scheme"
  assumes "mounted disk b st dn (dev s) s" and "streams s st = Some \<lparr>pos = p, disk_id = dn\<rparr>"
    and "directory b (dev s) dn c its" and "terminated name"
  shows "\<exists>r d' p'. fat16_get_directory_entry ata_io disk c name s
      = Some (r, lookup_item (str_of name) its, moved st dn d' p' s)
    \<and> same_drives (dev s) d' \<and> (r = 0 \<longleftrightarrow> lookup_item (str_of name) its \<noteq> None) \<and> r \<le> 0"
proof -
  have "drive_ready (dev s)" using assms(1) by (simp add: mounted_def)
  from get_directory_entry_spec [OF assms(1) same_drives_refl [OF this] assms(3,4), of p]
  obtain d' p' where d': "same_drives (dev s) d'" "fat16_get_directory_entry ata_io disk c name s =
    (let (r, it) = find_item (if c = 0 then -4 else -3) (-4) (str_of name) its
     in Some (r, it, moved st dn d' p' s))" unfolding moved_refl [OF assms(2)] by blast
  let ?f = "find_item (if c = 0 then -4 else -3) (-4) (str_of name) its"
  have "snd ?f = lookup_item (str_of name) its \<and> (fst ?f = 0 \<longleftrightarrow> lookup_item (str_of name) its \<noteq> None) \<and> fst ?f \<le> 0"
    by (rule find_item_lookup) simp_all
  then show ?thesis using d' by (intro exI [of _ "fst ?f"] exI [of _ d'] exI [of _ p']) (simp add: split_beta)
qed

theorem get_directory_entry_finds_witness:
  "\<exists>d' p'. fat16_get_directory_entry ata_io 0 0 (lit ''bin'') sample_mounted
    = Some (0, Some bin, moved 0x20010 0 d' p' sample_mounted)"
proof -
  obtain its where its: "directory sample_bpb sample_drives 0 0 its" "lookup_item (bytes_of ''bin'') its = Some bin"
    using sample_root by blast
  have "terminated (lit ''bin'')" "str_of (lit ''bin'') = bytes_of ''bin''" by (simp_all add: chars)
  then show ?thesis
    using get_directory_entry_finds [of 0 sample_bpb "0x20010" 0 sample_mounted 510 0 its "lit ''bin''"] its
    by auto
qed

text \<open>C6: \<open>fat16_read\<close> on an open file returns the bytes of the file from its position on, along its
  chain of clusters, at most up to the end of the file, reports how many whole elements that is,
  moves the position by that much, and keeps the file's cluster cache right.\<close>

theorem fat16_read_reads:
  fixes s :: "(ata, 'z) fat_scheme"
  assumes "mounted disk b st dn (dev s) s" and "streams s st = Some \<lparr>pos = p, disk_id = dn\<rparr>"
    and "fat_files s fp = Some f" and "open_file_ok b (dev s) dn cs f"
    and "sz \<noteq> 0" and "unat (file_pos f) + unat sz * unat nmemb < 4294967296"
  defines "n \<equiv> min (unat sz * unat nmemb) (unat (filesize (desc_item f)) - unat (file_pos f))"
  shows "\<exists>d' p' g. fat16_read ata_io disk fp sz nmemb s
      = Some (sint (word_of_nat (n div unat sz) :: u32),
          map (file_byte b (dev s) dn cs) [unat (file_pos f)..<unat (file_pos f) + n],
          moved st dn d' p' (with_file fp g s))
    \<and> same_drives (dev s) d' \<and> open_file_ok b (dev s) dn cs g
    \<and> desc_item g = desc_item f \<and> unat (file_pos g) = unat (file_pos f) + n"
proof -
  have "drive_ready (dev s)" using assms(1) by (simp add: mounted_def)
  from fat16_read_spec [OF assms(1) same_drives_refl [OF this] assms(3-6), of p]
  show ?thesis unfolding moved_refl [OF assms(2)] readable_def n_def by blast
qed

theorem fat16_read_reads_witness:
  "\<exists>s'. fat16_read ata_io 0 0x20320 1 515 sample_mounted = Some (515, replicate 512 3 @ [4, 4, 4], s')"
proof -
  have "open_file_ok sample_bpb sample_drives 0 [2, 3] (fresh_file hello)"
    using sample_files(1) by (rule fresh_file_ok)
  moreover have "map (file_byte sample_bpb sample_drives 0 [2, 3]) [0..<515] = replicate 512 3 @ [4, 4, 4]"
    by (rule nth_equalityI) (auto simp: sample_hello_bytes nth_append nth_Cons')
  ultimately show ?thesis
    using fat16_read_reads [of 0 sample_bpb "0x20010" 0 sample_mounted 510 "0x20320" "fresh_file hello" "[2, 3]" 1 515]
    by (auto simp: fresh_file_def sample_hello)
qed

text \<open>C21: opening by path follows the names from the root: a path that leads to a file gives a new
  descriptor of that file, at its beginning, in a fresh block of the heap; a name that is missing, a
  part that is no directory, or a path that ends at a directory gives NULL and allocates nothing.\<close>

theorem fat16_open_walks:
  fixes s :: "(ata, 'z) fat_scheme"
  assumes "mounted disk b st dn (dev s) s" and "streams s st = Some \<lparr>pos = q, disk_id = dn\<rparr>"
    and "part_chain s p ts" and "ts \<noteq> []" and "walk b (dev s) dn 0 (part_names ts) r"
    and "heap_owns s L" and "unat (placement_address s) + 60 < 4294967296"
  shows "\<exists>d' q'. same_drives (dev s) d' \<and>
    (case r of
       Some it \<Rightarrow> if is_directory it then fat16_open ata_io disk p FILE_MODE_READ s = Some (0, moved st dn d' q' s)
         else \<exists>fp h. fat16_open ata_io disk p FILE_MODE_READ s
             = Some (fp, h\<lparr>fat_files := (fat_files s)(fp \<mapsto> fresh_file it)\<rparr>)
           \<and> fp \<noteq> 0 \<and> heap_only (moved st dn d' q' s) h \<and> heap_owns h (insert (fp, 44) L) \<and> fp \<notin> fst ` L
           \<and> keeps L (mem s) (mem h)
     | None \<Rightarrow> fat16_open ata_io disk p FILE_MODE_READ s = Some (0, moved st dn d' q' s))"
proof -
  have "drive_ready (dev s)" using assms(1) by (simp add: mounted_def)
  from fat16_open_spec [OF assms(1) same_drives_refl [OF this] assms(3-7), of q]
  show ?thesis unfolding moved_refl [OF assms(2)]
    by (elim exE) (rule exI, rule exI, auto split: option.splits if_splits)
qed

definition sample_at_path :: "ata fat" where
  "sample_at_path = sample_mounted\<lparr>
     path_parts := [0x21000 \<mapsto> \<lparr>part = 0x21010, part_next = 0x21200\<rparr>, 0x21200 \<mapsto> \<lparr>part = 0x21210, part_next = 0\<rparr>],
     names := [0x21010 \<mapsto> lit ''bin'', 0x21210 \<mapsto> lit ''sh.elf'']\<rparr>"

theorem fat16_open_walks_witness:
  "\<exists>fp h. fat16_open ata_io 0 0x21000 FILE_MODE_READ sample_at_path
    = Some (fp, h\<lparr>fat_files := (fat_files sample_at_path)(fp \<mapsto> fresh_file sh_elf)\<rparr>) \<and> fp \<noteq> 0"
proof -
  let ?ts = "[(0x21000, 0x21010, bytes_of ''bin''), (0x21200, 0x21210, bytes_of ''sh.elf'')]"
  have "part_chain sample_at_path 0x21000 ?ts" "mounted 0 sample_bpb 0x20010 0 sample_drives sample_at_path"
    "streams sample_at_path 0x20010 = Some \<lparr>pos = 510, disk_id = 0\<rparr>" "dev sample_at_path = sample_drives"
    "placement_address sample_at_path = 0x20000"
    using sample_is_mounted by (simp_all add: sample_at_path_def mounted_def private_of_def sample_mounted_def chars)
  moreover have "heap_owns sample_at_path {}" by (simp add: sample_at_path_def sample_mounted_def)
  ultimately show ?thesis
    using fat16_open_walks [of 0 sample_bpb "0x20010" 0 sample_at_path 510 "0x21000" ?ts "Some sh_elf" "{}"]
      sample_walks(2) sample_sh_elf(3) by auto
qed

text \<open>\<open>fat16_seek\<close> moves exactly to the targets from the start to the end of the file, in all
  three modes, and refuses every other target, before the start as well, leaving the position; so no
  sequence of seeks and reads takes the position past the end.\<close>

theorem fat16_seek_bounds:
  fixes whence :: FILE_SEEK_MODE
  assumes "fat_files s fp = Some f" and "file_pos f \<le> filesize (desc_item f)"
    and "unat (filesize (desc_item f)) < 2147483648" and "-2147483648 \<le> off" and "off < 2147483648"
  defines "target \<equiv> (case whence of FILE_SEEK_SET \<Rightarrow> off | FILE_SEEK_CUR \<Rightarrow> uint (file_pos f) + off
     | FILE_SEEK_END \<Rightarrow> uint (filesize (desc_item f)) + off)"
  shows "fat16_seek fp off whence s =
    (if 0 \<le> target \<and> target \<le> uint (filesize (desc_item f))
     then Some (0, s\<lparr>fat_files := (fat_files s)(fp \<mapsto> f\<lparr>file_pos := word_of_int target\<rparr>)\<rparr>) else Some (-1, s))"
  using fat16_seek_spec [OF assms(1-5), of whence] by (simp add: target_def seek_target_def)

theorem fat16_seek_bounds_witness:
  "fat16_seek 0x20320 (-100) FILE_SEEK_END sample_mounted
     = Some (0, sample_mounted\<lparr>fat_files := (fat_files sample_mounted)(0x20320 \<mapsto> (fresh_file hello)\<lparr>file_pos := 500\<rparr>)\<rparr>)
   \<and> fat16_seek 0x20320 (-1) FILE_SEEK_CUR sample_mounted = Some (-1, sample_mounted)"
  using fat16_seek_bounds [of sample_mounted "0x20320" "fresh_file hello" "-100" FILE_SEEK_END]
    fat16_seek_bounds [of sample_mounted "0x20320" "fresh_file hello" "-1" FILE_SEEK_CUR]
  by (simp add: fresh_file_def sample_hello)



section \<open>Chains that do not end\<close>

text \<open>One round of the search in a cluster without the name and without an end mark.\<close>

lemma subdirectory_round:
  assumes m: "mounted disk b st dn D s" and d: "same_drives D d" and name: "terminated name"
    and c: "cluster_ok b (drive_size D dn) c"
    and none: "fst (find_item (-3) 1 (str_of name) (items_at D dn (cluster_pos b c) (cluster_bytes b div 32))) = 1"
  shows "\<exists>d' p'. same_drives D d' \<and> (\<forall>f. (do {
        abs_sector \<leftarrow> fat16_cluster_to_sector disk c (moved st dn d p s);
        (_, s) \<leftarrow> diskstream_seek st (abs_sector * ucast (bytes_per_sector b)) (moved st dn d p s);
        (r, item, s) \<leftarrow> cluster_entries_loop ata_io st name (unat (cluster_size b div 32)) s;
        if r \<noteq> 1 then Some (r, item, s)
        else do {
          (current_cluster, s) \<leftarrow> fat16_get_fat_entry ata_io disk c s;
          f current_cluster s
        }
      }) = f (fat_next b D dn c) (moved st dn d' p' s))"
proof -
  have v: "volume_ok b (drive_size D dn)" using m by (simp add: mounted_def)
  have c16: "unat c < 65536" using c by (simp add: cluster_ok_def)
  let ?q = "cluster_to_sector b c * ucast (bytes_per_sector b) :: u32"
  have q: "unat ?q = cluster_pos b c" using v c by (rule cluster_sector_spec)
  note cb = cluster_bytes_spec [OF v]
  let ?n = "cluster_bytes b div 32"
  have n: "unat (cluster_size b div 32) = ?n" by (simp add: unat_div cb(1))
  have fit: "unat ?q + 32 * ?n \<le> drive_size D dn" using c cb(5) by (simp add: q cluster_ok_def)
  have "drive_size D dn < 4294967296" using v by (simp add: volume_ok_def)
  from entries_loop_spec [OF d fit this name, of "-2" "-3" 1 st s]
  obtain d1 p1 where e: "same_drives D d1" "cluster_entries_loop ata_io st name ?n (moved st dn d ?q s) =
     (let (r, it) = find_item (-3) 1 (str_of name) (items_at D dn (cluster_pos b c) ?n)
      in Some (r, it, moved st dn d1 p1 s))" unfolding q cluster_entries_loop_def by blast
  from get_fat_entry_spec [OF m e(1) c16, of p1] obtain d2 p2 where f: "same_drives D d2"
    "fat16_get_fat_entry ata_io disk c (moved st dn d1 p1 s) = Some (fat_next b D dn c, moved st dn d2 p2 s)" by blast
  have sec: "fat16_cluster_to_sector disk c (moved st dn d p s) = Some (cluster_to_sector b c)"
    using m v by (simp add: fat16_cluster_to_sector_def mounted_def volume_ok_def)
  show ?thesis
    using e f none sec n by (intro exI [of _ d2] exI [of _ p2]) (simp add: split_beta)
qed

lemma subdirectory_cyclic:
  fixes s0 :: "(ata, 'z) fat_scheme"
  assumes m: "mounted disk0 b st dn D s0" and name0: "terminated name0"
    and C: "\<And>x. x \<in> C \<Longrightarrow> cluster_ok b (drive_size D dn) x \<and> fat_next b D dn x \<in> C
      \<and> fst (find_item (-3) 1 (str_of name0) (items_at D dn (cluster_pos b x) (cluster_bytes b div 32))) = 1"
    and r: "subdirectory_loop io disk pr name c s = Some y"
  shows "\<not> (io = ata_io \<and> disk = disk0 \<and> pr = \<lparr>bpb = b, stream = st\<rparr> \<and> name = name0 \<and> c \<in> C
    \<and> (\<exists>d p. same_drives D d \<and> s = moved st dn d p s0))"
  using r
proof (induction rule: subdirectory_loop.raw_induct [rotated, consumes 1])
  case (1 subdirectory_loop io disk pr name c s y)
  show ?case
  proof
    assume A: "io = ata_io \<and> disk = disk0 \<and> pr = \<lparr>bpb = b, stream = st\<rparr> \<and> name = name0 \<and> c \<in> C
      \<and> (\<exists>d p. same_drives D d \<and> s = moved st dn d p s0)"
    then obtain d p where d: "same_drives D d" "s = moved st dn d p s0" by blast
    have eqs: "io = ata_io" "disk = disk0" "pr = \<lparr>bpb = b, stream = st\<rparr>" "name = name0" using A by blast+
    have c: "cluster_ok b (drive_size D dn) c" "fat_next b D dn c \<in> C"
      "fst (find_item (-3) 1 (str_of name0) (items_at D dn (cluster_pos b c) (cluster_bytes b div 32))) = 1"
      using C A by blast+
    from subdirectory_round [OF m d(1) name0 c(1,3), of p] obtain d' p' where z: "same_drives D d'"
      "\<And>f. (do {
        abs_sector \<leftarrow> fat16_cluster_to_sector disk0 c (moved st dn d p s0);
        (_, s) \<leftarrow> diskstream_seek st (abs_sector * ucast (bytes_per_sector b)) (moved st dn d p s0);
        (r, item, s) \<leftarrow> cluster_entries_loop ata_io st name0 (unat (cluster_size b div 32)) s;
        if r \<noteq> 1 then Some (r, item, s)
        else do {
          (current_cluster, s) \<leftarrow> fat16_get_fat_entry ata_io disk0 c s;
          f current_cluster s
        }
      }) = f (fat_next b D dn c) (moved st dn d' p' s0)" by blast
    have lt: "c < FAT16_CLUSTER_RESERVED_MIN"
      using c(1) by (simp add: cluster_ok_def word_less_nat_alt FAT16_CLUSTER_RESERVED_MIN_def)
    have "subdirectory_loop ata_io disk0 \<lparr>bpb = b, stream = st\<rparr> name0 (fat_next b D dn c) (moved st dn d' p' s0) = Some y"
      using 1(2) lt z(2) [of "subdirectory_loop ata_io disk0 \<lparr>bpb = b, stream = st\<rparr> name0"]
      unfolding eqs d(2) by simp
    from 1(1) [OF this] show False using c(2) z(1) by blast
  qed
qed

text \<open>C35: the search of a directory whose chain of clusters runs in a circle, none of them holding the
  name or an end mark, never returns: the code follows the table without a bound.\<close>

theorem get_directory_entry_cyclic:
  fixes s :: "(ata, 'z) fat_scheme"
  assumes m: "mounted disk b st dn (dev s) s" and st: "streams s st = Some \<lparr>pos = p, disk_id = dn\<rparr>"
    and name: "terminated name" and c: "c \<in> C" "c \<noteq> 0"
    and C: "\<And>x. x \<in> C \<Longrightarrow> cluster_ok b (drive_size (dev s) dn) x \<and> fat_next b (dev s) dn x \<in> C"
    and none: "\<And>x it. x \<in> C \<Longrightarrow> it \<in> set (items_at (dev s) dn (cluster_pos b x) (cluster_bytes b div 32)) \<Longrightarrow>
      filename it ! 0 \<noteq> 0 \<and> upcase (item_name it) \<noteq> upcase (str_of name)"
  shows "fat16_get_directory_entry ata_io disk c name s = None"
proof -
  have miss: "find_item (-3) 1 x its = (1, None)"
    if "\<forall>it \<in> set its. filename it ! 0 \<noteq> 0 \<and> upcase (item_name it) \<noteq> upcase x" for x its
    using that by (induction its) auto
  have C': "cluster_ok b (drive_size (dev s) dn) x \<and> fat_next b (dev s) dn x \<in> C
      \<and> fst (find_item (-3) 1 (str_of name) (items_at (dev s) dn (cluster_pos b x) (cluster_bytes b div 32))) = 1"
    if "x \<in> C" for x
    using C [OF that] none [OF that] miss by (metis fst_conv)
  have ready: "drive_ready (dev s)" using m by (simp add: mounted_def)
  have "subdirectory_loop ata_io disk \<lparr>bpb = b, stream = st\<rparr> name c s = None"
  proof (rule ccontr)
    assume "subdirectory_loop ata_io disk \<lparr>bpb = b, stream = st\<rparr> name c s \<noteq> None"
    then obtain y where "subdirectory_loop ata_io disk \<lparr>bpb = b, stream = st\<rparr> name c s = Some y" by blast
    from subdirectory_cyclic [OF m name C' this] show False
      using c(1) same_drives_refl [OF ready] moved_refl [OF st] by metis
  qed
  then show ?thesis using m c(2) by (simp add: fat16_get_directory_entry_def mounted_def)
qed

text \<open>A volume whose directory in cluster 4 is full of files \<open>AAAAAAAA.AAA\<close> and follows itself.\<close>

definition cyclic_drives :: ata where
  "cyclic_drives = drives_of (\<lambda>n. if n = 520 then 4 else if n = 521 then 0 else if 2560 \<le> n then 65 else sample_byte n)"

theorem get_directory_entry_cyclic_witness:
  "fat16_get_directory_entry ata_io 0 4 (lit ''sh.elf'') (sample_mounted\<lparr>dev := cyclic_drives\<rparr>) = None"
proof (rule get_directory_entry_cyclic)
  show "mounted 0 sample_bpb 0x20010 0 (dev (sample_mounted\<lparr>dev := cyclic_drives\<rparr>)) (sample_mounted\<lparr>dev := cyclic_drives\<rparr>)"
    by (simp add: mounted_def private_of_def sample_mounted_def rd_def cyclic_drives_def)
  show "streams (sample_mounted\<lparr>dev := cyclic_drives\<rparr>) 0x20010 = Some \<lparr>pos = 510, disk_id = 0\<rparr>" by simp
  show "terminated (lit ''sh.elf'')" by (simp add: chars)
  show "(4 :: u32) \<in> {4}" "(4 :: u32) \<noteq> 0" by simp_all
  fix x :: u32 assume "x \<in> {4}"
  then have x: "x = 4" by simp
  show "cluster_ok sample_bpb (drive_size (dev (sample_mounted\<lparr>dev := cyclic_drives\<rparr>)) 0) x
      \<and> fat_next sample_bpb (dev (sample_mounted\<lparr>dev := cyclic_drives\<rparr>)) 0 x \<in> {4}"
    by (simp add: x cluster_ok_def fat_next_def fat_pos_def le16_def cyclic_drives_def)
  fix it assume "it \<in> set (items_at (dev (sample_mounted\<lparr>dev := cyclic_drives\<rparr>)) 0 (cluster_pos sample_bpb x) (cluster_bytes sample_bpb div 32))"
  then obtain p where p: "it = item_at cyclic_drives 0 p" "2560 \<le> p" by (auto simp: items_at_def x)
  have a: "replicate 8 (65 :: u8) = [65, 65, 65, 65, 65, 65, 65, 65]" "replicate 3 (65 :: u8) = [65, 65, 65]"
    by (simp_all add: numeral_eq_Suc)
  have "filename it = replicate 8 65" by (rule nth_equalityI) (use p(2) in \<open>simp_all add: p(1) cyclic_drives_def item_at_fields\<close>)
  moreover have "ext it = replicate 3 65" by (rule nth_equalityI) (use p(2) in \<open>simp_all add: p(1) cyclic_drives_def item_at_fields\<close>)
  ultimately show "filename it ! 0 \<noteq> 0 \<and> upcase (item_name it) \<noteq> upcase (str_of (lit ''sh.elf''))"
    by (simp add: item_name_def trimmed_def chars toupper_def a)
qed

end
