(* ===== verification/Vfs.thy ===== *)
theory Vfs
  imports FatProps
begin

text \<open>
  The virtual file system, \<open>src/fs/file.c\<close>. A \<open>struct filesystem\<close> is a record of the functions
  behind its pointers, over the state \<open>'s\<close>; NULL pointers are \<open>None\<close>. The objects themselves are
  static data of the drivers: \<open>fss\<close> gives the one at an address. File descriptors are objects on
  the heap, in the store \<open>fds\<close>.
\<close>

section \<open>State\<close>

record 's filesystem =
  fs_name :: "u8 list"
  resolve :: "nat \<Rightarrow> 's \<Rightarrow> (int \<times> 's) option"
  fs_open :: "nat \<Rightarrow> u32 \<Rightarrow> FILE_MODE \<Rightarrow> 's \<Rightarrow> (u32 \<times> 's) option"
  fs_read :: "(nat \<Rightarrow> u32 \<Rightarrow> u32 \<Rightarrow> u32 \<Rightarrow> 's \<Rightarrow> (int \<times> u8 list \<times> 's) option) option"
  fs_seek :: "(u32 \<Rightarrow> int \<Rightarrow> FILE_SEEK_MODE \<Rightarrow> 's \<Rightarrow> (int \<times> 's) option) option"
  fs_tell :: "(u32 \<Rightarrow> 's \<Rightarrow> int option) option"
  fs_close :: "(u32 \<Rightarrow> 's \<Rightarrow> (int \<times> 's) option) option"
  fs_stat :: "(nat \<Rightarrow> u32 \<Rightarrow> 's \<Rightarrow> (int \<times> file_stat) option) option"
  fs_lister :: "(nat \<Rightarrow> u32 \<Rightarrow> 's \<Rightarrow> (int \<times> 's) option) option"

record file_descriptor =
  index :: int
  filesystem :: u32
  fd_private :: u32
  fd_disk :: nat

record 'd vfs = "'d fat" +
  filesystems :: "u32 list"
  file_descriptors :: "u32 list"
  fds :: "u32 \<Rightarrow> file_descriptor option"

definition MAX_FILESYSTEMS :: nat where "MAX_FILESYSTEMS = 12"
definition MAX_FILE_DESCRIPTORS :: nat where "MAX_FILE_DESCRIPTORS = 512"

text \<open>\<open>fat16_init_vfs\<close>: the driver's static object.\<close>

definition fat16_fs :: "'d port_io \<Rightarrow> ('d, 'z) fat_scheme filesystem" where
  "fat16_fs io = \<lparr>fs_name = lit ''FAT16'', resolve = fat16_resolve io, fs_open = fat16_open io,
     fs_read = Some (fat16_read io), fs_seek = Some fat16_seek, fs_tell = Some fat16_tell,
     fs_close = Some fat16_close, fs_stat = Some fat16_stat, fs_lister = Some (fat16_list io)\<rparr>"

section \<open>Tables\<close>

text \<open>The index of the first NULL of a table of pointers.\<close>

fun first_free :: "u32 list \<Rightarrow> nat option" where
  "first_free [] = None"
| "first_free (p # ps) = (if p = 0 then Some 0 else map_option Suc (first_free ps))"

definition fs_get_free_filesystem :: "('d, 'z) vfs_scheme \<Rightarrow> nat option" where
  "fs_get_free_filesystem s = first_free (filesystems s)"

definition fs_init :: "('d, 'z) vfs_scheme \<Rightarrow> ('d, 'z) vfs_scheme" where
  "fs_init s = s\<lparr>filesystems := replicate MAX_FILESYSTEMS 0,
     file_descriptors := replicate MAX_FILE_DESCRIPTORS 0,
     disks := map (\<lambda>i. \<lparr>disk_no = int i, fs_private = 0\<rparr>) [0..<2]\<rparr>"

definition fs_insert_filesystem :: "u32 \<Rightarrow> ('d, 'z) vfs_scheme \<Rightarrow> int \<times> ('d, 'z) vfs_scheme" where
  "fs_insert_filesystem fs s = (case fs_get_free_filesystem s of
     None \<Rightarrow> (-1, s)
   | Some i \<Rightarrow> (0, s\<lparr>filesystems := (filesystems s)[i := fs]\<rparr>))"

text \<open>The fields that \<open>fs_new_descriptor\<close> leaves unset are set by \<open>fopen\<close> before any use.\<close>

definition fs_new_descriptor :: "('d, 'z) vfs_scheme \<Rightarrow> (u32 \<times> ('d, 'z) vfs_scheme) option" where
  "fs_new_descriptor s = (case first_free (file_descriptors s) of
     None \<Rightarrow> Some (0, s)
   | Some i \<Rightarrow> do {
       (desc, s) \<leftarrow> kmalloc 16 s;
       Some (desc, s\<lparr>fds := (fds s)(desc \<mapsto> \<lparr>index = int i + 1, filesystem = 0, fd_private = 0, fd_disk = 0\<rparr>),
         file_descriptors := (file_descriptors s)[i := desc]\<rparr>)
     })"

definition fs_get_descriptor :: "int \<Rightarrow> ('d, 'z) vfs_scheme \<Rightarrow> u32 option" where
  "fs_get_descriptor fd s = (if fd \<le> 0 \<or> fd > int MAX_FILE_DESCRIPTORS then Some 0
     else rd (file_descriptors s) (nat (fd - 1)))"

text \<open>The loop of \<open>fs_resolve\<close> over \<open>filesystems[i]\<close>, \<open>n\<close> of them to go.\<close>

primrec resolve_loop ::
  "(u32 \<Rightarrow> ('d, 'z) vfs_scheme filesystem option) \<Rightarrow> nat \<Rightarrow> nat \<Rightarrow> ('d, 'z) vfs_scheme
    \<Rightarrow> (u32 \<times> ('d, 'z) vfs_scheme) option" where
  "resolve_loop fss disk 0 s = Some (0, s)"
| "resolve_loop fss disk (Suc n) s = do {
     fs \<leftarrow> rd (filesystems s) (MAX_FILESYSTEMS - Suc n);
     if fs \<noteq> 0 then do {
       f \<leftarrow> fss fs;
       (r, s) \<leftarrow> resolve f disk s;
       if r = 0 then do { fs \<leftarrow> rd (filesystems s) (MAX_FILESYSTEMS - Suc n); Some (fs, s) }
       else resolve_loop fss disk n s
     } else resolve_loop fss disk n s
   }"

definition fs_resolve ::
  "(u32 \<Rightarrow> ('d, 'z) vfs_scheme filesystem option) \<Rightarrow> nat \<Rightarrow> ('d, 'z) vfs_scheme
    \<Rightarrow> (u32 \<times> ('d, 'z) vfs_scheme) option" where
  "fs_resolve fss disk s = resolve_loop fss disk MAX_FILESYSTEMS s"

definition fs_parse_mode :: "u8 list \<Rightarrow> FILE_MODE option" where
  "fs_parse_mode str = do {
     r \<leftarrow> strncmp str (lit ''r'') 1;
     if r = 0 then Some FILE_MODE_READ
     else do {
       w \<leftarrow> strncmp str (lit ''w'') 1;
       if w = 0 then Some FILE_MODE_WRITE
       else do {
         a \<leftarrow> strncmp str (lit ''a'') 1;
         if a = 0 then Some FILE_MODE_APPEND else Some FILE_MODE_INVALID
       }
     }
   }"

section \<open>Operations\<close>

text \<open>\<open>fopen\<close> between the parse of the path and the label \<open>out\<close>.\<close>

definition fopen_path ::
  "(u32 \<Rightarrow> ('d, 'z) vfs_scheme filesystem option) \<Rightarrow> u32 \<Rightarrow> u8 list \<Rightarrow> ('d, 'z) vfs_scheme
    \<Rightarrow> (int \<times> ('d, 'z) vfs_scheme) option" where
  "fopen_path fss root_path mode_str s = do {
     root \<leftarrow> path_roots s root_path;
     if first root = 0 then Some (-2, s)
     else if drive_no root < 0 \<or> drive_no root > 1 then Some (-3, s)
     else do {
       let disk = nat (drive_no root);
       (fs, s) \<leftarrow> fs_resolve fss disk s;
       if fs = 0 then Some (-4, s)
       else do {
         mode \<leftarrow> fs_parse_mode mode_str;
         if mode = FILE_MODE_INVALID then Some (-5, s)
         else do {
           f \<leftarrow> fss fs;
           root \<leftarrow> path_roots s root_path;
           (priv, s) \<leftarrow> fs_open f disk (first root) mode s;
           if priv = 0 then Some (-6, s)
           else do {
             (desc, s) \<leftarrow> fs_new_descriptor s;
             if desc = 0 then Some (-7, s)
             else do {
               d \<leftarrow> fds s desc;
               Some (index d, s\<lparr>fds := (fds s)(desc \<mapsto> d\<lparr>filesystem := fs, fd_private := priv, fd_disk := disk\<rparr>)\<rparr>)
             }
           }
         }
       }
     }
   }"

definition fopen ::
  "(u32 \<Rightarrow> ('d, 'z) vfs_scheme filesystem option) \<Rightarrow> u8 list \<Rightarrow> u8 list \<Rightarrow> ('d, 'z) vfs_scheme
    \<Rightarrow> (int \<times> ('d, 'z) vfs_scheme) option" where
  "fopen fss path mode_str s = do {
     (root_path, s) \<leftarrow> path_parser_parse path s;
     if root_path = 0 then Some (-1, s)
     else do {
       (res, s) \<leftarrow> fopen_path fss root_path mode_str s;
       s \<leftarrow> path_parser_free root_path s;
       Some (res, s)
     }
   }"

text \<open>\<open>with_descriptor\<close>: the lookup and the NULL test that the operations on descriptors start with.\<close>

definition with_descriptor ::
  "(u32 \<Rightarrow> ('d, 'z) vfs_scheme filesystem option) \<Rightarrow> int \<Rightarrow> (('d, 'z) vfs_scheme filesystem \<Rightarrow> 'f option)
    \<Rightarrow> 'r \<Rightarrow> (u32 \<Rightarrow> file_descriptor \<Rightarrow> 'f \<Rightarrow> 'r option) \<Rightarrow> ('d, 'z) vfs_scheme \<Rightarrow> 'r option" where
  "with_descriptor fss fd op err f s = do {
     desc \<leftarrow> fs_get_descriptor fd s;
     if desc = 0 then Some err
     else do {
       d \<leftarrow> fds s desc;
       fs \<leftarrow> fss (filesystem d);
       case op fs of None \<Rightarrow> Some err | Some g \<Rightarrow> f desc d g
     }
   }"

definition fread ::
  "(u32 \<Rightarrow> ('d, 'z) vfs_scheme filesystem option) \<Rightarrow> u32 \<Rightarrow> u32 \<Rightarrow> int \<Rightarrow> ('d, 'z) vfs_scheme
    \<Rightarrow> (int \<times> u8 list \<times> ('d, 'z) vfs_scheme) option" where
  "fread fss sz nmemb fd s =
     with_descriptor fss fd fs_read (-1, [], s) (\<lambda>desc d g. g (fd_disk d) (fd_private d) sz nmemb s) s"

definition fseek ::
  "(u32 \<Rightarrow> ('d, 'z) vfs_scheme filesystem option) \<Rightarrow> int \<Rightarrow> int \<Rightarrow> FILE_SEEK_MODE \<Rightarrow> ('d, 'z) vfs_scheme
    \<Rightarrow> (int \<times> ('d, 'z) vfs_scheme) option" where
  "fseek fss fd offset whence s =
     with_descriptor fss fd fs_seek (-1, s) (\<lambda>desc d g. g (fd_private d) offset whence s) s"

definition ftell ::
  "(u32 \<Rightarrow> ('d, 'z) vfs_scheme filesystem option) \<Rightarrow> int \<Rightarrow> ('d, 'z) vfs_scheme \<Rightarrow> int option" where
  "ftell fss fd s = with_descriptor fss fd fs_tell (-1) (\<lambda>desc d g. g (fd_private d) s) s"

text \<open>The contents of \<open>*stat\<close> stay as they are, here \<open>None\<close>, when \<open>fstat\<close> fails early.\<close>

definition fstat ::
  "(u32 \<Rightarrow> ('d, 'z) vfs_scheme filesystem option) \<Rightarrow> int \<Rightarrow> ('d, 'z) vfs_scheme \<Rightarrow> (int \<times> file_stat option) option" where
  "fstat fss fd s = with_descriptor fss fd fs_stat (-1, None)
     (\<lambda>desc d g. do { (r, st) \<leftarrow> g (fd_disk d) (fd_private d) s; Some (r, Some st) }) s"

definition fclose ::
  "(u32 \<Rightarrow> ('d, 'z) vfs_scheme filesystem option) \<Rightarrow> int \<Rightarrow> ('d, 'z) vfs_scheme
    \<Rightarrow> (int \<times> ('d, 'z) vfs_scheme) option" where
  "fclose fss fd s = with_descriptor fss fd fs_close (-1, s) (\<lambda>desc d g. do {
     (res, s) \<leftarrow> g (fd_private d) s;
     if res = 0 then do {
       d \<leftarrow> fds s desc;
       table \<leftarrow> wr (file_descriptors s) (nat (index d - 1)) 0;
       Some (res, (kfree desc s)\<lparr>file_descriptors := table, fds := (fds s)(desc := None)\<rparr>)
     } else Some (res, s)
   }) s"

definition fs_list ::
  "(u32 \<Rightarrow> ('d, 'z) vfs_scheme filesystem option) \<Rightarrow> u8 list \<Rightarrow> ('d, 'z) vfs_scheme
    \<Rightarrow> (int \<times> ('d, 'z) vfs_scheme) option" where
  "fs_list fss path s = do {
     (root_path, s) \<leftarrow> path_parser_parse path s;
     if root_path = 0 then Some (-1, s)
     else do {
       root \<leftarrow> path_roots s root_path;
       if drive_no root < 0 \<or> drive_no root > 1 then do {
         s \<leftarrow> path_parser_free root_path s;
         Some (-2, s)
       } else do {
         let disk = nat (drive_no root);
         (fs, s) \<leftarrow> fs_resolve fss disk s;
         f \<leftarrow> (if fs = 0 then Some None else do { f \<leftarrow> fss fs; Some (fs_lister f) });
         case f of None \<Rightarrow> do { s \<leftarrow> path_parser_free root_path s; Some (-3, s) }
         | Some g \<Rightarrow> do {
             root \<leftarrow> path_roots s root_path;
             (res, s) \<leftarrow> g disk (first root) s;
             s \<leftarrow> path_parser_free root_path s;
             Some (res, s)
           }
       }
     }
   }"

end
