(* ===== verification/FileDriver.thy ===== *)
theory FileDriver
  imports Vfs
begin

text \<open>
  What the virtual file system needs of a driver, as the locale \<open>file_driver\<close>: that its functions
  on an open file implement a sequence of bytes with a position. Proved in the locale: through a
  descriptor, any sequence of \<open>fread\<close>, \<open>fseek\<close> and \<open>ftell\<close> behaves as on that abstract
  file. The FAT16 driver is an interpretation.
\<close>

section \<open>The abstract file\<close>

datatype file_op = Read u32 u32 | Seek int FILE_SEEK_MODE | Tell

datatype file_result = Got int "u8 list" | Code int

definition legal_op :: "file_op \<Rightarrow> bool" where
  "legal_op op = (case op of
     Read sz n \<Rightarrow> sz \<noteq> 0 \<and> unat sz * unat n \<le> 2147483648
   | Seek off whence \<Rightarrow> -2147483648 \<le> off \<and> off < 2147483648
   | Tell \<Rightarrow> True)"

definition abs_seek :: "u8 list \<Rightarrow> nat \<Rightarrow> int \<Rightarrow> FILE_SEEK_MODE \<Rightarrow> int" where
  "abs_seek xs i off whence = (case whence of FILE_SEEK_SET \<Rightarrow> off
     | FILE_SEEK_CUR \<Rightarrow> int i + off | FILE_SEEK_END \<Rightarrow> int (length xs) + off)"

definition abs_step :: "u8 list \<Rightarrow> nat \<Rightarrow> file_op \<Rightarrow> file_result \<times> nat" where
  "abs_step xs i op = (case op of
     Read sz n \<Rightarrow> (let m = min (unat sz * unat n) (length xs - i)
       in (Got (int (m div unat sz)) (take m (drop i xs)), i + m))
   | Seek off whence \<Rightarrow> (let t = abs_seek xs i off whence
       in if 0 \<le> t \<and> t \<le> int (length xs) then (Code 0, nat t) else (Code (-1), i))
   | Tell \<Rightarrow> (Code (int i), i))"

fun abs_run :: "u8 list \<Rightarrow> nat \<Rightarrow> file_op list \<Rightarrow> file_result list \<times> nat" where
  "abs_run xs i [] = ([], i)"
| "abs_run xs i (op # ops) = (let (r, i) = abs_step xs i op; (rs, i) = abs_run xs i ops in (r # rs, i))"

text \<open>The same operations through a descriptor.\<close>

definition fd_step ::
  "(u32 \<Rightarrow> ('d, 'z) vfs_scheme filesystem option) \<Rightarrow> int \<Rightarrow> file_op \<Rightarrow> ('d, 'z) vfs_scheme
    \<Rightarrow> (file_result \<times> ('d, 'z) vfs_scheme) option" where
  "fd_step fss fd op s = (case op of
     Read sz n \<Rightarrow> do { (r, bs, s) \<leftarrow> fread fss sz n fd s; Some (Got r bs, s) }
   | Seek off whence \<Rightarrow> do { (r, s) \<leftarrow> fseek fss fd off whence s; Some (Code r, s) }
   | Tell \<Rightarrow> do { r \<leftarrow> ftell fss fd s; Some (Code r, s) })"

fun fd_run ::
  "(u32 \<Rightarrow> ('d, 'z) vfs_scheme filesystem option) \<Rightarrow> int \<Rightarrow> file_op list \<Rightarrow> ('d, 'z) vfs_scheme
    \<Rightarrow> (file_result list \<times> ('d, 'z) vfs_scheme) option" where
  "fd_run fss fd [] s = Some ([], s)"
| "fd_run fss fd (op # ops) s = do {
     (r, s) \<leftarrow> fd_step fss fd op s;
     (rs, s) \<leftarrow> fd_run fss fd ops s;
     Some (r # rs, s)
   }"

definition same_tables :: "('d, 'z) vfs_scheme \<Rightarrow> ('d, 'z) vfs_scheme \<Rightarrow> bool" where
  "same_tables s s' \<longleftrightarrow> filesystems s' = filesystems s \<and> file_descriptors s' = file_descriptors s \<and> fds s' = fds s"

lemma same_tables_refl [simp]: "same_tables s s"
  by (simp add: same_tables_def)

lemma same_tables_trans: "same_tables s s' \<Longrightarrow> same_tables s' s'' \<Longrightarrow> same_tables s s''"
  by (simp add: same_tables_def)

text \<open>What reading a file may change: the registers of the drive's controller, the streams and the open files.\<close>

definition file_io :: "('d, 'z) vfs_scheme \<Rightarrow> ('d, 'z) vfs_scheme \<Rightarrow> bool" where
  "file_io s s' \<longleftrightarrow> s' = s\<lparr>dev := dev s', streams := streams s', fat_files := fat_files s'\<rparr>"

lemma file_io_refl [simp]: "file_io s s"
  by (simp add: file_io_def)

lemma file_io_trans: "file_io s s' \<Longrightarrow> file_io s' s'' \<Longrightarrow> file_io s s''"
  unfolding file_io_def by (erule ssubst [of s'']) (erule ssubst [of s' _ "\<lambda>z. _ z = _ z"] | simp)+

lemma file_io_tables:
  fixes s :: "('d, 'z) vfs_scheme"
  assumes "file_io s s'"
  shows "same_tables s s'"
proof -
  have e: "s' = s\<lparr>dev := dev s', streams := streams s', fat_files := fat_files s'\<rparr>" using assms by (simp add: file_io_def)
  show ?thesis unfolding same_tables_def by (subst e, subst e, subst e) simp
qed

text \<open>An open descriptor \<open>fd\<close> whose object is \<open>d\<close>.\<close>

definition open_fd :: "('d, 'z) vfs_scheme \<Rightarrow> int \<Rightarrow> file_descriptor \<Rightarrow> bool" where
  "open_fd s fd d \<longleftrightarrow> (\<exists>desc. fs_get_descriptor fd s = Some desc \<and> desc \<noteq> 0 \<and> fds s desc = Some d)"

lemma open_fd_same: "same_tables s s' \<Longrightarrow> open_fd s' fd d \<longleftrightarrow> open_fd s fd d"
  by (simp add: open_fd_def same_tables_def fs_get_descriptor_def)

section \<open>The interface\<close>

locale file_driver =
  fixes F :: "('d, 'z) vfs_scheme filesystem"
    and rdf :: "nat \<Rightarrow> u32 \<Rightarrow> u32 \<Rightarrow> u32 \<Rightarrow> ('d, 'z) vfs_scheme \<Rightarrow> (int \<times> u8 list \<times> ('d, 'z) vfs_scheme) option"
    and skf :: "u32 \<Rightarrow> int \<Rightarrow> FILE_SEEK_MODE \<Rightarrow> ('d, 'z) vfs_scheme \<Rightarrow> (int \<times> ('d, 'z) vfs_scheme) option"
    and tlf :: "u32 \<Rightarrow> ('d, 'z) vfs_scheme \<Rightarrow> int option"
    and is_file :: "('d, 'z) vfs_scheme \<Rightarrow> nat \<Rightarrow> u32 \<Rightarrow> u8 list \<Rightarrow> nat \<Rightarrow> bool"
  assumes pointers: "fs_read F = Some rdf" "fs_seek F = Some skf" "fs_tell F = Some tlf"
    and bounds: "is_file s disk p xs i \<Longrightarrow> i \<le> length xs \<and> length xs < 2147483648"
    and reads: "is_file s disk p xs i \<Longrightarrow> legal_op (Read sz n) \<Longrightarrow> m = min (unat sz * unat n) (length xs - i) \<Longrightarrow>
      \<exists>s'. rdf disk p sz n s = Some (int (m div unat sz), take m (drop i xs), s')
        \<and> is_file s' disk p xs (i + m) \<and> file_io s s'"
    and seeks: "is_file s disk p xs i \<Longrightarrow> legal_op (Seek off whence) \<Longrightarrow> t = abs_seek xs i off whence \<Longrightarrow>
      if 0 \<le> t \<and> t \<le> int (length xs) then \<exists>s'. skf p off whence s = Some (0, s') \<and> is_file s' disk p xs (nat t) \<and> file_io s s'
      else skf p off whence s = Some (-1, s)"
    and tells: "is_file s disk p xs i \<Longrightarrow> tlf p s = Some (int i)"
begin

lemma step_refines:
  assumes "open_fd s fd d" "fss (filesystem d) = Some F" "is_file s (fd_disk d) (fd_private d) xs i" "legal_op op"
  shows "\<exists>s'. fd_step fss fd op s = Some (fst (abs_step xs i op), s')
    \<and> is_file s' (fd_disk d) (fd_private d) xs (snd (abs_step xs i op)) \<and> file_io s s'"
proof (cases op)
  case (Read sz n)
  then have "legal_op (Read sz n)" using assms(4) by simp
  from reads [OF assms(3) this refl] show ?thesis
    using assms(1,2) pointers Read
    by (auto simp: fd_step_def fread_def with_descriptor_def open_fd_def abs_step_def Let_def)
next
  case (Seek off whence)
  then have "legal_op (Seek off whence)" using assms(4) by simp
  from seeks [OF assms(3) this refl] show ?thesis
    using assms pointers Seek
    by (auto simp: fd_step_def fseek_def with_descriptor_def open_fd_def abs_step_def Let_def split: if_splits)
next
  case Tell
  then show ?thesis
    using assms tells [OF assms(3)] pointers
    by (auto simp: fd_step_def ftell_def with_descriptor_def open_fd_def abs_step_def)
qed

lemma run_refines:
  assumes "open_fd s fd d" "fss (filesystem d) = Some F" "is_file s (fd_disk d) (fd_private d) xs i"
    and "list_all legal_op ops"
  shows "\<exists>s'. fd_run fss fd ops s = Some (fst (abs_run xs i ops), s')
    \<and> is_file s' (fd_disk d) (fd_private d) xs (snd (abs_run xs i ops)) \<and> file_io s s'"
  using assms
proof (induction ops arbitrary: s i)
  case (Cons op ops)
  obtain s1 where s1: "fd_step fss fd op s = Some (fst (abs_step xs i op), s1)"
    "is_file s1 (fd_disk d) (fd_private d) xs (snd (abs_step xs i op))" "file_io s s1"
    using step_refines [of s fd d fss xs i op] Cons.prems by auto
  have "open_fd s1 fd d" using Cons.prems(1) open_fd_same [OF file_io_tables [OF s1(3)]] by simp
  from Cons.IH [OF this Cons.prems(2) s1(2)] Cons.prems(4)
  obtain s2 where s2: "fd_run fss fd ops s1 = Some (fst (abs_run xs (snd (abs_step xs i op)) ops), s2)"
    "is_file s2 (fd_disk d) (fd_private d) xs (snd (abs_run xs (snd (abs_step xs i op)) ops))" "file_io s1 s2"
    by auto
  show ?case
    using s1 s2 file_io_trans [OF s1(3) s2(3)] by (intro exI [of _ s2]) (simp add: split_beta Let_def)
qed simp

end

section \<open>FAT16 is such a driver\<close>

lemma mounted_same: "same_drives D d \<Longrightarrow> mounted disk b st dn D s \<Longrightarrow> mounted disk b st dn d s"
  by (simp add: mounted_def drive_size_same same_drives_sym_ready)

lemma fat_next_same: "same_drives D d \<Longrightarrow> fat_next b d dn c = fat_next b D dn c"
  by (simp add: fat_next_def bytes_at_same)

lemma fat_chain_same: "same_drives D d \<Longrightarrow> fat_chain b d dn c cs \<longleftrightarrow> fat_chain b D dn c cs"
  by (induction b D dn c cs rule: fat_chain.induct) (simp_all add: fat_next_same drive_size_same)

lemma open_file_same: "same_drives D d \<Longrightarrow> open_file_ok b d dn cs f \<longleftrightarrow> open_file_ok b D dn cs f"
  by (simp add: open_file_ok_def file_ok_def fat_chain_same)

lemma file_byte_same: "same_drives D d \<Longrightarrow> file_byte b d dn cs = file_byte b D dn cs"
  by (simp add: fun_eq_iff file_byte_def same_drivesD)

definition fat_contents :: "fat_boot_sector \<Rightarrow> ata \<Rightarrow> int \<Rightarrow> u32 list \<Rightarrow> fat_directory_item \<Rightarrow> u8 list" where
  "fat_contents b d dn cs it = map (file_byte b d dn cs) [0..<unat (filesize it)]"

text \<open>An open file of a mounted volume, with its contents and position.\<close>

definition fat_is_file :: "(ata, 'z) fat_scheme \<Rightarrow> nat \<Rightarrow> u32 \<Rightarrow> u8 list \<Rightarrow> nat \<Rightarrow> bool" where
  "fat_is_file s disk fp xs i \<longleftrightarrow> (\<exists>b st dn p cs f. mounted disk b st dn (dev s) s
     \<and> streams s st = Some \<lparr>pos = p, disk_id = dn\<rparr> \<and> fat_files s fp = Some f \<and> open_file_ok b (dev s) dn cs f
     \<and> unat (filesize (desc_item f)) < 2147483648
     \<and> xs = fat_contents b (dev s) dn cs (desc_item f) \<and> i = unat (file_pos f))"

lemma map_upt_take: "m \<le> n - i \<Longrightarrow> map f [i..<i + m] = take m (drop i (map f [0..<n]))"
  by (cases "m = 0") (simp_all add: take_map drop_map take_upt)

lemma uint_small: "unat (w :: u32) < 2147483648 \<Longrightarrow> uint w < 2147483648"
  unfolding uint_nat by linarith

lemma sint_small: "unat (w :: u32) < 2147483648 \<Longrightarrow> sint w = int (unat w)"
proof -
  assume "unat w < 2147483648"
  then have "uint w < 2147483648" by (rule uint_small)
  moreover have "-(2 ^ 31) \<le> uint w" by (rule order_trans [of _ 0]) simp_all
  ultimately show ?thesis by (simp add: sint_uint signed_take_bit_int_eq_self)
qed

lemma fat_file_reads:
  fixes s :: "(ata, 'z) vfs_scheme"
  assumes isf: "fat_is_file s disk fp xs i" and op: "legal_op (Read sz n)"
    and m: "m = min (unat sz * unat n) (length xs - i)"
  shows "\<exists>s'. fat16_read ata_io disk fp sz n s = Some (int (m div unat sz), take m (drop i xs), s')
    \<and> fat_is_file s' disk fp xs (i + m) \<and> file_io s s'"
proof -
  obtain b st dn p cs f where f: "mounted disk b st dn (dev s) s" "streams s st = Some \<lparr>pos = p, disk_id = dn\<rparr>"
    "fat_files s fp = Some f" "open_file_ok b (dev s) dn cs f" "unat (filesize (desc_item f)) < 2147483648"
    "xs = fat_contents b (dev s) dn cs (desc_item f)" "i = unat (file_pos f)"
    using isf unfolding fat_is_file_def by blast
  have ready: "drive_ready (dev s)" using f(1) by (simp add: mounted_def)
  have len: "length xs = unat (filesize (desc_item f))" by (simp add: f(6) fat_contents_def)
  have le: "unat (file_pos f) \<le> unat (filesize (desc_item f))"
    using f(4) by (simp add: open_file_ok_def word_le_nat_alt)
  have sz: "sz \<noteq> 0" "unat sz * unat n \<le> 2147483648" using op by (simp_all add: legal_op_def)
  have "unat (file_pos f) + unat sz * unat n < 4294967296" using sz(2) le f(5) by linarith
  from fat16_read_spec [OF f(1) same_drives_refl [OF ready] f(3,4) sz(1) this, of p]
  obtain d' p' g where g: "same_drives (dev s) d'" "open_file_ok b (dev s) dn cs g" "desc_item g = desc_item f"
    "unat (file_pos g) = unat (file_pos f) + readable f (unat sz * unat n)"
    "fat16_read ata_io disk fp sz n s = Some (sint (word_of_nat (readable f (unat sz * unat n) div unat sz) :: u32),
       map (file_byte b (dev s) dn cs) [unat (file_pos f)..<unat (file_pos f) + readable f (unat sz * unat n)],
       moved st dn d' p' (with_file fp g s))"
    unfolding moved_refl [OF f(2)] by blast
  have r: "readable f (unat sz * unat n) = m" by (simp add: readable_def m len f(7))
  have mb: "m < 2147483648" using m len f(5) by linarith
  have "sint (word_of_nat (m div unat sz) :: u32) = int (m div unat sz)"
  proof -
    have "m div unat sz < 2147483648" by (rule le_less_trans [OF div_le_dividend mb])
    then show ?thesis by (simp add: sint_uint uint_nat unat_of_nat signed_take_bit_int_eq_self)
  qed
  moreover have "map (file_byte b (dev s) dn cs) [i..<i + m] = take m (drop i xs)"
    unfolding f(6) fat_contents_def by (rule map_upt_take) (simp add: m len)
  moreover have "fat_is_file (moved st dn d' p' (with_file fp g s)) disk fp xs (i + m)"
    unfolding fat_is_file_def
    using f g r mounted_same [OF g(1) f(1)]
    by (intro exI [of _ b] exI [of _ st] exI [of _ dn] exI [of _ p'] exI [of _ cs] exI [of _ g])
      (simp add: open_file_same [OF g(1)] file_byte_same [OF g(1)] fat_contents_def)
  moreover have "file_io s (moved st dn d' p' (with_file fp g s))"
    by (simp add: file_io_def moved_def)
  ultimately show ?thesis using g(5) f(7) r by auto
qed

lemma fat_file_seeks:
  fixes s :: "(ata, 'z) vfs_scheme"
  assumes isf: "fat_is_file s disk fp xs i" and op: "legal_op (Seek off whence)"
    and t: "t = abs_seek xs i off whence"
  shows "if 0 \<le> t \<and> t \<le> int (length xs)
    then \<exists>s'. fat16_seek fp off whence s = Some (0, s') \<and> fat_is_file s' disk fp xs (nat t) \<and> file_io s s'
    else fat16_seek fp off whence s = Some (-1, s)"
proof -
  obtain b st dn p cs f where f: "mounted disk b st dn (dev s) s" "streams s st = Some \<lparr>pos = p, disk_id = dn\<rparr>"
    "fat_files s fp = Some f" "open_file_ok b (dev s) dn cs f" "unat (filesize (desc_item f)) < 2147483648"
    "xs = fat_contents b (dev s) dn cs (desc_item f)" "i = unat (file_pos f)"
    using isf unfolding fat_is_file_def by blast
  have len: "int (length xs) = uint (filesize (desc_item f))" by (simp add: f(6) fat_contents_def)
  have tt: "t = seek_target f off whence"
    using t f(7) len by (cases whence) (simp_all add: abs_seek_def seek_target_def)
  have le: "file_pos f \<le> filesize (desc_item f)" using f(4) by (simp add: open_file_ok_def)
  have off: "-2147483648 \<le> off" "off < 2147483648" using op by (simp_all add: legal_op_def)
  note sk = fat16_seek_spec [OF f(3) le f(5) off, of whence, folded tt]
  show ?thesis
  proof (cases "0 \<le> t \<and> t \<le> int (length xs)")
    case True
    let ?g = "f\<lparr>file_pos := word_of_int t\<rparr>"
    have "t < 4294967296" using True uint_small [OF f(5)] len by linarith
    then have u: "uint (word_of_int t :: u32) = t" using True by (simp add: uint_word_of_int)
    then have "unat (word_of_int t :: u32) = nat t" by (simp add: unat_eq_nat_uint)
    moreover have "open_file_ok b (dev s) dn cs ?g"
      using f(4) True len u by (simp add: open_file_ok_def cached_at_def word_le_def)
    ultimately have "fat_is_file (with_file fp ?g s) disk fp xs (nat t)"
      unfolding fat_is_file_def using f
      by (intro exI [of _ b] exI [of _ st] exI [of _ dn] exI [of _ p] exI [of _ cs] exI [of _ ?g]) simp
    moreover have "file_io s (with_file fp ?g s)" by (simp add: file_io_def)
    ultimately show ?thesis using True sk len by auto
  next
    case False
    then show ?thesis using sk len by auto
  qed
qed

interpretation fat_file: file_driver "fat16_fs ata_io" "fat16_read ata_io" fat16_seek fat16_tell fat_is_file
proof unfold_locales
  fix s :: "(ata, 'z) vfs_scheme" and disk fp xs i
  assume "fat_is_file s disk fp xs i"
  then obtain b st dn p cs f where f: "fat_files s fp = Some f" "open_file_ok b (dev s) dn cs f"
    "unat (filesize (desc_item f)) < 2147483648" "xs = fat_contents b (dev s) dn cs (desc_item f)" "i = unat (file_pos f)"
    unfolding fat_is_file_def by blast
  have le: "i \<le> unat (filesize (desc_item f))" using f(2,5) by (simp add: open_file_ok_def word_le_nat_alt)
  then show "i \<le> length xs \<and> length xs < 2147483648" using f by (simp add: fat_contents_def)
  have "i < 2147483648" using le f(3) by simp
  then show "fat16_tell fp s = Some (int i)"
    using f(1,5) by (simp add: fat16_tell_def sint_small)
qed (auto simp: fat16_fs_def intro: fat_file_reads dest: fat_file_seeks)

end
