(* ===== verification/VfsOpen.thy ===== *)
theory VfsOpen
  imports FileDriver
begin

text \<open>
  \<open>fopen\<close> and \<open>fclose\<close> on a kernel with the FAT16 driver, through all layers: the path parser,
  the mount of the volume, the walk of the directories, the descriptor table and the heap.
\<close>

section \<open>Tables\<close>

lemma first_free_Some: "first_free ps = Some i \<longleftrightarrow> i < length ps \<and> ps ! i = 0 \<and> (\<forall>j<i. ps ! j \<noteq> 0)"
proof (induction ps arbitrary: i)
  case (Cons p ps)
  show ?case
  proof (cases i)
    case 0
    then show ?thesis by simp
  next
    case (Suc k)
    have "(\<forall>j<Suc k. (p # ps) ! j \<noteq> 0) \<longleftrightarrow> p \<noteq> 0 \<and> (\<forall>j<k. ps ! j \<noteq> 0)"
      by (metis less_Suc_eq_0_disj nth_Cons_0 nth_Cons_Suc)
    then show ?thesis using Cons.IH [of k] Suc by auto
  qed
qed simp

lemma first_free_None: "first_free ps = None \<longleftrightarrow> 0 \<notin> set ps"
  by (induction ps) auto

text \<open>The file system and everything below it leave the tables of this layer alone.\<close>

lemma fat_only_tables:
  fixes s :: "('d, 'z) vfs_scheme"
  assumes "fat_only s s'"
  shows "same_tables s s'"
proof -
  have "same_tables s (fat_copy s' s)" by (simp add: same_tables_def fat_copy_def)
  then show ?thesis using assms by (simp add: fat_only_def)
qed

lemma fat_only_more:
  fixes s :: "('d, 'z) vfs_scheme"
  shows "fat_only s s' \<Longrightarrow> vfs.more s' = vfs.more s"
  unfolding fat_only_def by (erule ssubst) (simp add: fat_copy_def)

lemma fat_frame_more: "fat_frame A L s s' \<Longrightarrow> vfs.more s' = vfs.more s"
  for s :: "(ata, 'z) vfs_scheme"
  by (simp add: fat_frame_def fat_only_more)

lemma heap_only_more:
  fixes s :: "('d, 'z) vfs_scheme"
  shows "heap_only s s' \<Longrightarrow> vfs.more s' = vfs.more s"
  unfolding heap_only_def by (erule ssubst) simp

lemma fat_frame_tables: "fat_frame A L s s' \<Longrightarrow> same_tables s s'"
  for s :: "(ata, 'z) vfs_scheme"
  by (simp add: fat_frame_def fat_only_tables)

lemma resolve_loop_empty:
  assumes "n \<le> 12" "length (filesystems s) = 12" "\<forall>i. 12 - n \<le> i \<longrightarrow> i < 12 \<longrightarrow> filesystems s ! i = 0"
  shows "resolve_loop fss disk n s = Some (0, s)"
  using assms
proof (induction n)
  case (Suc n)
  have "filesystems s ! (12 - Suc n) = 0" using Suc.prems by simp
  moreover have "12 - Suc n < length (filesystems s)" using Suc.prems by simp
  ultimately show ?case using Suc by (simp add: MAX_FILESYSTEMS_def rd_def)
qed simp

text \<open>A kernel on which FAT16 at \<open>fa\<close> is the one file system registered.\<close>

definition fat_registered ::
  "(u32 \<Rightarrow> (ata, 'z) vfs_scheme filesystem option) \<Rightarrow> u32 \<Rightarrow> (ata, 'z) vfs_scheme \<Rightarrow> bool" where
  "fat_registered fss fa s \<longleftrightarrow> fa \<noteq> 0 \<and> fss fa = Some (fat16_fs ata_io) \<and> filesystems s = fa # replicate 11 0"

lemma fs_resolve_fat:
  assumes "fat_registered fss fa s" "fat16_resolve ata_io disk s = Some (r, s1)" "same_tables s s1"
  shows "fs_resolve fss disk s = Some (if r = 0 then fa else 0, s1)"
proof -
  have f: "fa \<noteq> 0" "fss fa = Some (fat16_fs ata_io)" "filesystems s = fa # replicate 11 0"
    "filesystems s1 = fa # replicate 11 0"
    using assms by (simp_all add: fat_registered_def same_tables_def)
  have "filesystems s1 ! i = 0" if "1 \<le> i" "i < 12" for i
    using that f(4) by (cases i) simp_all
  then have e: "resolve_loop fss disk 11 s1 = Some (0, s1)"
    using f(4) by (intro resolve_loop_empty) simp_all
  have "resolve_loop fss disk (Suc 11) s = Some (if r = 0 then fa else 0, s1)"
    unfolding resolve_loop.simps using f assms(2) e
    by (simp add: MAX_FILESYSTEMS_def rd_def fat16_fs_def)
  then show ?thesis by (simp add: fs_resolve_def MAX_FILESYSTEMS_def)
qed

lemma fs_parse_mode_spec:
  assumes "terminated m"
  shows "fs_parse_mode m = Some (if hd m = 114 then FILE_MODE_READ else if hd m = 119 then FILE_MODE_WRITE
    else if hd m = 97 then FILE_MODE_APPEND else FILE_MODE_INVALID)"
proof -
  obtain c cs where m: "m = c # cs" using assms by (cases m) simp_all
  have "strncmp (c # cs) [x, 0] 1 = Some (uint c - uint x)" if "x \<noteq> 0" for x
    using that by (simp add: rd_def numeral_nat)
  moreover have "uint c = 97 \<longleftrightarrow> c = 97" "uint c = 114 \<longleftrightarrow> c = 114" "uint c = 119 \<longleftrightarrow> c = 119"
    by (simp_all add: word_uint_eq_iff)
  ultimately show ?thesis
    unfolding m fs_parse_mode_def by (simp add: chars)
qed

section \<open>Stages of \<open>fopen\<close>\<close>

definition two_disks :: "('d, 'z) fat_scheme \<Rightarrow> bool" where
  "two_disks s \<longleftrightarrow> (\<exists>P Q. disks s = [\<lparr>disk_no = 0, fs_private = P\<rparr>, \<lparr>disk_no = 1, fs_private = Q\<rparr>])"

lemma two_disks_rd: "two_disks s \<Longrightarrow> d < 2 \<Longrightarrow> \<exists>dk. rd (disks s) d = Some dk \<and> disk_no dk = int d \<and> d < length (disks s)"
  by (cases d) (auto simp: two_disks_def rd_def less_Suc_eq numeral_2_eq_2)

lemma parsed_path_frame:
  fixes s :: "(ata, 'z) fat_scheme"
  assumes "fat_frame A L s s'" "path_addrs root ts \<inter> A = {}" "parsed_path s root d ts"
  shows "parsed_path s' root d ts"
proof -
  have a: "path_roots s' a = path_roots s a \<and> path_parts s' a = path_parts s a \<and> names s' a = names s a"
    if "a \<in> path_addrs root ts" for a
    using assms(1,2) that by (auto simp: fat_frame_def fat_stores_agree_def)
  then have "part_chain s' p ts \<longleftrightarrow> part_chain s p ts" for p
    by (intro part_chain_cong) (simp add: path_addrs_def)
  then show ?thesis using assms(3) a [of root] by (simp add: parsed_path_def path_addrs_def)
qed

lemma fat_frame_ready: "fat_frame A L s s' \<Longrightarrow> drive_ready (dev s')"
  using same_drives_sym_ready by (simp add: fat_frame_def) blast

lemma fat_frame_weaken: "fat_frame A K s s' \<Longrightarrow> L \<subseteq> K \<Longrightarrow> fat_frame A L s s'"
  by (auto simp: fat_frame_def keeps_def simp del: in_region)

lemma fat_frame_disks_same: "path_frame A L s s' \<Longrightarrow> disks s' = disks s"
  for s :: "('d, 'z) fat_scheme"
proof -
  assume "path_frame A L s s'"
  then have e: "s' = s\<lparr>mem := mem s', placement_address := placement_address s', global_base := global_base s',
     path_roots := path_roots s', path_parts := path_parts s', names := names s'\<rparr>"
    by (simp add: path_frame_def paths_only_def)
  show "disks s' = disks s" by (subst e) simp
qed

lemma fopen_parse:
  fixes s :: "(ata, 'z) vfs_scheme"
  assumes own: "heap_owns s L" and ready: "drive_ready (dev s)" and c: "isdigit c" "terminated t"
    and fits: "\<forall>x \<in> set (path_components (str_of t)). length x < 256"
    and room: "unat (placement_address s) + 296 * length (path_components (str_of t)) + 296 < 4294967296"
  obtains root s1 ts where "path_parser_parse (c # 58 # 47 # t) s = Some (root, s1)" "root \<noteq> 0"
    "parsed_path s1 root (sint c - 48) ts" "part_names ts = path_components (str_of t)"
    "heap_owns s1 (path_blocks root ts \<union> L)" "path_addrs root ts \<inter> fst ` L = {}"
    "fat_frame (path_addrs root ts) L s s1" "disks s1 = disks s" "dev s1 = dev s"
    "grows (296 * length (path_components (str_of t)) + 296) (placement_address s) (placement_address s1)"
proof -
  obtain root s1 ts where p: "path_parser_parse (c # 58 # 47 # t) s = Some (root, s1)"
    "parsed_path s1 root (sint c - 48) ts" "part_names ts = path_components (str_of t)"
    "heap_owns s1 (path_blocks root ts \<union> L)" "path_addrs root ts \<inter> fst ` L = {}"
    "path_frame (path_addrs root ts) L s s1"
    "grows (296 * length (path_components (str_of t)) + 296) (placement_address s) (placement_address s1)"
    using path_parser_parse_spec [OF own c fits room] by blast
  have e: "s1 = s\<lparr>mem := mem s1, placement_address := placement_address s1, global_base := global_base s1,
     path_roots := path_roots s1, path_parts := path_parts s1, names := names s1\<rparr>"
    using p(6) by (simp add: path_frame_def paths_only_def)
  have "dev s1 = dev s" by (subst e) simp
  moreover have "root \<noteq> 0" using p(2) by (simp add: parsed_path_def)
  ultimately show ?thesis
    using that p(1-5) p(7) fat_frame_path [OF p(6) ready] fat_frame_disks_same [OF p(6)] by blast
qed

lemma fopen_free:
  fixes s :: "(ata, 'z) vfs_scheme"
  assumes own: "heap_owns s (path_blocks root ts \<union> K)" and path: "parsed_path s root d ts"
    and disj: "path_addrs root ts \<inter> fst ` K = {}" and ready: "drive_ready (dev s)"
  obtains s' where "path_parser_free root s = Some s'" "heap_owns s' K" "fat_frame (path_addrs root ts) K s s'"
    "disks s' = disks s" "placement_address s' = placement_address s"
proof -
  obtain s' where f: "path_parser_free root s = Some s'" "heap_owns s' K" "path_frame (path_addrs root ts) K s s'"
    "placement_address s' = placement_address s"
    using path_parser_free_spec [OF own path disj] by blast
  show ?thesis using that [OF f(1,2) fat_frame_path [OF f(3) ready] fat_frame_disks_same [OF f(3)] f(4)] .
qed

lemma parsed_first: "parsed_path s root d ts \<Longrightarrow>
    \<exists>p. path_roots s root = Some \<lparr>drive_no = d, first = p\<rparr> \<and> part_chain s p ts \<and> (p = 0 \<longleftrightarrow> ts = [])"
  by (cases ts) (auto simp: parsed_path_def)

lemma drive_number: "isdigit c \<Longrightarrow> 0 \<le> sint c - 48"
  by (simp add: isdigit_def)

lemma part_names_Nil: "part_names ts = [] \<longleftrightarrow> ts = []"
  by (simp add: part_names_def)

text \<open>After the parse, up to the mount: the errors -2, -3 and -4.\<close>

lemma fopen_fails:
  fixes s :: "(ata, 'z) vfs_scheme"
  assumes own: "heap_owns s L" and reg: "fat_registered fss fa s" and ds: "two_disks s" and ready: "drive_ready (dev s)"
    and c: "isdigit c" "terminated t" and comps: "comps = path_components (str_of t)"
    and fits: "\<forall>x \<in> set comps. length x < 256"
    and room: "unat (placement_address s) + 296 * length comps + 852 < 4294967296"
    and bad: "comps = [] \<or> sint c - 48 > 1 \<or> mount_code (dev s) (sint c - 48) \<noteq> 0"
  shows "\<exists>A s'. fopen fss (c # 58 # 47 # t) m s
      = Some (if comps = [] then -2 else if sint c - 48 > 1 then -3 else -4, s')
    \<and> heap_owns s' L \<and> fat_frame A L s s' \<and> A \<inter> fst ` L = {} \<and> disks s' = disks s"
proof -
  have fits': "\<forall>x \<in> set (path_components (str_of t)). length x < 256" using fits comps by simp
  have "unat (placement_address s) + 296 * length (path_components (str_of t)) + 296 < 4294967296"
    using room comps by simp
  note k0 = fopen_parse [OF own ready c fits' this]
  obtain root s1 ts where p: "path_parser_parse (c # 58 # 47 # t) s = Some (root, s1)" "root \<noteq> 0"
    "parsed_path s1 root (sint c - 48) ts" "part_names ts = path_components (str_of t)"
    "heap_owns s1 (path_blocks root ts \<union> L)" "path_addrs root ts \<inter> fst ` L = {}"
    "fat_frame (path_addrs root ts) L s s1" "disks s1 = disks s" "dev s1 = dev s"
    "grows (296 * length (path_components (str_of t)) + 296) (placement_address s) (placement_address s1)"
    by (rule k0) blast
  obtain q where q: "path_roots s1 root = Some \<lparr>drive_no = sint c - 48, first = q\<rparr>" "q = 0 \<longleftrightarrow> ts = []"
    using parsed_first [OF p(3)] by blast
  have nil: "comps = [] \<longleftrightarrow> ts = []" using p(4) part_names_Nil [of ts] comps by simp
  let ?code = "if comps = [] then -2 else if sint c - 48 > 1 then -3 else -4 :: int"
  have "\<exists>A s2. fopen_path fss root m s1 = Some (?code, s2) \<and> heap_owns s2 (path_blocks root ts \<union> L)
    \<and> fat_frame A (path_blocks root ts \<union> L) s1 s2 \<and> A \<inter> fst ` (path_blocks root ts \<union> L) = {} \<and> disks s2 = disks s1"
  proof (cases "comps = [] \<or> sint c - 48 > 1")
    case True
    then have "fopen_path fss root m s1 = Some (?code, s1)"
      using q nil by (auto simp: fopen_path_def)
    then show ?thesis
      using p(5) fat_frame_refl [of s1 "{}" "path_blocks root ts \<union> L"] ready p(9) by (intro exI [of _ "{}"] exI [of _ s1]) simp
  next
    case False
    then have mc: "mount_code (dev s1) (sint c - 48) \<noteq> 0" using bad p(9) by simp
    have n0: "0 \<le> sint c - 48" using c(1) by (rule drive_number)
    let ?d = "nat (sint c - 48)"
    have "?d < 2" using False n0 by (simp add: nat_less_iff)
    moreover have "two_disks s1" using ds p(8) by (simp add: two_disks_def)
    ultimately obtain dk where dk: "rd (disks s1) ?d = Some dk" "disk_no dk = sint c - 48"
      using two_disks_rd n0 by fastforce
    have room1: "unat (placement_address s1) + 556 < 4294967296" using p(10) room comps by simp
    have ready1: "drive_ready (dev s1)" using ready p(9) by simp
    from fat16_resolve_spec [OF p(5) room1 ready1 dk]
    obtain A s2 where r: "fat16_resolve ata_io ?d s1 = Some (mount_code (dev s1) (sint c - 48), s2)"
      "A \<inter> fst ` (path_blocks root ts \<union> L) = {}" "fat_frame A (path_blocks root ts \<union> L) s1 s2"
      "heap_owns s2 (path_blocks root ts \<union> L)" "disks s2 = disks s1"
      using mc by auto
    have "fat_registered fss fa s1"
      using reg fat_frame_tables [OF p(7)] by (simp add: fat_registered_def same_tables_def)
    from fs_resolve_fat [OF this r(1) fat_frame_tables [OF r(3)]] mc
    have "fs_resolve fss ?d s1 = Some (0, s2)" by simp
    then have "fopen_path fss root m s1 = Some (?code, s2)"
      using q nil False n0 by (simp add: fopen_path_def)
    then show ?thesis using r by blast
  qed
  then obtain A s2 where b: "fopen_path fss root m s1 = Some (?code, s2)" "heap_owns s2 (path_blocks root ts \<union> L)"
    "fat_frame A (path_blocks root ts \<union> L) s1 s2" "A \<inter> fst ` (path_blocks root ts \<union> L) = {}" "disks s2 = disks s1" by blast
  have A: "path_addrs root ts \<inter> A = {}" "A \<inter> fst ` L = {}"
    using b(4) by (auto simp: image_Un path_blocks_addrs)
  have "drive_ready (dev s2)" using b(3) by (rule fat_frame_ready)
  note k1 = fopen_free [OF b(2) parsed_path_frame [OF b(3) A(1) p(3)] p(6) this]
  obtain s3 where f: "path_parser_free root s2 = Some s3" "heap_owns s3 L" "fat_frame (path_addrs root ts) L s2 s3"
    "disks s3 = disks s2" by (rule k1) blast
  have "fat_frame A L s1 s2" using b(3) by (rule fat_frame_weaken) simp
  with p(7) have "fat_frame (path_addrs root ts \<union> A) L s s2" by (rule fat_frame_trans) auto
  then have "fat_frame (path_addrs root ts \<union> A) L s s3" using f(3) by (rule fat_frame_trans) auto
  moreover have "(path_addrs root ts \<union> A) \<inter> fst ` L = {}" using p(6) A(2) by auto
  moreover have "fopen fss (c # 58 # 47 # t) m s = Some (?code, s3)"
    using p(1,2) b(1) f(1) by (simp add: fopen_def)
  ultimately show ?thesis using f(2,4) b(5) p(8)
    by (intro exI [of _ "path_addrs root ts \<union> A"] exI [of _ s3]) simp
qed

text \<open>After the mount.\<close>

lemma fopen_mount:
  fixes s :: "(ata, 'z) vfs_scheme"
  assumes own: "heap_owns s L" and reg: "fat_registered fss fa s" and ds: "two_disks s" and ready: "drive_ready (dev s)"
    and c: "isdigit c" "terminated t" and comps: "comps = path_components (str_of t)"
    and fits: "\<forall>x \<in> set comps. length x < 256"
    and room: "unat (placement_address s) + 296 * length comps + 852 < 4294967296"
    and d: "dn = sint c - 48" "dn \<le> 1" "mount_code (dev s) dn = 0"
    and b: "b = read_boot_sector (bytes_at (dev s) dn 0 512)" "volume_ok b (drive_size (dev s) dn)"
  obtains root s1 ts s2 q st pr p where "path_parser_parse (c # 58 # 47 # t) s = Some (root, s1)" "root \<noteq> 0"
    "path_roots s1 root = Some \<lparr>drive_no = dn, first = q\<rparr>" "path_roots s2 root = Some \<lparr>drive_no = dn, first = q\<rparr>"
    "part_chain s2 q ts" "q = 0 \<longleftrightarrow> ts = []" "part_names ts = comps" "parsed_path s2 root dn ts"
    "fs_resolve fss (nat dn) s1 = Some (fa, s2)" "mounted (nat dn) b st dn (dev s) s2"
    "streams s2 st = Some \<lparr>pos = p, disk_id = dn\<rparr>"
    "heap_owns s2 (path_blocks root ts \<union> insert (pr, 516) (insert (st, 8) L))"
    "path_addrs root ts \<inter> fst ` insert (pr, 516) (insert (st, 8) L) = {}" "st \<noteq> pr" "{st, pr} \<inter> fst ` L = {}"
    "fat_frame (path_addrs root ts \<union> {st, pr}) L s s2" "two_disks s2" "fat_registered fss fa s2"
    "rd (disks s2) (nat dn) = Some \<lparr>disk_no = dn, fs_private = pr\<rparr>" "fat_privates s2 pr = Some \<lparr>bpb = b, stream = st\<rparr>"
    "grows (296 * length comps + 852) (placement_address s) (placement_address s2)"
proof -
  have fits': "\<forall>x \<in> set (path_components (str_of t)). length x < 256" using fits comps by simp
  have "unat (placement_address s) + 296 * length (path_components (str_of t)) + 296 < 4294967296"
    using room comps by simp
  note k0 = fopen_parse [OF own ready c fits' this]
  obtain root s1 ts where p: "path_parser_parse (c # 58 # 47 # t) s = Some (root, s1)" "root \<noteq> 0"
    "parsed_path s1 root dn ts" "part_names ts = path_components (str_of t)"
    "heap_owns s1 (path_blocks root ts \<union> L)" "path_addrs root ts \<inter> fst ` L = {}"
    "fat_frame (path_addrs root ts) L s s1" "disks s1 = disks s" "dev s1 = dev s"
    "grows (296 * length (path_components (str_of t)) + 296) (placement_address s) (placement_address s1)"
    unfolding d(1) by (rule k0) blast
  have n0: "0 \<le> dn" using c(1) d(1) drive_number by simp
  have n2: "nat dn < 2" using n0 d(2) by (simp add: nat_less_iff)
  have td1: "two_disks s1" using ds p(8) by (simp add: two_disks_def)
  obtain dk where dk: "rd (disks s1) (nat dn) = Some dk" "disk_no dk = dn" "nat dn < length (disks s1)"
    using two_disks_rd [OF td1 n2] n0 by auto
  have room1: "unat (placement_address s1) + 556 < 4294967296" using p(10) room comps by simp
  have ready1: "drive_ready (dev s1)" using ready p(9) by simp
  from fat16_resolve_spec [OF p(5) room1 ready1 dk(1,2)] d(3) p(9)
  obtain s2 st pr q' where r: "fat16_resolve ata_io (nat dn) s1 = Some (0, s2)"
    "{st, pr} \<inter> fst ` (path_blocks root ts \<union> L) = {}" "fat_frame {st, pr} (path_blocks root ts \<union> L) s1 s2"
    "grows 556 (placement_address s1) (placement_address s2)" "st \<noteq> pr"
    "heap_owns s2 (insert (pr, 516) (insert (st, 8) (path_blocks root ts \<union> L)))"
    "disks s2 = (disks s1)[nat dn := dk\<lparr>fs_private := pr\<rparr>]"
    "fat_privates s2 pr = Some \<lparr>bpb = b, stream = st\<rparr>" "streams s2 st = Some \<lparr>pos = q', disk_id = dn\<rparr>"
    using b(1) by auto
  have reg1: "fat_registered fss fa s1"
    using reg fat_frame_tables [OF p(7)] by (simp add: fat_registered_def same_tables_def)
  from fs_resolve_fat [OF this r(1) fat_frame_tables [OF r(3)]]
  have res: "fs_resolve fss (nat dn) s1 = Some (fa, s2)" by simp
  have A: "path_addrs root ts \<inter> {st, pr} = {}" "{st, pr} \<inter> fst ` L = {}"
    using r(2) by (auto simp: image_Un path_blocks_addrs)
  have pp2: "parsed_path s2 root dn ts" using r(3) A(1) p(3) by (rule parsed_path_frame)
  obtain q where q: "path_roots s2 root = Some \<lparr>drive_no = dn, first = q\<rparr>" "part_chain s2 q ts" "q = 0 \<longleftrightarrow> ts = []"
    using parsed_first [OF pp2] by blast
  have "path_roots s2 root = path_roots s1 root"
    using r(3) A(1) by (auto simp: fat_frame_def fat_stores_agree_def path_addrs_def)
  then have q1: "path_roots s1 root = Some \<lparr>drive_no = dn, first = q\<rparr>" using q(1) by simp
  have "private_of (nat dn) s2 = Some \<lparr>bpb = b, stream = st\<rparr>"
    using r(7,8) dk(3) by (simp add: private_of_def rd_def)
  then have mnt: "mounted (nat dn) b st dn (dev s) s2" using ready b(2) by (simp add: mounted_def)
  have own2: "heap_owns s2 (path_blocks root ts \<union> insert (pr, 516) (insert (st, 8) L))" using r(6) by simp
  have disj: "path_addrs root ts \<inter> fst ` insert (pr, 516) (insert (st, 8) L) = {}" using A p(6) by auto
  have "fat_frame {st, pr} L s1 s2" using r(3) by (rule fat_frame_weaken) simp
  with p(7) have fr: "fat_frame (path_addrs root ts \<union> {st, pr}) L s s2" by (rule fat_frame_trans) auto
  have td2: "two_disks s2"
    using td1 r(7) dk(1,2) n2 by (cases "nat dn") (auto simp: two_disks_def rd_def less_Suc_eq numeral_2_eq_2)
  have reg2: "fat_registered fss fa s2"
    using reg1 fat_frame_tables [OF r(3)] by (simp add: fat_registered_def same_tables_def)
  have names: "part_names ts = comps" using p(4) comps by simp
  have dk2: "rd (disks s2) (nat dn) = Some \<lparr>disk_no = dn, fs_private = pr\<rparr>"
    using r(7) dk by (simp add: rd_def)
  have bound: "grows (296 * length comps + 852) (placement_address s) (placement_address s2)"
    using r(4) p(10) comps by simp
  show ?thesis
    by (rule that [OF p(1,2) q1 q(1) q(2,3) names pp2 res mnt r(9) own2 disj r(5) A(2) fr td2 reg2 dk2 r(8) bound])
qed

lemma vfs_updates [simp]:
  fixes s :: "('d, 'z) vfs_scheme"
  shows "heap_owns (s\<lparr>fds := f\<rparr>) L \<longleftrightarrow> heap_owns s L" "heap_owns (s\<lparr>file_descriptors := g\<rparr>) L \<longleftrightarrow> heap_owns s L"
    "parsed_path (s\<lparr>fds := f\<rparr>) root d ts \<longleftrightarrow> parsed_path s root d ts"
    "parsed_path (s\<lparr>file_descriptors := g\<rparr>) root d ts \<longleftrightarrow> parsed_path s root d ts"
proof -
  show "heap_owns (s\<lparr>fds := f\<rparr>) L \<longleftrightarrow> heap_owns s L" "heap_owns (s\<lparr>file_descriptors := g\<rparr>) L \<longleftrightarrow> heap_owns s L"
    by (rule heap_owns_same; simp)+
  have "part_chain (s\<lparr>fds := f\<rparr>) p ts \<longleftrightarrow> part_chain s p ts" "part_chain (s\<lparr>file_descriptors := g\<rparr>) p ts \<longleftrightarrow> part_chain s p ts" for p
    by (rule part_chain_cong; simp)+
  then show "parsed_path (s\<lparr>fds := f\<rparr>) root d ts \<longleftrightarrow> parsed_path s root d ts"
    "parsed_path (s\<lparr>file_descriptors := g\<rparr>) root d ts \<longleftrightarrow> parsed_path s root d ts"
    by (simp_all add: parsed_path_def)
qed

lemma open_stage:
  fixes s2 :: "(ata, 'z) fat_scheme"
  assumes m: "mounted disk b st dn D s2" and d: "same_drives D (dev s2)" and st: "streams s2 st = Some \<lparr>pos = p, disk_id = dn\<rparr>"
    and path: "part_chain s2 q ts" "ts \<noteq> []" "walk b D dn 0 (part_names ts) (Some it)" "\<not> is_directory it"
    and own: "heap_owns s2 K" and room: "unat (placement_address s2) + 60 < 4294967296"
  obtains fp s3 p3 where "fat16_open ata_io disk q FILE_MODE_READ s2 = Some (fp, s3)" "fp \<noteq> 0" "fp \<notin> fst ` K"
    "heap_owns s3 (insert (fp, 44) K)" "fat_frame {st, fp} K s2 s3" "disks s3 = disks s2"
    "streams s3 st = Some \<lparr>pos = p3, disk_id = dn\<rparr>" "fat_files s3 fp = Some (fresh_file it)"
    "grows 60 (placement_address s2) (placement_address s3)"
proof -
  from fat16_open_spec [OF m d path(1-3) own room, of p] path(4)
  obtain d' q' fp h where o: "same_drives D d'" "fat16_open ata_io disk q FILE_MODE_READ s2
      = Some (fp, h\<lparr>fat_files := (fat_files s2)(fp \<mapsto> fresh_file it)\<rparr>)"
    "fp \<noteq> 0" "heap_only (moved st dn d' q' s2) h" "heap_owns h (insert (fp, 44) K)" "fp \<notin> fst ` K"
    "keeps K (mem s2) (mem h)" "grows 60 (placement_address s2) (placement_address h)"
    unfolding moved_refl [OF st] by auto
  let ?s3 = "h\<lparr>fat_files := (fat_files s2)(fp \<mapsto> fresh_file it)\<rparr>"
  note hf = heap_only_fat [OF o(4)]
  have rd2: "drive_ready (dev s2)" using d by (rule same_drives_sym_ready)
  have "same_drives (dev s2) d'" using o(1) d by (simp add: same_drives_def)
  then have "fat_frame {st} K s2 (moved st dn d' q' s2)" by (intro fat_frame_moved) simp_all
  moreover have "drive_ready (dev (moved st dn d' q' s2))" using same_drives_sym_ready [OF o(1)] by simp
  then have "fat_frame {} K (moved st dn d' q' s2) h" using o(4,7) by (intro fat_frame_heap) simp_all
  ultimately have "fat_frame {st} K s2 h" by (rule fat_frame_trans) auto
  moreover have "fat_frame {fp} K h ?s3"
    using fat_frame_file [of fp "{fp}" h K "Some (fresh_file it)"] hf same_drives_sym_ready [OF o(1)] by simp
  ultimately have fr: "fat_frame {st, fp} K s2 ?s3" by (rule fat_frame_trans) auto
  show ?thesis
    by (rule that [OF o(2,3,6) _ fr]) (use o(5,8) hf in simp_all)
qed

lemma descriptor_stage:
  fixes s3 :: "(ata, 'z) vfs_scheme"
  assumes own: "heap_owns s3 K" and room: "unat (placement_address s3) + 32 < 4294967296"
    and slot: "first_free (file_descriptors s3) = Some i" and ready: "drive_ready (dev s3)"
  obtains desc s4 where "fs_new_descriptor s3 = Some (desc, s4\<lparr>fds := (fds s4)(desc \<mapsto>
      \<lparr>index = int i + 1, filesystem = 0, fd_private = 0, fd_disk = 0\<rparr>), file_descriptors := (file_descriptors s4)[i := desc]\<rparr>)"
    "desc \<noteq> 0" "desc \<notin> fst ` K" "heap_owns s4 (insert (desc, 16) K)" "fat_frame {} K s3 s4" "disks s4 = disks s3"
    "streams s4 = streams s3" "fat_files s4 = fat_files s3" "grows 32 (placement_address s3) (placement_address s4)"
proof -
  have "unat (16 :: u32) = 16" "(16 :: nat) \<noteq> 0" "unat (placement_address s3) + (16 + 16) < 4294967296"
    using room by simp_all
  note k0 = kmalloc_obtain [OF own this]
  obtain desc s4 where k: "kmalloc 16 s3 = Some (desc, s4)" "desc \<noteq> 0" "heap_only s3 s4"
    "heap_owns s4 (insert (desc, 16) K)" "desc \<notin> fst ` K" "keeps K (mem s3) (mem s4)"
    "grows (16 + 16) (placement_address s3) (placement_address s4)" by (rule k0) blast
  have fr: "fat_frame {} K s3 s4" using k(3,6) ready by (rule fat_frame_heap)
  have t: "file_descriptors s4 = file_descriptors s3" "fds s4 = fds s3"
    using fat_frame_tables [OF fr] by (simp_all add: same_tables_def)
  show ?thesis
    by (rule that [OF _ k(2,5,4) fr]) (use k(1,7) slot t heap_only_fat [OF k(3)] in \<open>simp_all add: fs_new_descriptor_def\<close>)
qed

lemma fopen_opens:
  fixes s :: "(ata, 'z) vfs_scheme"
  assumes own: "heap_owns s L" and reg: "fat_registered fss fa s" and ds: "two_disks s" and ready: "drive_ready (dev s)"
    and c: "isdigit c" "terminated t" and comps: "comps = path_components (str_of t)"
    and fits: "\<forall>x \<in> set comps. length x < 256"
    and room: "unat (placement_address s) + 296 * length comps + 944 < 4294967296"
    and d: "dn = sint c - 48" "dn \<le> 1" "mount_code (dev s) dn = 0"
    and b: "b = read_boot_sector (bytes_at (dev s) dn 0 512)" "volume_ok b (drive_size (dev s) dn)"
    and mode: "terminated m" "hd m = 114"
    and walk: "walk b (dev s) dn 0 comps (Some it)" "\<not> is_directory it"
    and file_good: "file_ok b (dev s) dn it cs" "unat (filesize it) < 2147483648"
    and slot: "first_free (file_descriptors s) = Some i"
  shows "\<exists>desc fp st pr s'. fopen fss (c # 58 # 47 # t) m s = Some (int i + 1, s')
    \<and> file_descriptors s' = (file_descriptors s)[i := desc] \<and> desc \<noteq> 0
    \<and> fds s' = (fds s)(desc \<mapsto> \<lparr>index = int i + 1, filesystem = fa, fd_private = fp, fd_disk = nat dn\<rparr>)
    \<and> fat_is_file s' (nat dn) fp (fat_contents b (dev s) dn cs it) 0
    \<and> heap_owns s' ({(desc, 16), (fp, 44), (pr, 516), (st, 8)} \<union> L) \<and> distinct [desc, fp, pr, st]
    \<and> {desc, fp, pr, st} \<inter> fst ` L = {} \<and> keeps L (mem s) (mem s') \<and> same_drives (dev s) (dev s')
    \<and> fat_registered fss fa s' \<and> two_disks s' \<and> grows (296 * length comps + 944) (placement_address s) (placement_address s')
    \<and> vfs.more s' = vfs.more s"
proof -
  have "unat (placement_address s) + 296 * length comps + 852 < 4294967296" using room by simp
  note k0 = fopen_mount [OF own reg ds ready c comps fits this d b]
  obtain root s1 ts s2 q st pr p where A: "path_parser_parse (c # 58 # 47 # t) s = Some (root, s1)" "root \<noteq> 0"
    "path_roots s1 root = Some \<lparr>drive_no = dn, first = q\<rparr>" "path_roots s2 root = Some \<lparr>drive_no = dn, first = q\<rparr>"
    "part_chain s2 q ts" "q = 0 \<longleftrightarrow> ts = []" "part_names ts = comps" "parsed_path s2 root dn ts"
    "fs_resolve fss (nat dn) s1 = Some (fa, s2)" "mounted (nat dn) b st dn (dev s) s2"
    "streams s2 st = Some \<lparr>pos = p, disk_id = dn\<rparr>"
    "heap_owns s2 (path_blocks root ts \<union> insert (pr, 516) (insert (st, 8) L))"
    "path_addrs root ts \<inter> fst ` insert (pr, 516) (insert (st, 8) L) = {}" "st \<noteq> pr" "{st, pr} \<inter> fst ` L = {}"
    "fat_frame (path_addrs root ts \<union> {st, pr}) L s s2" "two_disks s2" "fat_registered fss fa s2"
    "rd (disks s2) (nat dn) = Some \<lparr>disk_no = dn, fs_private = pr\<rparr>" "fat_privates s2 pr = Some \<lparr>bpb = b, stream = st\<rparr>"
    "grows (296 * length comps + 852) (placement_address s) (placement_address s2)"
    by (rule k0) blast
  let ?K2 = "insert (pr, 516) (insert (st, 8) L)"
  let ?P = "path_blocks root ts"
  have "comps \<noteq> []" using walk(1) by (cases comps) auto
  then have ne: "ts \<noteq> []" "q \<noteq> 0" using A(6,7) by auto
  have sd2: "same_drives (dev s) (dev s2)" using A(16) by (simp add: fat_frame_def)
  have "walk b (dev s) dn 0 (part_names ts) (Some it)" using walk(1) A(7) by simp
  moreover have "unat (placement_address s2) + 60 < 4294967296" using A(21) room by simp
  ultimately obtain fp s3 p3 where B: "fat16_open ata_io (nat dn) q FILE_MODE_READ s2 = Some (fp, s3)" "fp \<noteq> 0"
    "fp \<notin> fst ` (?P \<union> ?K2)" "heap_owns s3 (insert (fp, 44) (?P \<union> ?K2))" "fat_frame {st, fp} (?P \<union> ?K2) s2 s3"
    "disks s3 = disks s2" "streams s3 st = Some \<lparr>pos = p3, disk_id = dn\<rparr>" "fat_files s3 fp = Some (fresh_file it)"
    "grows 60 (placement_address s2) (placement_address s3)"
    using open_stage [OF A(10) sd2 A(11,5) ne(1) _ walk(2) A(12)] by metis
  have t23: "same_tables s s2" "same_tables s2 s3"
    using fat_frame_tables [OF A(16)] fat_frame_tables [OF B(5)] by simp_all
  have ready3: "drive_ready (dev s3)" using B(5) by (rule fat_frame_ready)
  have "unat (placement_address s3) + 32 < 4294967296" using B(9) A(21) room by simp
  moreover have "first_free (file_descriptors s3) = Some i" using slot t23 by (simp add: same_tables_def)
  ultimately obtain desc s4 where C: "fs_new_descriptor s3 = Some (desc, s4\<lparr>fds := (fds s4)(desc \<mapsto>
      \<lparr>index = int i + 1, filesystem = 0, fd_private = 0, fd_disk = 0\<rparr>), file_descriptors := (file_descriptors s4)[i := desc]\<rparr>)"
    "desc \<noteq> 0" "desc \<notin> fst ` insert (fp, 44) (?P \<union> ?K2)" "heap_owns s4 (insert (desc, 16) (insert (fp, 44) (?P \<union> ?K2)))"
    "fat_frame {} (insert (fp, 44) (?P \<union> ?K2)) s3 s4" "disks s4 = disks s3" "streams s4 = streams s3" "fat_files s4 = fat_files s3"
    "grows 32 (placement_address s3) (placement_address s4)"
    using descriptor_stage [OF B(4) _ _ ready3] by metis
  let ?d = "\<lparr>index = int i + 1, filesystem = fa, fd_private = fp, fd_disk = nat dn\<rparr>"
  let ?s6 = "s4\<lparr>fds := (fds s4)(desc \<mapsto> ?d), file_descriptors := (file_descriptors s4)[i := desc]\<rparr>"
  let ?K4 = "insert (desc, 16) (insert (fp, 44) ?K2)"
  have run: "fopen_path fss root m s1 = Some (int i + 1, ?s6)"
    using A(3,4,9,18) B(1,2) C(1,2) ne d(2) c(1) d(1) drive_number [OF c(1)] fs_parse_mode_spec [OF mode(1)] mode(2)
    by (simp add: fopen_path_def fat_registered_def fat16_fs_def)
  have fr24: "fat_frame {st, fp} (?P \<union> ?K2) s2 s4" using B(5) C(5) by (rule fat_frame_trans) auto
  have dj: "path_addrs root ts \<inter> {st, fp} = {}" "fp \<notin> path_addrs root ts" "desc \<notin> path_addrs root ts"
    using A(13) B(3) C(3) by (auto simp: image_Un path_blocks_addrs)
  have pp6: "parsed_path ?s6 root dn ts" using parsed_path_frame [OF fr24 dj(1) A(8)] by simp
  have own6: "heap_owns ?s6 (?P \<union> ?K4)" using C(4) by (simp add: insert_commute)
  have dj4: "path_addrs root ts \<inter> fst ` ?K4 = {}" using A(13) dj by auto
  have ready6: "drive_ready (dev ?s6)" using fat_frame_ready [OF C(5)] by simp
  note k1 = fopen_free [OF own6 pp6 dj4 ready6]
  obtain s7 where F: "path_parser_free root ?s6 = Some s7" "heap_owns s7 ?K4" "fat_frame (path_addrs root ts) ?K4 ?s6 s7"
    "disks s7 = disks ?s6" "placement_address s7 = placement_address ?s6" by (rule k1) blast
  have t7: "file_descriptors s7 = (file_descriptors s)[i := desc]" "fds s7 = (fds s)(desc \<mapsto> ?d)" "filesystems s7 = filesystems s"
    using fat_frame_tables [OF F(3)] fat_frame_tables [OF C(5)] t23 by (simp_all add: same_tables_def)
  have agree: "fat_privates s7 a = fat_privates s4 a \<and> streams s7 a = streams s4 a \<and> fat_files s7 a = fat_files s4 a"
    if "a \<notin> path_addrs root ts" for a
    using F(3) that by (simp add: fat_frame_def fat_stores_agree_def)
  have nin: "pr \<notin> path_addrs root ts" "st \<notin> path_addrs root ts" using A(13) by auto
  have "pr \<noteq> fp" using B(3) by auto
  then have "fat_privates s4 pr = fat_privates s2 pr"
    using fr24 A(14) by (simp add: fat_frame_def fat_stores_agree_def)
  then have "private_of (nat dn) s7 = Some \<lparr>bpb = b, stream = st\<rparr>"
    using A(19,20) F(4) C(6) B(6) agree [OF nin(1)] by (simp add: private_of_def)
  then have "mounted (nat dn) b st dn (dev s) s7" using A(10) by (simp add: mounted_def)
  moreover have "same_drives (dev s2) (dev s4)" using fr24 by (simp add: fat_frame_def)
  moreover have "same_drives (dev s4) (dev s7)" using F(3) by (simp add: fat_frame_def)
  ultimately have sd: "same_drives (dev s) (dev s7)" and "mounted (nat dn) b st dn (dev s7) s7"
    using sd2 same_drives_trans mounted_same by blast+
  moreover have "streams s7 st = Some \<lparr>pos = p3, disk_id = dn\<rparr>" using agree [OF nin(2)] C(7) B(7) by simp
  moreover have "fat_files s7 fp = Some (fresh_file it)" using agree [OF dj(2)] C(8) B(8) by simp
  moreover have "open_file_ok b (dev s7) dn cs (fresh_file it)"
    using fresh_file_ok [OF file_good(1)] open_file_same [OF sd] by simp
  ultimately have isf: "fat_is_file s7 (nat dn) fp (fat_contents b (dev s) dn cs it) 0"
    unfolding fat_is_file_def using file_good(2) file_byte_same [OF sd]
    by (intro exI [of _ b] exI [of _ st] exI [of _ dn] exI [of _ p3] exI [of _ cs] exI [of _ "fresh_file it"])
      (simp add: fat_contents_def fresh_file_def)
  have "heap_owns s7 ({(desc, 16), (fp, 44), (pr, 516), (st, 8)} \<union> L)" using F(2) by simp
  moreover have "distinct [desc, fp, pr, st]" using A(14) B(3) C(3) by auto
  moreover have "{desc, fp, pr, st} \<inter> fst ` L = {}" using A(15) B(3) C(3) by auto
  moreover have "keeps L (mem s) (mem s7)"
  proof -
    have "keeps L (mem s) (mem s2)" "keeps L (mem s2) (mem s4)" "keeps L (mem ?s6) (mem s7)"
      using A(16) fat_frame_weaken [OF fr24, of L] fat_frame_weaken [OF F(3), of L] by (auto simp: fat_frame_def)
    then show ?thesis by (simp add: keeps_def del: in_region)
  qed
  moreover have "fopen fss (c # 58 # 47 # t) m s = Some (int i + 1, s7)"
    using A(1,2) run F(1) by (simp add: fopen_def)
  moreover have "fat_registered fss fa s7" using reg t7(3) by (simp add: fat_registered_def)
  moreover have "two_disks s7" using A(17) F(4) C(6) B(6) by (simp add: two_disks_def)
  moreover have "grows (296 * length comps + 944) (placement_address s) (placement_address s7)"
    using A(21) B(9) C(9) F(5) by simp
  moreover have "vfs.more s7 = vfs.more s"
    using fat_frame_more [OF A(16)] fat_frame_more [OF fr24] fat_frame_more [OF F(3)] by simp
  ultimately show ?thesis using t7(1,2) C(2) isf sd by blast
qed

section \<open>Closing\<close>

lemma fclose_spec:
  fixes s :: "(ata, 'z) vfs_scheme"
  assumes own: "heap_owns s (insert (desc, 16) (insert (fp, 44) K))" "desc \<noteq> fp" "desc \<notin> fst ` K" "fp \<notin> fst ` K"
    and fd: "i < 512" "length (file_descriptors s) = 512" "file_descriptors s ! i = desc" "desc \<noteq> 0"
    and d: "fds s desc = Some \<lparr>index = int i + 1, filesystem = fa, fd_private = fp, fd_disk = disk\<rparr>"
    and reg: "fss fa = Some (fat16_fs ata_io)"
  shows "\<exists>s'. fclose fss (int i + 1) s = Some (0, s') \<and> heap_owns s' K \<and> keeps K (mem s) (mem s')
    \<and> file_descriptors s' = (file_descriptors s)[i := 0] \<and> fds s' = (fds s)(desc := None)
    \<and> fat_files s' = (fat_files s)(fp := None) \<and> vfs.more s' = vfs.more s"
proof -
  have own1: "heap_owns s (insert (fp, 44) (insert (desc, 16) K))" using own(1) by (simp add: insert_commute)
  have "fp \<notin> fst ` insert (desc, 16) K" using own(2,4) by auto
  note f1 = free_block [OF own1 this]
  let ?s1 = "(kfree fp s)\<lparr>fat_files := (fat_files s)(fp := None)\<rparr>"
  have "heap_owns ?s1 (insert (desc, 16) K)" using f1(1) by simp
  note f2 = free_block [OF this own(3)]
  have ho: "same_tables s' (kfree p s')" if "heap_only s' (kfree p s')" for p and s' :: "(ata, 'z) vfs_scheme"
  proof -
    have e: "kfree p s' = s'\<lparr>mem := mem (kfree p s'), placement_address := placement_address (kfree p s'),
        global_base := global_base (kfree p s')\<rparr>" using that by (simp add: heap_only_def)
    show ?thesis unfolding same_tables_def by (subst e, subst e, subst e) simp
  qed
  have t1: "file_descriptors ?s1 = file_descriptors s" "fds ?s1 = fds s"
    using ho [OF f1(2)] by (simp_all add: same_tables_def)
  let ?s2 = "(kfree desc ?s1)\<lparr>file_descriptors := (file_descriptors s)[i := 0], fds := (fds s)(desc := None)\<rparr>"
  have get: "fs_get_descriptor (int i + 1) s = Some desc"
    using fd by (simp add: fs_get_descriptor_def MAX_FILE_DESCRIPTORS_def rd_def)
  have run: "fclose fss (int i + 1) s = Some (0, ?s2)"
    using get fd d reg t1
    by (simp add: fclose_def with_descriptor_def fat16_fs_def fat16_close_def wr_def)
  have "keeps K (mem s) (mem ?s2)"
    using f1(3) f2(3) by (auto simp: keeps_def simp del: in_region)
  moreover have "vfs.more ?s2 = vfs.more s" using heap_only_more [OF f1(2)] heap_only_more [OF f2(2)] by simp
  ultimately show ?thesis using run f2(1) heap_only_fat(3) [OF f2(2)]
    by (intro exI [of _ ?s2]) simp
qed

end
