(* ===== verification/VfsProps.thy ===== *)
theory VfsProps
  imports VfsOpen
begin

text \<open>
  The properties of the virtual file system, from the C string of a path down to the bytes on
  the drive.
\<close>

text \<open>A kernel after \<open>fs_init\<close> and the registration of FAT16 at \<open>0x1000\<close>.\<close>

definition boot_vfs :: "ata \<Rightarrow> ata vfs" where
  "boot_vfs d = snd (fs_insert_filesystem 0x1000 (fs_init (fat.extend (boot_fat d)
     \<lparr>filesystems = [], file_descriptors = [], fds = Map.empty\<rparr>)))"

definition fat16_at :: "u32 \<Rightarrow> u32 \<Rightarrow> (ata, 'z) vfs_scheme filesystem option" where
  "fat16_at a = [a \<mapsto> fat16_fs ata_io]"

lemma boot_vfs_eq: "boot_vfs d = (fat.extend (boot_fat d)
     \<lparr>filesystems = 0x1000 # replicate 11 0, file_descriptors = replicate 512 0, fds = Map.empty\<rparr>)
     \<lparr>disks := [\<lparr>disk_no = 0, fs_private = 0\<rparr>, \<lparr>disk_no = 1, fs_private = 0\<rparr>]\<rparr>"
proof -
  have r: "replicate 12 (0 :: u32) = 0 # replicate 11 0" by (simp add: numeral_eq_Suc)
  show ?thesis
    by (simp add: boot_vfs_def fs_insert_filesystem_def fs_get_free_filesystem_def fs_init_def MAX_FILESYSTEMS_def r
      MAX_FILE_DESCRIPTORS_def fat.extend_def upt_rec numeral_2_eq_2)
qed

lemma boot_vfs_simps [simp]:
  "dev (boot_vfs d) = d" "two_disks (boot_vfs d)" "file_descriptors (boot_vfs d) = replicate 512 0"
  "placement_address (boot_vfs d) = 0x20000" "fat_registered (fat16_at 0x1000) 0x1000 (boot_vfs d)"
  "fds (boot_vfs d) = Map.empty"
  by (simp_all add: boot_vfs_eq fat.extend_def two_disks_def fat_registered_def fat16_at_def)

lemma boot_vfs_owns [simp]: "heap_owns (boot_vfs d) {}"
  by (rule heap_owns_empty; simp add: boot_vfs_eq fat.extend_def boot_fat_def boot_paths_def paths.extend_def
    disk.extend_def boot_disk_def keyboard.extend_def boot_keyboard_def cpu.extend_def boot_cpu_def)

lemma first_free_replicate [simp]: "first_free (replicate n 0) = (if n = 0 then None else Some 0)"
  by (cases n) simp_all


lemma sample_mount: "mount_code sample_drives 0 = 0"
  by (simp add: mount_code_def sample_bpb_def [symmetric] check_boot_sector_def)




text \<open>C3: through a descriptor of a FAT16 file, any sequence of \<open>fread\<close>, \<open>fseek\<close> and \<open>ftell\<close>
  gives the results of the same sequence on the abstract file, a list of bytes with a position, and
  changes nothing but the disk controller's registers, the streams and the open files.\<close>

theorem descriptor_refines_file:
  fixes s :: "(ata, 'z) vfs_scheme"
  assumes "open_fd s fd d" and "fss (filesystem d) = Some (fat16_fs ata_io)"
    and "fat_is_file s (fd_disk d) (fd_private d) xs i" and "list_all legal_op ops"
  shows "\<exists>s'. fd_run fss fd ops s = Some (fst (abs_run xs i ops), s')
    \<and> fat_is_file s' (fd_disk d) (fd_private d) xs (snd (abs_run xs i ops)) \<and> file_io s s'"
  using assms by (rule fat_file.run_refines)

definition sample_opened :: "ata vfs" where
  "sample_opened = (fat.extend sample_mounted
     \<lparr>filesystems = 0x1000 # replicate 11 0, file_descriptors = 0x20400 # replicate 511 0,
      fds = [0x20400 \<mapsto> \<lparr>index = 1, filesystem = 0x1000, fd_private = 0x20320, fd_disk = 0\<rparr>]\<rparr>)"

lemma sample_opened_file: "fat_is_file sample_opened 0 0x20320 (fat_contents sample_bpb sample_drives 0 [2, 3] hello) 0"
proof -
  have "mounted 0 sample_bpb 0x20010 0 (dev sample_opened) sample_opened"
    "streams sample_opened 0x20010 = Some \<lparr>pos = 510, disk_id = 0\<rparr>" "dev sample_opened = sample_drives"
    "fat_files sample_opened 0x20320 = Some (fresh_file hello)"
    by (simp_all add: sample_opened_def fat.extend_def mounted_def private_of_def rd_def)
      (simp_all add: sample_mounted_def boot_fat_def paths.extend_def boot_paths_def disk.extend_def boot_disk_def
        keyboard.extend_def boot_keyboard_def cpu.extend_def boot_cpu_def)
  then show ?thesis
    unfolding fat_is_file_def using fresh_file_ok [OF sample_files(1)]
    by (intro exI [of _ sample_bpb] exI [of _ "0x20010"] exI [of _ 0] exI [of _ 510] exI [of _ "[2, 3]"]
        exI [of _ "fresh_file hello"]) (simp add: fresh_file_def sample_hello)
qed

theorem descriptor_refines_file_witness:
  "\<exists>s'. fd_run (fat16_at 0x1000) 1 [Seek (-2) FILE_SEEK_END, Tell, Read 1 10, Read 1 1] sample_opened
    = Some ([Code 0, Code 598, Got 2 [4, 4], Got 0 []], s')"
proof -
  let ?xs = "fat_contents sample_bpb sample_drives 0 [2, 3] hello"
  let ?d = "\<lparr>index = 1, filesystem = 0x1000, fd_private = 0x20320, fd_disk = 0\<rparr>"
  have len: "length ?xs = 600" by (simp add: fat_contents_def sample_hello)
  have "drop 598 ?xs = [4, 4]"
    by (rule nth_equalityI) (auto simp: fat_contents_def sample_hello sample_hello_bytes nth_Cons')
  then have "fst (abs_run ?xs 0 [Seek (-2) FILE_SEEK_END, Tell, Read 1 10, Read 1 1])
      = [Code 0, Code 598, Got 2 [4, 4], Got 0 []]"
    by (simp add: abs_step_def abs_seek_def len)
  moreover have "open_fd sample_opened 1 ?d"
    by (simp add: open_fd_def fs_get_descriptor_def MAX_FILE_DESCRIPTORS_def rd_def sample_opened_def fat.extend_def)
  ultimately show ?thesis
    using descriptor_refines_file [of sample_opened 1 ?d "fat16_at 0x1000" ?xs 0
        "[Seek (-2) FILE_SEEK_END, Tell, Read 1 10, Read 1 1]"] sample_opened_file
    by (auto simp: fat16_at_def legal_op_def)
qed

text \<open>Every operation on a number that is out of range or whose slot is empty returns -1, gives no
  bytes and changes nothing.\<close>

theorem bad_descriptor_refused:
  assumes "length (file_descriptors s) = 512" and "fd < 1 \<or> 512 < fd \<or> file_descriptors s ! nat (fd - 1) = 0"
  shows "fread fss sz n fd s = Some (-1, [], s) \<and> fseek fss fd off whence s = Some (-1, s)
    \<and> ftell fss fd s = Some (-1) \<and> fstat fss fd s = Some (-1, None) \<and> fclose fss fd s = Some (-1, s)"
proof -
  have "fs_get_descriptor fd s = Some 0"
    using assms by (auto simp: fs_get_descriptor_def MAX_FILE_DESCRIPTORS_def rd_def)
  then show ?thesis
    by (simp add: fread_def fseek_def ftell_def fstat_def fclose_def with_descriptor_def)
qed

theorem bad_descriptor_refused_witness:
  "fread (fat16_at 0x1000) 1 1 513 (boot_vfs sample_drives) = Some (-1, [], boot_vfs sample_drives)
    \<and> fclose (fat16_at 0x1000) 7 (boot_vfs sample_drives) = Some (-1, boot_vfs sample_drives)"
  using bad_descriptor_refused [of "boot_vfs sample_drives" 513 "fat16_at 0x1000"]
    bad_descriptor_refused [of "boot_vfs sample_drives" 7 "fat16_at 0x1000"] by simp



end
