(* ===== verification/Process.thy ===== *)
theory Process
  imports VfsProps
begin

text \<open>
  The list of processes, \<open>src/task/process.c\<close>. \<open>struct process\<close> objects are in the store
  \<open>procs\<close>; \<open>process_head\<close> and \<open>process_tail\<close> hold the ends of the list that their \<open>next\<close>
  fields link.
\<close>

section \<open>State\<close>

record process =
  proc_id :: u16
  proc_name :: "u8 list"
  proc_task :: u32
  proc_files :: "u32 list"
  paging_chunk :: u32
  proc_ptr :: u32
  proc_size :: u32
  proc_next :: u32

record 'd procs = "'d vfs" +
  process_head :: u32
  process_tail :: u32
  current_process :: u32
  current_id :: int
  procs :: "u32 \<Rightarrow> process option"

definition zero_process :: process where
  "zero_process = \<lparr>proc_id = 0, proc_name = replicate 32 0, proc_task = 0, proc_files = replicate 10 0,
     paging_chunk = 0, proc_ptr = 0, proc_size = 0, proc_next = 0\<rparr>"

section \<open>Operations\<close>

definition process_get_free_slot :: "('d, 'z) procs_scheme \<Rightarrow> int \<times> ('d, 'z) procs_scheme" where
  "process_get_free_slot s = (current_id s + 1, s\<lparr>current_id := current_id s + 1\<rparr>)"

text \<open>\<open>process_alloc\<close> returns the result, what it leaves in \<open>*process\<close> (\<open>p0\<close> before), and the state.\<close>

definition process_alloc ::
  "u32 \<Rightarrow> ('d, 'z) procs_scheme \<Rightarrow> (int \<times> u32 \<times> ('d, 'z) procs_scheme) option" where
  "process_alloc p0 s = do {
     (p, s) \<leftarrow> kmalloc 96 s;
     if p = 0 then Some (-1, p0, s)
     else do {
       let (i, s) = process_get_free_slot s;
       let s = s\<lparr>procs := (procs s)(p \<mapsto> zero_process\<lparr>proc_id := word_of_int i\<rparr>)\<rparr>;
       if process_head s = 0 then Some (0, p, s\<lparr>process_head := p, process_tail := p\<rparr>)
       else do {
         t \<leftarrow> procs s (process_tail s);
         Some (0, p, s\<lparr>procs := (procs s)(process_tail s \<mapsto> t\<lparr>proc_next := p\<rparr>), process_tail := p\<rparr>)
       }
     }
   }"

text \<open>The two walks of \<open>process_free\<close>: to the node before \<open>q\<close>, and to the last node.\<close>

partial_function (option) process_before :: "(u32 \<Rightarrow> process option) \<Rightarrow> u32 \<Rightarrow> u32 \<Rightarrow> u32 option" where
  "process_before ps q p = (if p = 0 then Some 0
     else do { r \<leftarrow> ps p; if proc_next r = q then Some p else process_before ps q (proc_next r) })"

partial_function (option) process_last :: "(u32 \<Rightarrow> process option) \<Rightarrow> u32 \<Rightarrow> u32 option" where
  "process_last ps p = (if p = 0 then Some 0
     else do { r \<leftarrow> ps p; if proc_next r = 0 then Some p else process_last ps (proc_next r) })"

definition process_unlink :: "u32 \<Rightarrow> process \<Rightarrow> ('d, 'z) procs_scheme \<Rightarrow> ('d, 'z) procs_scheme option" where
  "process_unlink q pr s =
     (if q = process_head s then Some (s\<lparr>process_head := proc_next pr\<rparr>)
      else do {
        p \<leftarrow> process_before (procs s) q (process_head s);
        if p = 0 then Some s
        else do {
          r \<leftarrow> procs s p;
          Some (s\<lparr>procs := (procs s)(p \<mapsto> r\<lparr>proc_next := proc_next pr\<rparr>)\<rparr>)
        }
      })"

definition process_retail :: "u32 \<Rightarrow> ('d, 'z) procs_scheme \<Rightarrow> ('d, 'z) procs_scheme option" where
  "process_retail q s =
     (if q = process_tail s then do {
        t \<leftarrow> process_last (procs s) (process_head s);
        Some (s\<lparr>process_tail := t\<rparr>)
      } else Some s)"

definition process_free :: "u32 \<Rightarrow> ('d, 'z) procs_scheme \<Rightarrow> ('d, 'z) procs_scheme option" where
  "process_free q s = do {
     pr \<leftarrow> procs s q;
     s \<leftarrow> process_unlink q pr s;
     s \<leftarrow> process_retail q s;
     Some ((kfree q s)\<lparr>procs := (procs s)(q := None)\<rparr>)
   }"

partial_function (option) process_find :: "(u32 \<Rightarrow> process option) \<Rightarrow> int \<Rightarrow> u32 \<Rightarrow> u32 option" where
  "process_find ps i p = (if p = 0 then Some 0
     else do { r \<leftarrow> ps p; if uint (proc_id r) = i then Some p else process_find ps i (proc_next r) })"

definition process_get :: "int \<Rightarrow> ('d, 'z) procs_scheme \<Rightarrow> u32 option" where
  "process_get process_id s = process_find (procs s) process_id (process_head s)"

definition process_current :: "('d, 'z) procs_scheme \<Rightarrow> u32" where
  "process_current s = current_process s"

definition process_switch :: "u32 \<Rightarrow> ('d, 'z) procs_scheme \<Rightarrow> int \<times> ('d, 'z) procs_scheme" where
  "process_switch process s = (0, s\<lparr>current_process := process\<rparr>)"

section \<open>The list\<close>

definition next_process :: "(u32 \<Rightarrow> process option) \<Rightarrow> u32 \<Rightarrow> u32" where
  "next_process ps p = (case ps p of None \<Rightarrow> 0 | Some r \<Rightarrow> proc_next r)"

text \<open>The processes in the list are the live blocks \<open>xs\<close>, linked in that order.\<close>

definition process_list :: "('d, 'z) procs_scheme \<Rightarrow> u32 list \<Rightarrow> bool" where
  "process_list s xs \<longleftrightarrow> chain (next_process (procs s)) (process_head s) xs \<and> distinct xs
     \<and> (\<forall>x \<in> set xs. procs s x \<noteq> None) \<and> (xs \<noteq> [] \<longrightarrow> process_tail s = last xs)"

definition process_blocks :: "u32 list \<Rightarrow> (u32 \<times> nat) set" where
  "process_blocks xs = (\<lambda>x. (x, 96)) ` set xs"

lemma next_process_Some: "ps p = Some r \<Longrightarrow> next_process ps p = proc_next r"
  by (simp add: next_process_def)

lemma next_process_upd:
  "next_process (ps(p \<mapsto> r)) = (next_process ps)(p := proc_next r)"
  "next_process (ps(p := None)) = (next_process ps)(p := 0)"
  by (auto simp: next_process_def)

lemma heap_owns_procs [simp]:
  fixes s :: "('d, 'z) procs_scheme"
  shows "heap_owns (s\<lparr>procs := f\<rparr>) L \<longleftrightarrow> heap_owns s L" "heap_owns (s\<lparr>process_head := a\<rparr>) L \<longleftrightarrow> heap_owns s L"
    "heap_owns (s\<lparr>process_tail := a\<rparr>) L \<longleftrightarrow> heap_owns s L" "heap_owns (s\<lparr>current_id := i\<rparr>) L \<longleftrightarrow> heap_owns s L"
  by (rule heap_owns_same; simp)+

lemma heap_only_procs:
  fixes s :: "('d, 'z) procs_scheme"
  assumes "heap_only s s'"
  shows "procs s' = procs s" "process_head s' = process_head s" "process_tail s' = process_tail s"
    "current_id s' = current_id s" "current_process s' = current_process s"
proof -
  have e: "s' = s\<lparr>mem := mem s', placement_address := placement_address s', global_base := global_base s'\<rparr>"
    using assms by (simp add: heap_only_def)
  show "procs s' = procs s" by (subst e) simp
  show "process_head s' = process_head s" by (subst e) simp
  show "process_tail s' = process_tail s" by (subst e) simp
  show "current_id s' = current_id s" by (subst e) simp
  show "current_process s' = current_process s" by (subst e) simp
qed

lemma process_list_empty: "process_list s xs \<Longrightarrow> process_head s = 0 \<longleftrightarrow> xs = []"
  by (cases xs) (auto simp: process_list_def)

lemma ex_next [simp]: "\<exists>n. r = r\<lparr>proc_next := n\<rparr>"
  by (rule exI [of _ "proc_next r"]) simp

text \<open>What \<open>process_alloc\<close> may change.\<close>

definition process_only :: "('d, 'z) procs_scheme \<Rightarrow> ('d, 'z) procs_scheme \<Rightarrow> bool" where
  "process_only s s' \<longleftrightarrow> s' = s\<lparr>mem := mem s', placement_address := placement_address s', global_base := global_base s',
     process_head := process_head s', process_tail := process_tail s', current_id := current_id s', procs := procs s'\<rparr>"

lemma heap_only_process:
  fixes s :: "('d, 'z) procs_scheme"
  shows "heap_only s s' \<Longrightarrow> process_only s s'"
  unfolding heap_only_def process_only_def by (erule ssubst) simp

lemma process_only_updates:
  fixes s :: "('d, 'z) procs_scheme"
  shows "process_only s s' \<Longrightarrow> process_only s (s'\<lparr>process_head := a\<rparr>)"
    "process_only s s' \<Longrightarrow> process_only s (s'\<lparr>process_tail := a\<rparr>)"
    "process_only s s' \<Longrightarrow> process_only s (s'\<lparr>current_id := c\<rparr>)"
    "process_only s s' \<Longrightarrow> process_only s (s'\<lparr>procs := f\<rparr>)"
  unfolding process_only_def by (erule ssubst, simp)+

lemma process_alloc_spec:
  fixes s :: "('d, 'z) procs_scheme"
  assumes pl: "process_list s xs" and own: "heap_owns s L" and live: "set xs \<subseteq> fst ` L"
    and room: "unat (placement_address s) + 112 < 4294967296"
  obtains p s' where "process_alloc p0 s = Some (0, p, s')" "process_list s' (xs @ [p])"
    "heap_owns s' (insert (p, 96) L)" "p \<notin> fst ` L" "p \<noteq> 0" "keeps L (mem s) (mem s')"
    "current_id s' = current_id s + 1" "procs s' p = Some (zero_process\<lparr>proc_id := word_of_int (current_id s + 1)\<rparr>)"
    "\<And>q. q \<noteq> p \<Longrightarrow> (procs s' q = None \<longleftrightarrow> procs s q = None)
      \<and> (\<forall>r. procs s q = Some r \<longrightarrow> (\<exists>n. procs s' q = Some (r\<lparr>proc_next := n\<rparr>)))"
    "unat (placement_address s') \<le> unat (placement_address s) + 112" "process_only s s'"
    "\<forall>m. page_room s (112 + m) \<longrightarrow> page_room s' m"
proof -
  have "unat (96 :: u32) = 96" "(96 :: nat) \<noteq> 0" "unat (placement_address s) + (16 + 96) < 4294967296"
    using room by simp_all
  note k0 = kmalloc_obtain [OF own this]
  obtain p s1 where k: "kmalloc 96 s = Some (p, s1)" "p \<noteq> 0" "heap_only s s1"
    "heap_owns s1 (insert (p, 96) L)" "p \<notin> fst ` L" "keeps L (mem s) (mem s1)"
    "grows (16 + 96) (placement_address s) (placement_address s1)" by (rule k0) blast
  note h = heap_only_procs [OF k(3)]
  have pg: "\<forall>m. page_room s (112 + m) \<longrightarrow> page_room s1 m"
    using room by (intro allI impI kmalloc_page_room [OF own _ _ k(1)]) simp_all
  have px: "p \<notin> set xs" using live k(5) by auto
  let ?r = "zero_process\<lparr>proc_id := word_of_int (current_id s + 1)\<rparr>"
  let ?s2 = "s1\<lparr>current_id := current_id s + 1, procs := (procs s)(p \<mapsto> ?r)\<rparr>"
  have pl': "chain (next_process (procs s)) (process_head s) xs" "distinct xs" "\<forall>x \<in> set xs. procs s x \<noteq> None"
    using pl by (simp_all add: process_list_def)
  show ?thesis
  proof (cases "xs = []")
    case True
    then have "process_head s = 0" using process_list_empty [OF pl] by simp
    then have run: "process_alloc p0 s = Some (0, p, ?s2\<lparr>process_head := p, process_tail := p\<rparr>)"
      by (simp add: process_alloc_def k(1,2) h process_get_free_slot_def)
    have "process_list (?s2\<lparr>process_head := p, process_tail := p\<rparr>) (xs @ [p])"
      using True k(2) by (simp add: process_list_def next_process_def zero_process_def)
    moreover have "process_only s (?s2\<lparr>process_head := p, process_tail := p\<rparr>)"
      by (intro process_only_updates heap_only_process k(3))
    moreover have "\<forall>m. page_room s (112 + m) \<longrightarrow> page_room (?s2\<lparr>process_head := p, process_tail := p\<rparr>) m"
      using pg by (simp add: page_room_def)
    ultimately show ?thesis
      by (intro that [OF run]) (use k h True in \<open>auto simp: zero_process_def\<close>)
  next
    case False
    define t where "t = last xs"
    then obtain ys where xs: "xs = ys @ [t]" using False by (metis append_butlast_last_id)
    have t: "process_tail s = t" "t \<noteq> p" "process_head s \<noteq> 0"
      using pl px xs False process_list_empty [OF pl] by (auto simp: process_list_def)
    obtain r where r: "procs s t = Some r" using pl'(3) xs by auto
    let ?s3 = "?s2\<lparr>procs := ((procs s)(p \<mapsto> ?r))(t \<mapsto> r\<lparr>proc_next := p\<rparr>), process_tail := p\<rparr>"
    have run: "process_alloc p0 s = Some (0, p, ?s3)"
      using t r by (simp add: process_alloc_def k(1,2) h process_get_free_slot_def)
    have "next_process (procs ?s3) = (next_process (procs s))(t := p, p := 0)"
      using t(2) by (auto simp: next_process_upd zero_process_def)
    moreover have "chain ((next_process (procs s))(t := p, p := 0)) (process_head s) (ys @ [t, p])"
      using pl'(1,2) px k(2) xs by (intro chain_link [where ys = "[]"]) auto
    ultimately have "process_list ?s3 (xs @ [p])"
      using pl' px xs h by (auto simp: process_list_def)
    moreover have "process_only s ?s3"
      by (intro process_only_updates heap_only_process k(3))
    moreover have "\<forall>m. page_room s (112 + m) \<longrightarrow> page_room ?s3 m" using pg by (simp add: page_room_def)
    ultimately show ?thesis
      by (intro that [OF run]) (use k h t r in \<open>auto simp: zero_process_def\<close>)
  qed
qed

section \<open>Removing a process\<close>

declare process_before.simps [code] process_last.simps [code] process_find.simps [code]

lemma process_before_runs:
  assumes "chain (next_process ps) p (xs @ a # q # ys)" "distinct (xs @ a # q # ys)"
    "\<forall>x \<in> set (xs @ [a]). ps x \<noteq> None"
  shows "process_before ps q p = Some a"
  using assms
proof (induction xs arbitrary: p)
  case Nil
  then obtain r where "ps a = Some r" by auto
  with Nil show ?case by (subst process_before.simps) (simp add: next_process_def)
next
  case (Cons x xs)
  then obtain r where r: "ps x = Some r" by auto
  have n: "chain (next_process ps) (proc_next r) (xs @ a # q # ys)"
    using Cons.prems(1) r by (auto simp: next_process_Some)
  have "proc_next r \<noteq> q" using n Cons.prems(2) by (cases xs) auto
  moreover have "process_before ps q (proc_next r) = Some a"
    using Cons.prems(2,3) by (intro Cons.IH n) auto
  ultimately show ?case using Cons.prems(1) r by (subst process_before.simps) simp
qed

lemma process_last_runs:
  assumes "chain (next_process ps) p xs" "\<forall>x \<in> set xs. ps x \<noteq> None"
  shows "process_last ps p = Some (if xs = [] then 0 else last xs)"
  using assms
proof (induction xs arbitrary: p)
  case Nil
  then show ?case by (subst process_last.simps) simp
next
  case (Cons x xs)
  then obtain r where r: "ps x = Some r" by auto
  then have n: "chain (next_process ps) (proc_next r) xs"
    using Cons.prems(1) by (auto simp: next_process_Some)
  then have "process_last ps (proc_next r) = Some (if xs = [] then 0 else last xs)"
    using Cons.prems(2) by (intro Cons.IH) auto
  moreover have "proc_next r = 0 \<longleftrightarrow> xs = []" using n by (cases xs) auto
  ultimately show ?case using Cons.prems(1) r by (subst process_last.simps) simp
qed

lemma heap_only_kfree_procs:
  fixes s :: "('d, 'z) procs_scheme"
  shows "procs (kfree q s) = procs s" "process_head (kfree q s) = process_head s"
    "process_tail (kfree q s) = process_tail s" "current_id (kfree q s) = current_id s"
    "current_process (kfree q s) = current_process s"
  by (simp_all add: kfree_def Let_def)

definition same_procs :: "(u32 \<Rightarrow> process option) \<Rightarrow> (u32 \<Rightarrow> process option) \<Rightarrow> bool" where
  "same_procs ps ps' \<longleftrightarrow> (\<forall>x. map_option (\<lambda>r. r\<lparr>proc_next := 0\<rparr>) (ps' x) = map_option (\<lambda>r. r\<lparr>proc_next := 0\<rparr>) (ps x))"

lemma same_procs_refl [simp]: "same_procs ps ps"
  by (simp add: same_procs_def)

lemma same_procs_upd: "ps p = Some r \<Longrightarrow> same_procs ps (ps(p \<mapsto> r\<lparr>proc_next := n\<rparr>))"
  by (simp add: same_procs_def)

lemma same_procs_None: "same_procs ps ps' \<Longrightarrow> ps' x = None \<longleftrightarrow> ps x = None"
  unfolding same_procs_def by (metis map_option_is_None)

lemma process_unlink_spec:
  fixes s :: "('d, 'z) procs_scheme"
  assumes "chain (next_process (procs s)) (process_head s) (xs @ q # ys)" "distinct (xs @ q # ys)"
    "\<forall>x \<in> set (xs @ q # ys). procs s x \<noteq> None" "procs s q = Some r"
  shows "\<exists>ps' h. process_unlink q r s = Some (s\<lparr>procs := ps', process_head := h\<rparr>)
    \<and> chain (next_process ps') h (xs @ ys) \<and> same_procs (procs s) ps'"
proof (cases xs rule: rev_cases)
  case Nil
  then have "q = process_head s" "chain (next_process (procs s)) (proc_next r) ys"
    using assms(1,4) by (auto simp: next_process_Some)
  then show ?thesis using Nil
    by (intro exI [of _ "procs s"] exI [of _ "proc_next r"]) (simp add: process_unlink_def)
next
  case (snoc zs a)
  let ?ps = "procs s"
  obtain r' where r': "?ps a = Some r'" using assms(3) snoc by auto
  have n: "q \<noteq> process_head s" using assms(1,2) snoc by (cases zs) auto
  have a: "a \<noteq> 0" using chain_nonzero [OF assms(1), of a] snoc by simp
  have b: "process_before ?ps q (process_head s) = Some a"
    using assms snoc by (intro process_before_runs [where xs = zs and ys = ys]) auto
  have c: "chain ((next_process ?ps)(a := proc_next r)) (process_head s) (zs @ a # ys)"
    using chain_unlink [of "next_process ?ps" "process_head s" zs a q ys] assms(1,2,4) snoc
    by (simp add: next_process_Some)
  have "process_unlink q r s = Some (s\<lparr>procs := ?ps(a \<mapsto> r'\<lparr>proc_next := proc_next r\<rparr>), process_head := process_head s\<rparr>)"
    using n a b r' by (simp add: process_unlink_def)
  moreover have "chain (next_process (?ps(a \<mapsto> r'\<lparr>proc_next := proc_next r\<rparr>))) (process_head s) (xs @ ys)"
    using c snoc by (simp add: next_process_upd)
  ultimately show ?thesis using same_procs_upd [where ps = ?ps and p = a, OF r'] by blast
qed

lemma process_retail_spec:
  fixes s :: "('d, 'z) procs_scheme"
  assumes "chain (next_process (procs s)) (process_head s) zs" "\<forall>x \<in> set zs. procs s x \<noteq> None"
    and "process_tail s \<noteq> q \<Longrightarrow> zs \<noteq> [] \<Longrightarrow> process_tail s = last zs"
  shows "\<exists>t. process_retail q s = Some (s\<lparr>process_tail := t\<rparr>) \<and> (zs \<noteq> [] \<longrightarrow> t = last zs)"
proof (cases "q = process_tail s")
  case True
  then show ?thesis using process_last_runs [OF assms(1,2)]
    by (intro exI [of _ "if zs = [] then 0 else last zs"]) (simp add: process_retail_def)
next
  case False
  then show ?thesis using assms(3) by (intro exI [of _ "process_tail s"]) (simp add: process_retail_def)
qed

lemma process_free_spec:
  fixes s :: "('d, 'z) procs_scheme"
  assumes pl: "process_list s (xs @ q # ys)" and own: "heap_owns s (insert (q, 96) L)" "q \<notin> fst ` L"
  shows "\<exists>s'. process_free q s = Some s' \<and> process_list s' (xs @ ys) \<and> heap_owns s' L
    \<and> keeps L (mem s) (mem s') \<and> same_procs ((procs s)(q := None)) (procs s')"
proof -
  have P: "chain (next_process (procs s)) (process_head s) (xs @ q # ys)" "distinct (xs @ q # ys)"
    "\<forall>x \<in> set (xs @ q # ys). procs s x \<noteq> None" "process_tail s = last (xs @ q # ys)"
    using pl by (simp_all add: process_list_def)
  obtain r where r: "procs s q = Some r" using P(3) by auto
  obtain ps' h where u: "process_unlink q r s = Some (s\<lparr>procs := ps', process_head := h\<rparr>)"
    "chain (next_process ps') h (xs @ ys)" "same_procs (procs s) ps'"
    using process_unlink_spec [OF P(1-3) r] by blast
  let ?s1 = "s\<lparr>procs := ps', process_head := h\<rparr>"
  have live: "\<forall>x \<in> set (xs @ ys). ps' x \<noteq> None" using P(3) same_procs_None [OF u(3)] by simp
  have tl: "process_tail s \<noteq> q \<Longrightarrow> xs @ ys \<noteq> [] \<Longrightarrow> process_tail s = last (xs @ ys)"
    using P(4) by (cases ys) auto
  obtain t where t: "process_retail q ?s1 = Some (?s1\<lparr>process_tail := t\<rparr>)" "xs @ ys \<noteq> [] \<longrightarrow> t = last (xs @ ys)"
    using process_retail_spec [of ?s1 "xs @ ys" q] u(2) live tl by auto
  let ?s2 = "?s1\<lparr>process_tail := t\<rparr>"
  let ?s3 = "(kfree q ?s2)\<lparr>procs := ps'(q := None)\<rparr>"
  have run: "process_free q s = Some ?s3" using r u(1) t(1) by (simp add: process_free_def)
  have own2: "heap_owns ?s2 (insert (q, 96) L)" using own(1) by simp
  note f = free_block [OF own2 own(2)]
  have "q \<notin> set (xs @ ys)" using P(2) by auto
  then have "chain (next_process (ps'(q := None))) h (xs @ ys)"
    using u(2) by (simp add: next_process_upd chain_fun_upd)
  then have "process_list ?s3 (xs @ ys)"
    using P(2) live t(2) \<open>q \<notin> set (xs @ ys)\<close> by (auto simp: process_list_def heap_only_kfree_procs)
  moreover have "same_procs ((procs s)(q := None)) (procs ?s3)"
    using u(3) by (simp add: same_procs_def)
  moreover have "heap_owns ?s3 L" "keeps L (mem s) (mem ?s3)" using f(1,3) by simp_all
  ultimately show ?thesis using run by blast
qed

section \<open>Looking up a process\<close>

lemma process_find_runs:
  assumes "chain (next_process ps) p xs" "\<forall>x \<in> set xs. ps x \<noteq> None"
  shows "process_find ps i p = Some (case List.find (\<lambda>x. uint (proc_id (the (ps x))) = i) xs of
    None \<Rightarrow> 0 | Some x \<Rightarrow> x)"
  using assms
proof (induction xs arbitrary: p)
  case Nil
  then show ?case by (subst process_find.simps) simp
next
  case (Cons x xs)
  then obtain r where r: "ps x = Some r" by auto
  then have n: "chain (next_process ps) (proc_next r) xs"
    using Cons.prems(1) by (auto simp: next_process_Some)
  show ?case
    using Cons.prems r Cons.IH [OF n] by (subst process_find.simps) simp
qed

section \<open>Properties\<close>

text \<open>The list as a value: the processes from the head on, without their links.\<close>

definition process_values :: "('d, 'z) procs_scheme \<Rightarrow> u32 list \<Rightarrow> process list" where
  "process_values s xs = map (\<lambda>x. (the (procs s x))\<lparr>proc_next := 0\<rparr>) xs"

lemma same_procs_values:
  assumes "same_procs ps ps'" "ps x \<noteq> None"
  shows "(the (ps' x))\<lparr>proc_next := 0\<rparr> = (the (ps x))\<lparr>proc_next := 0\<rparr>"
  using assms by (cases "ps' x"; cases "ps x") (auto simp: same_procs_def dest: spec [of _ x])

text \<open>A kernel after \<open>boot_vfs\<close> that has not made a process.\<close>

definition boot_procs :: "ata \<Rightarrow> ata procs" where
  "boot_procs d = vfs.extend (boot_vfs d)
     \<lparr>process_head = 0, process_tail = 0, current_process = 0, current_id = 0, procs = Map.empty\<rparr>"

lemma boot_procs_simps [simp]:
  "process_list (boot_procs d) []" "current_id (boot_procs d) = 0" "placement_address (boot_procs d) = 0x20000"
  "dev (boot_procs d) = d" "file_descriptors (boot_procs d) = replicate 512 0" "fds (boot_procs d) = Map.empty"
  "two_disks (boot_procs d)" "fat_registered (fat16_at 0x1000) 0x1000 (boot_procs d)" "cr0 (boot_procs d) = 0"
  "process_head (boot_procs d) = 0"
  by (simp_all add: boot_procs_def vfs.extend_def process_list_def boot_vfs_eq fat.extend_def two_disks_def
    fat_registered_def fat16_at_def boot_fat_def boot_paths_def paths.extend_def disk.extend_def boot_disk_def
    keyboard.extend_def boot_keyboard_def cpu.extend_def boot_cpu_def paging.extend_def)

lemma boot_procs_owns [simp]: "heap_owns (boot_procs d) {}"
  by (rule heap_owns_empty; simp add: boot_procs_def vfs.extend_def boot_vfs_eq fat.extend_def boot_fat_def
    boot_paths_def paths.extend_def disk.extend_def boot_disk_def keyboard.extend_def boot_keyboard_def
    cpu.extend_def boot_cpu_def)

text \<open>C14: \<open>process_alloc\<close> appends one process to the end of the list: zeroed but for its id, which is
  the next number kept to 16 bits; the processes before it stay as they were, in their order, and so
  does all memory that was owned.\<close>

theorem process_alloc_appends:
  fixes s :: "('d, 'z) procs_scheme"
  assumes "process_list s xs" and "heap_owns s L" and "set xs \<subseteq> fst ` L"
    and "unat (placement_address s) + 112 < 4294967296"
  shows "\<exists>p s'. process_alloc p0 s = Some (0, p, s') \<and> process_list s' (xs @ [p])
    \<and> process_values s' (xs @ [p]) = process_values s xs @ [zero_process\<lparr>proc_id := word_of_int (current_id s + 1)\<rparr>]
    \<and> current_id s' = current_id s + 1 \<and> heap_owns s' (insert (p, 96) L) \<and> p \<notin> fst ` L \<and> keeps L (mem s) (mem s')"
proof -
  note k0 = process_alloc_spec [OF assms]
  obtain p s' where a: "process_alloc p0 s = Some (0, p, s')" "process_list s' (xs @ [p])"
    "heap_owns s' (insert (p, 96) L)" "p \<notin> fst ` L" "keeps L (mem s) (mem s')" "current_id s' = current_id s + 1"
    "procs s' p = Some (zero_process\<lparr>proc_id := word_of_int (current_id s + 1)\<rparr>)"
    "\<And>q r. q \<noteq> p \<Longrightarrow> procs s q = Some r \<Longrightarrow> \<exists>n. procs s' q = Some (r\<lparr>proc_next := n\<rparr>)"
    by (rule k0) blast
  have "(the (procs s' x))\<lparr>proc_next := 0\<rparr> = (the (procs s x))\<lparr>proc_next := 0\<rparr>" if "x \<in> set xs" for x
  proof -
    obtain r where r: "procs s x = Some r" using assms(1) \<open>x \<in> set xs\<close> by (auto simp: process_list_def)
    have "x \<noteq> p" using assms(3) a(4) \<open>x \<in> set xs\<close> by auto
    then show ?thesis using a(8) [OF _ r] r by auto
  qed
  then have "process_values s' (xs @ [p]) = process_values s xs @ [zero_process\<lparr>proc_id := word_of_int (current_id s + 1)\<rparr>]"
    using a(7) by (simp add: process_values_def zero_process_def)
  then show ?thesis using a by blast
qed

theorem process_alloc_appends_witness:
  "\<exists>p s'. process_alloc 0 (boot_procs sample_drives) = Some (0, p, s') \<and> process_values s' [p] = [zero_process\<lparr>proc_id := 1\<rparr>]"
  using process_alloc_appends [of "boot_procs sample_drives" "[]" "{}" 0] by (auto simp: process_values_def)



text \<open>\<open>process_get\<close> returns the first process of the list whose id is the number asked for, or NULL;
  the id of a process is a 16-bit field, so no number beyond 65535 is ever found, although the counter of
  \<open>process_get_free_slot\<close> passes it.\<close>

theorem process_get_finds:
  fixes s :: "('d, 'z) procs_scheme"
  assumes "process_list s xs"
  shows "process_get i s = Some (case List.find (\<lambda>x. uint (proc_id (the (procs s x))) = i) xs of None \<Rightarrow> 0 | Some x \<Rightarrow> x)
    \<and> (65535 < i \<longrightarrow> process_get i s = Some 0)"
proof -
  have g: "process_get i s = Some (case List.find (\<lambda>x. uint (proc_id (the (procs s x))) = i) xs of None \<Rightarrow> 0 | Some x \<Rightarrow> x)"
    using assms process_find_runs [of "procs s" "process_head s" xs i] by (simp add: process_get_def process_list_def)
  moreover have "List.find (\<lambda>x. uint (proc_id (the (procs s x))) = i) xs = None" if "65535 < i"
  proof -
    have "uint (proc_id (the (procs s x))) \<noteq> i" for x
    proof -
      have "uint (proc_id (the (procs s x))) < 2 ^ LENGTH(16)" by (rule uint_lt2p)
      then show ?thesis using that by simp
    qed
    then show ?thesis unfolding find_None_iff by blast
  qed
  ultimately show ?thesis by simp
qed

theorem process_get_finds_witness: "process_get 1 (boot_procs sample_drives) = Some 0 \<and> process_get 65536 (boot_procs sample_drives) = Some 0"
  using process_get_finds [of "boot_procs sample_drives" "[]" 1] process_get_finds [of "boot_procs sample_drives" "[]" 65536] by simp

end
