(* ===== verification/AddressSpace.thy ===== *)
theory AddressSpace
  imports Process
begin

text \<open>
  Address spaces as the loader and the tasks see them: a page directory whose own blocks, the
  directory and its tables, are apart from the blocks \<open>L\<close> of everybody else. Building one, mapping
  pages in it, and what leaves it alone. \<open>K\<close> are all blocks, the directory's included.
\<close>

section \<open>Directories apart from other memory\<close>

definition space :: "('d, 'z) kheap_scheme \<Rightarrow> (u32 \<times> nat) set \<Rightarrow> (u32 \<times> nat) set \<Rightarrow> u32 \<Rightarrow> bool" where
  "space h L K d \<longleftrightarrow> pd_ok h K d \<and> L \<subseteq> K \<and> d \<notin> fst ` L \<and> tables (mem h) d \<inter> fst ` L = {}"

lemma space_owns: "space h L K d \<Longrightarrow> heap_owns h K"
  by (simp add: space_def pd_ok_def)

lemma space_cong:
  assumes "space h L K d" "mem h' = mem h" "placement_address h' = placement_address h" "global_base h' = global_base h"
  shows "space h' L K d"
  using assms pd_ok_same [of h K d h'] by (simp add: space_def)

lemma space_new:
  fixes h :: "('d, 'z) kheap_scheme"
  assumes own: "heap_owns h L" and page: "page_room h (20 + m)" and fl: "fg AND 1 = 1"
    and room: "unat (placement_address h) + 139556 < 4294967296"
  obtains c d h' K where "paging_new_4gb fg h = Some (c, h')" "c \<noteq> 0" "c \<notin> fst ` L"
    "read32 (mem h') c = d" "heap_only h h'" "space h' (insert (c, 4) L) K d"
    "\<And>v. mmu_walk (mem h') d v = (if unat v < 64 * 1024 * 1024 then Some ((v AND 0xFFFFF000) OR ucast fg) else None)"
    "keeps L (mem h) (mem h')" "page_room h' m" "unat (placement_address h') \<le> unat (placement_address h) + 139556"
proof -
  have "unat (placement_address h) + 8208 * 17 + 20 < 4294967296" using room by simp
  note n0 = paging_new_4gb_spec [OF own page_room_fits [OF page] fl this]
  obtain c d h' K where n: "paging_new_4gb fg h = Some (c, h')"
    "paging_4gb_chunk_get_directory c h' = d" "heap_only h h'" "pd_ok h' K d" "insert (c, 4) L \<subseteq> K"
    "\<forall>v. mmu_walk (mem h') d v = (if unat v < 64 * 1024 * 1024 then Some ((v AND 0xFFFFF000) OR ucast fg) else None)"
    "\<forall>q k x. (q, k) \<in> L \<longrightarrow> x \<in> region q k \<longrightarrow> mem h' x = mem h x"
    "c \<noteq> 0" "c \<notin> fst ` L" "d \<notin> fst ` insert (c, 4) L" "tables (mem h') d \<inter> fst ` insert (c, 4) L = {}"
    "\<forall>m. page_room h (20 + m) \<longrightarrow> page_room h' m"
    "unat (placement_address h') \<le> unat (placement_address h) + (8208 * 17 + 20)"
    using n0 by (elim exE conjE) (rule that; assumption)
  have "space h' (insert (c, 4) L) K d" using n(4,5,10,11) by (simp add: space_def)
  moreover have "keeps L (mem h) (mem h')" using n(7) by (simp add: keeps_def del: in_region)
  ultimately show ?thesis
    using n(13) by (intro that [OF n(1) n(8) n(9) _ n(3)])
      (use n(2,6,12) page in \<open>simp_all only: paging_4gb_chunk_get_directory_def\<close>, blast?)
qed

lemma space_set:
  fixes s :: "('d, 'z) paging_scheme"
  assumes sp: "space s L K d" and al: "paging_is_aligned virt" and page: "page_room s m"
    and room: "unat (placement_address s) + 8208 < 4294967296"
  obtains s' K' where "paging_set d virt e s = Some (0, s')" "space s' L K' d"
    "\<And>v. mmu_walk (mem s') d v = (if unat v div 4096 = unat virt div 4096
        then if e AND 1 = 0 then None else Some e else mmu_walk (mem s) d v)"
    "keeps L (mem s) (mem s')" "paging_only s s'" "page_room s' m" "K \<subseteq> K'"
    "unat (placement_address s') \<le> unat (placement_address s) + 8208"
proof -
  have ok: "pd_ok s K d" using sp by (simp add: space_def)
  obtain s' K' where p: "paging_set d virt e s = Some (0, s')" "pd_ok s' K' d" "K \<subseteq> K'"
    "\<forall>v. mmu_walk (mem s') d v = (if unat v div 4096 = unat virt div 4096
        then if e AND 1 = 0 then None else Some e else mmu_walk (mem s) d v)"
    "\<forall>q k x. (q, k) \<in> K \<longrightarrow> q \<noteq> d \<longrightarrow> q \<notin> tables (mem s) d \<longrightarrow> x \<in> region q k \<longrightarrow> mem s' x = mem s x"
    "tables (mem s') d \<inter> fst ` K \<subseteq> tables (mem s) d" "paging_only s s'"
    "\<forall>m. page_room s m \<longrightarrow> page_room s' m" "unat (placement_address s') \<le> unat (placement_address s) + 8208"
    using paging_set_spec [OF ok al page_room_fits [OF page] room, of e] by (elim exE conjE) (rule that; assumption)
  have "fst ` L \<subseteq> fst ` K" using sp by (auto simp: space_def)
  moreover have "tables (mem s) d \<inter> fst ` L = {}" "L \<subseteq> K" "d \<notin> fst ` L" using sp by (simp_all add: space_def)
  ultimately have "space s' L K' d" unfolding space_def using p(2,3,6) by blast
  moreover have "keeps L (mem s) (mem s')"
    unfolding keeps_def
  proof (intro allI impI)
    fix q k x assume q: "(q, k) \<in> L" "x \<in> region q k"
    then have "(q, k) \<in> K" "q \<noteq> d" "q \<notin> tables (mem s) d" using sp by (force simp: space_def)+
    then show "mem s' x = mem s x" using p(5) q(2) by blast
  qed
  ultimately show ?thesis
    by (intro that [OF p(1)]) (use p(3,4,7,8,9) page in \<open>simp_all\<close>)
qed

text \<open>Other blocks come and are written; the directory and its translations stay.\<close>

lemma space_frame:
  fixes h h' :: "('d, 'z) kheap_scheme"
  assumes sp: "space h L K d" and own: "heap_owns h' K'" "K \<subseteq> K'" and L: "L' \<subseteq> K'" "fst ` L' \<inter> fst ` K \<subseteq> fst ` L"
    and kept: "\<forall>q k x. (q, k) \<in> K \<longrightarrow> q \<notin> fst ` L \<longrightarrow> x \<in> region q k \<longrightarrow> mem h' x = mem h x"
  shows "space h' L' K' d" "mmu_walk (mem h') d v = mmu_walk (mem h) d v"
proof -
  have ok: "pd_ok h K d" using sp by (simp add: space_def)
  note D = pd_okD [OF ok]
  have keep: "mem h' x = mem h x" if "(q, k) \<in> K" "q \<notin> fst ` L" "x \<in> region q k" for q k x
    using kept that by blast
  have dK: "(d, 4096) \<in> K" "d \<notin> fst ` L" using D(2) sp by (simp_all add: space_def)
  have pde': "pde (mem h') d i = pde (mem h) d i" if "i < 1024" for i
    unfolding pde_def by (rule read_block_cong [OF D(2,1) that keep [OF dK]])
  then have tab: "pde_table (mem h') d i = pde_table (mem h) d i" if "i < 1024" for i
    using that by (simp add: pde_table_def)
  have tables': "tables (mem h') d = tables (mem h) d" using pde' by (rule tables_cong)
  have inL: "pde_table (mem h) d i \<notin> fst ` L" if "i < 1024" "pde (mem h) d i \<noteq> 0" for i
    using sp that by (auto simp: space_def tables_def)
  have "pd_ok h' K' d"
    using ok own by (auto simp: pd_ok_def pde' tab)
  moreover have "d \<notin> fst ` L'"
  proof -
    have "d \<in> fst ` K" using dK by force
    then show ?thesis using dK(2) L(2) by blast
  qed
  moreover have "tables (mem h) d \<inter> fst ` L' = {}"
  proof -
    have "tables (mem h) d \<subseteq> fst ` K" using D(4) by (force simp: tables_def)
    moreover have "tables (mem h) d \<inter> fst ` L = {}" using sp by (simp add: space_def)
    ultimately show ?thesis using L(2) by blast
  qed
  ultimately show "space h' L' K' d"
    using L(1) tables' by (simp add: space_def)
  have "read32 (mem h') (entry_addr (pde_table (mem h) d (dir_index v)) (table_index v))
      = read32 (mem h) (entry_addr (pde_table (mem h) d (dir_index v)) (table_index v))"
    if "pde (mem h) d (dir_index v) \<noteq> 0"
  proof (rule read_block_cong [OF _ D(1) table_index_less])
    show t: "(pde_table (mem h) d (dir_index v), 4096) \<in> K" using D(4) [OF dir_index_less that] by simp
    show "mem h' x = mem h x" if "x \<in> region (pde_table (mem h) d (dir_index v)) 4096" for x
      by (rule keep [OF t inL [OF dir_index_less \<open>pde _ _ _ \<noteq> 0\<close>] that])
  qed
  then show "mmu_walk (mem h') d v = mmu_walk (mem h) d v"
    by (cases "pde (mem h) d (dir_index v) = 0") (simp_all add: mmu_walk_def pde' tab Let_def)
qed

lemma space_alloc:
  fixes h h' :: "('d, 'z) kheap_scheme"
  assumes sp: "space h L K d" and own: "heap_owns h' (insert (p, n) K)" and p: "p \<notin> fst ` K"
    and keep: "keeps K (mem h) (mem h')"
  shows "space h' (insert (p, n) L) (insert (p, n) K) d" "mmu_walk (mem h') d v = mmu_walk (mem h) d v"
proof -
  have L: "insert (p, n) L \<subseteq> insert (p, n) K" "fst ` insert (p, n) L \<inter> fst ` K \<subseteq> fst ` L"
    using sp p by (auto simp: space_def)
  have k: "\<forall>q k x. (q, k) \<in> K \<longrightarrow> q \<notin> fst ` L \<longrightarrow> x \<in> region q k \<longrightarrow> mem h' x = mem h x"
    using keep by (simp add: keeps_def del: in_region)
  show "space h' (insert (p, n) L) (insert (p, n) K) d" "mmu_walk (mem h') d v = mmu_walk (mem h) d v"
    by (rule space_frame [OF sp own subset_insertI L k])+
qed

lemma space_write:
  fixes h :: "('d, 'z) kheap_scheme"
  assumes sp: "space h L K d" and p: "(p, n) \<in> L" and out: "\<And>x. x \<notin> region p n \<Longrightarrow> m' x = mem h x"
  shows "space (h\<lparr>mem := m'\<rparr>) L K d" "mmu_walk m' d v = mmu_walk (mem h) d v"
proof -
  have K: "heap_owns h K" "(p, n) \<in> K" "L \<subseteq> K" using sp p by (auto simp: space_def pd_ok_def)
  have own: "heap_owns (h\<lparr>mem := m'\<rparr>) K"
  proof (rule heap_owns_write [OF K(1)])
    show "m' x = mem h x" if "\<forall>q k. (q, k) \<in> K \<longrightarrow> x \<notin> region q k" for x
      using that K(2) by (intro out) blast
  qed
  have "mem (h\<lparr>mem := m'\<rparr>) x = mem h x" if "(q, k) \<in> K" "q \<notin> fst ` L" "x \<in> region q k" for q k x
  proof -
    have "q \<noteq> p" using that(2) p by force
    then have "region q k \<inter> region p n = {}" using that(1) K(2) by (intro heap_owns_disjoint [OF K(1)])
    then show ?thesis using that(3) out by (simp del: in_region) blast
  qed
  then have k: "\<forall>q k x. (q, k) \<in> K \<longrightarrow> q \<notin> fst ` L \<longrightarrow> x \<in> region q k \<longrightarrow> mem (h\<lparr>mem := m'\<rparr>) x = mem h x"
    by blast
  note F = space_frame [OF sp own subset_refl K(3) _ k]
  show "space (h\<lparr>mem := m'\<rparr>) L K d" by (rule F) blast
  show "mmu_walk m' d v = mmu_walk (mem h) d v" using F(2) [of v] by simp
qed

section \<open>Bytes in RAM\<close>

text \<open>\<open>memset (p, c, n)\<close> on RAM, and the bytes that \<open>fread\<close> puts behind \<open>p\<close>.\<close>

definition fill_bytes :: "u32 \<Rightarrow> u8 \<Rightarrow> nat \<Rightarrow> ram \<Rightarrow> ram" where
  "fill_bytes p c n m = (\<lambda>x. if unat (x - p) < n then c else m x)"

definition put_bytes :: "u32 \<Rightarrow> u8 list \<Rightarrow> ram \<Rightarrow> ram" where
  "put_bytes p bs m = (\<lambda>x. if unat (x - p) < length bs then bs ! unat (x - p) else m x)"

lemma unat_offset:
  fixes x p :: u32
  assumes "unat p + n \<le> 4294967296"
  shows "unat (x - p) < n \<longleftrightarrow> x \<in> region p n" "x \<in> region p n \<Longrightarrow> unat (x - p) = unat x - unat p"
proof -
  show "x \<in> region p n \<Longrightarrow> unat (x - p) = unat x - unat p" by (simp add: unat_minus_le)
  moreover have "unat p \<le> unat x" if "unat (x - p) < n"
  proof -
    have "unat p + unat (x - p) < 4294967296" using that assms by simp
    then have "unat (p + (x - p)) = unat p + unat (x - p)" by (rule unat_plus)
    then show ?thesis by simp
  qed
  ultimately show "unat (x - p) < n \<longleftrightarrow> x \<in> region p n" by (auto simp: unat_minus_le)
qed

lemma fill_bytes_simps:
  assumes "unat p + n \<le> 4294967296"
  shows "x \<notin> region p n \<Longrightarrow> fill_bytes p c n m x = m x" "x \<in> region p n \<Longrightarrow> fill_bytes p c n m x = c"
  using unat_offset [OF assms] by (simp_all add: fill_bytes_def del: in_region)

lemma put_bytes_simps:
  assumes "unat p + length bs \<le> 4294967296"
  shows "x \<notin> region p (length bs) \<Longrightarrow> put_bytes p bs m x = m x"
    "x \<in> region p (length bs) \<Longrightarrow> put_bytes p bs m x = bs ! (unat x - unat p)"
  using unat_offset [OF assms] by (simp_all add: put_bytes_def del: in_region)

section \<open>Mapping a block for a process\<close>

text \<open>Setting fields of \<open>*proc\<close>, and \<open>proc->paging_chunk->directory_entry\<close>.\<close>

definition set_process :: "u32 \<Rightarrow> (process \<Rightarrow> process) \<Rightarrow> ('d, 'z) procs_scheme \<Rightarrow> ('d, 'z) procs_scheme option" where
  "set_process p f s = do { r \<leftarrow> procs s p; Some (s\<lparr>procs := (procs s)(p \<mapsto> f r)\<rparr>) }"

definition process_directory :: "u32 \<Rightarrow> ('d, 'z) procs_scheme \<Rightarrow> u32 option" where
  "process_directory p s = do { r \<leftarrow> procs s p; Some (paging_4gb_chunk_get_directory (paging_chunk r) s) }"

text \<open>The loop of \<open>paging_set\<close> over the pages of a block, \<open>n\<close> iterations: page \<open>k\<close> of the block at
  \<open>phys\<close> appears at \<open>virt\<close> plus \<open>k\<close> pages. The counter is an \<open>int\<close> that steps by 4096.\<close>

definition USER_PAGE :: u32 where
  "USER_PAGE = PAGING_IS_PRESENT OR PAGING_IS_WRITEABLE OR PAGING_ACCESS_FROM_ALL"

fun map_loop :: "u32 \<Rightarrow> u32 \<Rightarrow> u32 \<Rightarrow> nat list \<Rightarrow> ('d, 'z) procs_scheme \<Rightarrow> ('d, 'z) procs_scheme option" where
  "map_loop p virt phys [] s = Some s"
| "map_loop p virt phys (k # ks) s = do {
     d \<leftarrow> process_directory p s;
     (r, s) \<leftarrow> paging_set d (virt + of_nat (4096 * k)) ((phys + of_nat (4096 * k)) OR USER_PAGE) s;
     map_loop p virt phys ks s
   }"

definition map_pages :: "u32 \<Rightarrow> u32 \<Rightarrow> u32 \<Rightarrow> u32 \<Rightarrow> ('d, 'z) procs_scheme \<Rightarrow> ('d, 'z) procs_scheme option" where
  "map_pages p virt phys sz s =
     (if 0x7FFFF000 < unat sz then None
      else map_loop p virt phys [0..<(unat sz + 4095) div 4096] s)"

definition map_vga :: "u32 \<Rightarrow> ('d, 'z) procs_scheme \<Rightarrow> ('d, 'z) procs_scheme option" where
  "map_vga p s = do {
     d \<leftarrow> process_directory p s;
     (r, s) \<leftarrow> paging_set d 0xB8000 (0xB8000 OR USER_PAGE) s;
     Some s
   }"

section \<open>What the loop maps\<close>

definition dir_of :: "('d, 'z) procs_scheme \<Rightarrow> u32 \<Rightarrow> (u32 \<times> nat) set \<Rightarrow> u32 \<Rightarrow> bool" where
  "dir_of s p L d \<longleftrightarrow> (\<exists>r. procs s p = Some r \<and> read32 (mem s) (paging_chunk r) = d \<and> (paging_chunk r, 4) \<in> L)"

lemma dir_of_directory: "dir_of s p L d \<Longrightarrow> process_directory p s = Some d"
  by (auto simp: dir_of_def process_directory_def paging_4gb_chunk_get_directory_def)

lemma paging_only_procs:
  fixes s :: "('d, 'z) procs_scheme"
  assumes "paging_only s s'"
  shows "procs s' = procs s"
proof -
  have e: "s' = s\<lparr>mem := mem s', placement_address := placement_address s', global_base := global_base s',
      invlpg_log := invlpg_log s'\<rparr>" using assms by (simp add: paging_only_def)
  show ?thesis by (subst e) simp
qed

lemma dir_of_keeps:
  fixes s :: "('d, 'z) procs_scheme"
  assumes "dir_of s p L d" "procs s' = procs s" "keeps L (mem s) (mem s')" "heap_owns s K" "L \<subseteq> K" "L \<subseteq> L'"
  shows "dir_of s' p L' d"
proof -
  obtain r where r: "procs s p = Some r" "read32 (mem s) (paging_chunk r) = d" "(paging_chunk r, 4) \<in> L"
    using assms(1) by (auto simp: dir_of_def)
  have "(paging_chunk r, 4) \<in> K" using r(3) assms(5) by blast
  then have "unat (paging_chunk r) + 4 < 4294967296" by (rule heap_owns_bounds(4) [OF assms(4)])
  moreover have "mem s' x = mem s x" if "x \<in> region (paging_chunk r) 4" for x
    using assms(3) r(3) that by (simp add: keeps_def del: in_region)
  ultimately have "read32 (mem s') (paging_chunk r) = read32 (mem s) (paging_chunk r)"
    by (intro read32_cong) (simp_all del: in_region)
  then show ?thesis using r assms(2,6) by (auto simp: dir_of_def)
qed

text \<open>The page of \<open>v\<close>, counted from \<open>virt\<close>.\<close>

definition page_from :: "u32 \<Rightarrow> u32 \<Rightarrow> nat" where
  "page_from virt v = unat (v - virt) div 4096"

lemma aligned_unat: "paging_is_aligned v \<longleftrightarrow> unat v mod 4096 = 0"
proof -
  have "paging_is_aligned v \<longleftrightarrow> unat (v mod 4096) = 0"
    by (simp add: paging_is_aligned_def PAGING_PAGE_SIZE_def unsigned_eq_0_iff)
  then show ?thesis by (simp add: unat_mod)
qed

lemma page_number_sum:
  fixes virt w :: u32
  assumes "paging_is_aligned virt"
  shows "unat (virt + w) div 4096 = (unat virt div 4096 + unat w div 4096) mod 1048576"
proof -
  have m: "unat virt mod 4096 = 0" using assms by (simp add: aligned_unat)
  define a where "a = unat virt div 4096"
  have v: "unat virt = 4096 * a" using m unfolding a_def by (metis mult_div_mod_eq add_0_right)
  have "unat (virt + w) = (4096 * a + unat w) mod (4096 * 1048576)" by (simp add: unat_word_ariths v)
  then have "unat (virt + w) div 4096 = (4096 * a + unat w) div 4096 mod 1048576"
    unfolding mod_mult2_eq by simp
  then show ?thesis by (simp add: a_def [symmetric])
qed

lemma page_sum_cancel:
  fixes a q k :: nat
  assumes "a < 1048576" "q < 1048576" "k < 1048576"
  shows "(a + q) mod 1048576 = (a + k) mod 1048576 \<longleftrightarrow> q = k"
proof -
  have "(a + x) mod 1048576 = (if a + x < 1048576 then a + x else a + x - 1048576)" if "x < 1048576" for x
    using assms(1) that by (simp add: mod_if)
  then show ?thesis using assms by (simp split: if_splits) linarith
qed

lemma page_number_less: "unat (v :: u32) div 4096 < 1048576"
  using unat_less_2p32 [of v] by (simp add: less_mult_imp_div_less)

lemma page_from_same:
  assumes "paging_is_aligned virt" "k < 1048576"
  shows "unat v div 4096 = unat (virt + of_nat (4096 * k)) div 4096 \<longleftrightarrow> page_from virt v = k"
proof -
  have "unat (of_nat (4096 * k) :: u32) = 4096 * k" using assms(2) by (subst unat_of_nat) simp
  then have k: "unat (virt + of_nat (4096 * k)) div 4096 = (unat virt div 4096 + k) mod 1048576"
    using page_number_sum [OF assms(1), of "of_nat (4096 * k)"] by simp
  have "unat (virt + (v - virt)) div 4096 = (unat virt div 4096 + page_from virt v) mod 1048576"
    unfolding page_from_def by (rule page_number_sum [OF assms(1)])
  then show ?thesis
    using page_sum_cancel [OF page_number_less [of virt] page_number_less [of "v - virt"] assms(2)] k
    by (simp add: page_from_def)
qed

lemma aligned_add:
  assumes "paging_is_aligned virt"
  shows "paging_is_aligned (virt + of_nat (4096 * k))"
proof -
  have "unat (virt + of_nat (4096 * k)) = (unat virt + 4096 * k) mod 4294967296"
    by (simp add: unat_word_ariths unat_of_nat mod_simps)
  then have "unat (virt + of_nat (4096 * k)) mod 4096 = (unat virt + 4096 * k) mod 4096"
    by (simp add: mod_mod_cancel)
  then show ?thesis using assms by (simp add: aligned_unat)
qed

lemma map_loop_spec:
  fixes s :: "('d, 'z) procs_scheme"
  assumes "space s L K d" and "dir_of s p L d" and al: "paging_is_aligned virt" and "page_room s m"
    and "\<forall>k \<in> set ks. k < 1048576" and "unat (placement_address s) + 8208 * length ks < 4294967296"
  shows "\<exists>s' K'. map_loop p virt phys ks s = Some s' \<and> space s' L K' d \<and> dir_of s' p L d \<and> paging_only s s'
    \<and> keeps L (mem s) (mem s') \<and> page_room s' m \<and> K \<subseteq> K'
    \<and> unat (placement_address s') \<le> unat (placement_address s) + 8208 * length ks
    \<and> (\<forall>v. mmu_walk (mem s') d v = (if page_from virt v \<in> set ks
        then Some ((phys + of_nat (4096 * page_from virt v)) OR USER_PAGE) else mmu_walk (mem s) d v))"
  using assms(1,2,4-)
proof (induction ks arbitrary: s K)
  case Nil
  then show ?case by (intro exI [of _ s] exI [of _ K]) simp
next
  case (Cons k ks)
  have room: "unat (placement_address s) + 8208 < 4294967296" using Cons.prems(5) by simp
  let ?e = "(phys + of_nat (4096 * k)) OR USER_PAGE"
  note p0 = space_set [OF Cons.prems(1) aligned_add [OF al, of k] Cons.prems(3) room, of ?e]
  obtain s1 K1 where s1: "paging_set d (virt + of_nat (4096 * k)) ?e s = Some (0, s1)" "space s1 L K1 d"
    "\<And>v. mmu_walk (mem s1) d v = (if unat v div 4096 = unat (virt + of_nat (4096 * k)) div 4096
        then if ?e AND 1 = 0 then None else Some ?e else mmu_walk (mem s) d v)"
    "keeps L (mem s) (mem s1)" "paging_only s s1" "page_room s1 m" "K \<subseteq> K1"
    "unat (placement_address s1) \<le> unat (placement_address s) + 8208"
    by (rule p0) blast
  have e: "?e AND 1 \<noteq> 0" by (rule or_bit0) (simp add: USER_PAGE_def paging_consts)
  have w1: "mmu_walk (mem s1) d v = (if page_from virt v = k then Some ?e else mmu_walk (mem s) d v)" for v
    using s1(3) [of v] e page_from_same [OF al, of k v] Cons.prems(4) by simp
  have L: "heap_owns s K" "L \<subseteq> K" using Cons.prems(1) by (auto simp: space_def pd_ok_def)
  have d1: "dir_of s1 p L d"
    by (rule dir_of_keeps [OF Cons.prems(2) paging_only_procs [OF s1(5)] s1(4) L subset_refl])
  have "unat (placement_address s1) + 8208 * length ks < 4294967296" using Cons.prems(5) s1(8) by simp
  from Cons.IH [OF s1(2) d1 s1(6) _ this] Cons.prems(4)
  obtain s2 K2 where s2: "map_loop p virt phys ks s1 = Some s2" "space s2 L K2 d" "dir_of s2 p L d" "paging_only s1 s2"
    "keeps L (mem s1) (mem s2)" "page_room s2 m" "K1 \<subseteq> K2"
    "unat (placement_address s2) \<le> unat (placement_address s1) + 8208 * length ks"
    "\<forall>v. mmu_walk (mem s2) d v = (if page_from virt v \<in> set ks
        then Some ((phys + of_nat (4096 * page_from virt v)) OR USER_PAGE) else mmu_walk (mem s1) d v)"
    by auto
  have "map_loop p virt phys (k # ks) s = Some s2"
    using dir_of_directory [OF Cons.prems(2)] s1(1) s2(1) by simp
  moreover have "mmu_walk (mem s2) d v = (if page_from virt v \<in> set (k # ks)
        then Some ((phys + of_nat (4096 * page_from virt v)) OR USER_PAGE) else mmu_walk (mem s) d v)" for v
    using s2(9) w1 [of v] by auto
  moreover have "unat (placement_address s2) \<le> unat (placement_address s) + 8208 * length (k # ks)"
    using s1(8) s2(8) by simp
  ultimately show ?case
    using s2(2,3,6) paging_only_trans [OF s1(5) s2(4)] keeps_trans [OF s1(4) s2(5) subset_refl] s1(7) s2(7)
    by (intro exI [of _ s2] exI [of _ K2] conjI allI) (assumption | blast)+
qed

section \<open>Allocation beside a directory\<close>

text \<open>A new block for the others: what \<open>kmalloc\<close> and \<open>kmalloc_a\<close> give, and what they keep.\<close>

definition space_grows ::
  "('d, 'z) kheap_scheme \<Rightarrow> (u32 \<times> nat) set \<Rightarrow> (u32 \<times> nat) set \<Rightarrow> u32 \<Rightarrow> ('d, 'z) kheap_scheme
    \<Rightarrow> (u32 \<times> nat) set \<Rightarrow> (u32 \<times> nat) set \<Rightarrow> nat \<Rightarrow> bool" where
  "space_grows h L K d h' L' K' n \<longleftrightarrow> space h' L' K' d \<and> heap_only h h' \<and> keeps L (mem h) (mem h') \<and> L \<subseteq> L' \<and> K \<subseteq> K'
     \<and> (\<forall>v. mmu_walk (mem h') d v = mmu_walk (mem h) d v) \<and> unat (placement_address h') \<le> unat (placement_address h) + n"

lemma space_kmalloc:
  fixes h :: "('d, 'z) kheap_scheme"
  assumes sp: "space h L K d" and n: "unat sz = n" "n \<noteq> 0" "unat (placement_address h) + (16 + n) < 4294967296"
    and page: "page_room h ((16 + n) mod 4096 + m)"
  obtains q h' where "kmalloc sz h = Some (q, h')" "q \<noteq> 0" "q \<notin> fst ` K"
    "space_grows h L K d h' (insert (q, n) L) (insert (q, n) K) (16 + n)" "page_room h' m"
proof -
  note own = space_owns [OF sp]
  note k0 = kmalloc_obtain [OF own n]
  obtain q h' where k: "kmalloc sz h = Some (q, h')" "q \<noteq> 0" "heap_only h h'" "heap_owns h' (insert (q, n) K)"
    "q \<notin> fst ` K" "keeps K (mem h) (mem h')" "grows (16 + n) (placement_address h) (placement_address h')"
    by (rule k0) blast
  have "page_room h' m"
    using n page by (intro kmalloc_page_room [OF own _ _ k(1)]) auto
  moreover have "keeps L (mem h) (mem h')" using k(6) sp by (auto simp: keeps_def space_def simp del: in_region)
  then have "space_grows h L K d h' (insert (q, n) L) (insert (q, n) K) (16 + n)"
    using space_alloc [OF sp k(4,5,6)] k(3,7) by (auto simp: space_grows_def)
  ultimately show ?thesis using that k by blast
qed

lemma space_kmalloc_a:
  fixes h :: "('d, 'z) kheap_scheme"
  assumes sp: "space h L K d" and n: "unat sz = n" "n \<noteq> 0" "unat (placement_address h) + (4112 + n) < 4294967296"
    and page: "page_room h m" "n mod 4096 + m \<le> 4080"
  obtains q h' where "kmalloc_a sz h = Some (q, h')" "q \<noteq> 0" "q AND 0xFFF = 0" "q \<notin> fst ` K"
    "space_grows h L K d h' (insert (q, n) L) (insert (q, n) K) (4112 + n)" "page_room h' m"
proof -
  have "sz \<noteq> 0" "unat (placement_address h) + 4112 + unat sz < 4294967296" using n by auto
  note k0 = kmalloc_a_placed [OF space_owns [OF sp] this(1) page_room_fits [OF page(1)] this(2), unfolded n(1)]
  obtain q h' where k: "kmalloc_a sz h = Some (q, h')" "q \<noteq> 0" "q AND 0xFFF = 0" "heap_only h h'"
    "heap_owns h' (insert (q, n) K)" "\<forall>p k. (p, k) \<in> K \<longrightarrow> p \<noteq> q \<and> (\<forall>x \<in> region p k. mem h' x = mem h x)"
    "placement_address h' = placement_address h \<or> unat (placement_address h') mod 4096 = n mod 4096"
    "unat (placement_address h') \<le> unat (placement_address h) + 4112 + n"
    using k0 by (elim exE conjE) (rule that; assumption)
  have q: "q \<notin> fst ` K" using k(6) by (rule fresh_block)
  have kp: "keeps K (mem h) (mem h')" using k(6) by (simp add: keeps_def del: in_region)
  have "page_room h' m" by (rule page_room_aligned [OF page k(7)])
  moreover have "keeps L (mem h) (mem h')" using kp sp by (auto simp: keeps_def space_def simp del: in_region)
  then have "space_grows h L K d h' (insert (q, n) L) (insert (q, n) K) (4112 + n)"
    using space_alloc [OF sp k(5) q kp] k(4,8) by (auto simp: space_grows_def)
  ultimately show ?thesis using that k q by blast
qed

text \<open>Writing a block of the others.\<close>

lemma space_grows_write:
  fixes h :: "('d, 'z) kheap_scheme"
  assumes g: "space_grows h L K d h' L' K' n" and q: "(q, k) \<in> L'" "q \<notin> fst ` L"
    and out: "\<And>x. x \<notin> region q k \<Longrightarrow> m' x = mem h' x"
  shows "space_grows h L K d (h'\<lparr>mem := m'\<rparr>) L' K' n"
proof -
  have sp: "space h' L' K' d" "L \<subseteq> L'" using g by (simp_all add: space_grows_def)
  have own: "heap_owns h' K'" "L' \<subseteq> K'" using sp(1) by (simp_all add: space_def pd_ok_def)
  have "m' x = mem h' x" if "(p, j) \<in> L" "x \<in> region p j" for p j x
  proof -
    have "p \<noteq> q" using that(1) q(2) by force
    then have "region p j \<inter> region q k = {}"
      using that(1) q(1) sp(2) own(2) by (intro heap_owns_disjoint [OF own(1)]) auto
    then show ?thesis using out that(2) by blast
  qed
  then have "keeps L (mem h) m'" using g by (simp add: space_grows_def keeps_def del: in_region)
  then show ?thesis
    using g space_write [OF sp(1) q(1) out] heap_only_mem by (auto simp: space_grows_def)
qed

end
