(* ===== verification/Elf.thy ===== *)
theory Elf
  imports AddressSpace
begin

text \<open>
  The ELF loader, \<open>src/loader/elf.c\<close>: the two headers as the records that \<open>fread\<close> fills,
  and \<open>elf_load\<close> step by step. The segments are loaded into page-aligned blocks of the kernel
  heap, byte by byte in RAM, and mapped in the process's own page directory.
\<close>

section \<open>Headers\<close>

record Elf32_Ehdr =
  e_ident :: "u8 list"
  e_type :: u16
  e_machine :: u16
  e_version :: u32
  e_entry :: u32
  e_phoff :: u32
  e_shoff :: u32
  e_flags :: u32
  e_ehsize :: u16
  e_phentsize :: u16
  e_phnum :: u16
  e_shentsize :: u16
  e_shnum :: u16
  e_shstrndx :: u16

text \<open>The 52 bytes of a header, as they lie in the file.\<close>

definition read_ehdr :: "u8 list \<Rightarrow> Elf32_Ehdr" where
  "read_ehdr b = \<lparr>
     e_ident = slice 0 16 b, e_type = le16 b 16, e_machine = le16 b 18, e_version = le32 b 20,
     e_entry = le32 b 24, e_phoff = le32 b 28, e_shoff = le32 b 32, e_flags = le32 b 36,
     e_ehsize = le16 b 40, e_phentsize = le16 b 42, e_phnum = le16 b 44, e_shentsize = le16 b 46,
     e_shnum = le16 b 48, e_shstrndx = le16 b 50\<rparr>"

record Elf32_Phdr =
  p_type :: u32
  p_offset :: u32
  p_vaddr :: u32
  p_paddr :: u32
  p_filesz :: u32
  p_memsz :: u32
  p_flags :: u32
  p_align :: u32

definition read_phdr :: "u8 list \<Rightarrow> Elf32_Phdr" where
  "read_phdr b = \<lparr>
     p_type = le32 b 0, p_offset = le32 b 4, p_vaddr = le32 b 8, p_paddr = le32 b 12,
     p_filesz = le32 b 16, p_memsz = le32 b 20, p_flags = le32 b 24, p_align = le32 b 28\<rparr>"

definition PT_LOAD :: u32 where "PT_LOAD = 1"
definition ELFMAG0 :: u8 where "ELFMAG0 = 0x7F"
definition ELFMAG1 :: u8 where "ELFMAG1 = char_of CHR ''E''"
definition ELFMAG2 :: u8 where "ELFMAG2 = char_of CHR ''L''"
definition ELFMAG3 :: u8 where "ELFMAG3 = char_of CHR ''F''"
definition ELFCLASS32 :: u8 where "ELFCLASS32 = 1"

lemmas elf_consts = ELFMAG0_def ELFMAG1_def ELFMAG2_def ELFMAG3_def ELFCLASS32_def PT_LOAD_def

definition elf_is_valid_header :: "Elf32_Ehdr \<Rightarrow> bool" where
  "elf_is_valid_header header \<longleftrightarrow> e_ident header ! 0 = ELFMAG0 \<and> e_ident header ! 1 = ELFMAG1
     \<and> e_ident header ! 2 = ELFMAG2 \<and> e_ident header ! 3 = ELFMAG3 \<and> e_ident header ! 4 = ELFCLASS32"

definition elf_get_entry_point :: "Elf32_Ehdr \<Rightarrow> u32" where
  "elf_get_entry_point header = e_entry header"

section \<open>Reading into RAM\<close>

text \<open>\<open>fread (ptr, sz, 1, fd)\<close> into an object of \<open>n\<close> bytes in RAM; more bytes than that are an
  access out of bounds.\<close>

definition fread_into ::
  "(u32 \<Rightarrow> ('d, 'z) vfs_scheme filesystem option) \<Rightarrow> u32 \<Rightarrow> nat \<Rightarrow> u32 \<Rightarrow> int \<Rightarrow> ('d, 'z) vfs_scheme
    \<Rightarrow> (int \<times> ('d, 'z) vfs_scheme) option" where
  "fread_into fss ptr n sz fd s = do {
     (r, bs, s) \<leftarrow> fread fss sz 1 fd s;
     if n < length bs then None else Some (r, s\<lparr>mem := put_bytes ptr bs (mem s)\<rparr>)
   }"

text \<open>\<open>strcpy (proc->name, filename)\<close>: the array has 32 bytes.\<close>

definition set_name :: "u32 \<Rightarrow> u8 list \<Rightarrow> ('d, 'z) procs_scheme \<Rightarrow> ('d, 'z) procs_scheme option" where
  "set_name p fname s = do {
     r \<leftarrow> procs s p;
     nm \<leftarrow> strcpy (proc_name r) fname;
     set_process p (\<lambda>r. r\<lparr>proc_name := nm\<rparr>) s
   }"

section \<open>Loading\<close>

text \<open>One \<open>PT_LOAD\<close> segment; the result is 0, or -1 after its block has been freed again.\<close>

definition load_segment ::
  "(u32 \<Rightarrow> ('d, 'z) procs_scheme filesystem option) \<Rightarrow> int \<Rightarrow> u32 \<Rightarrow> Elf32_Phdr \<Rightarrow> ('d, 'z) procs_scheme
    \<Rightarrow> (int \<times> ('d, 'z) procs_scheme) option" where
  "load_segment fss fd p ph s = do {
     (phys, s) \<leftarrow> kmalloc_a (p_memsz ph) s;
     let s = s\<lparr>mem := fill_bytes phys 0 (unat (p_memsz ph)) (mem s)\<rparr>;
     current_pos \<leftarrow> ftell fss fd s;
     (_, s) \<leftarrow> fseek fss fd (sint (p_offset ph)) FILE_SEEK_SET s;
     (r, s) \<leftarrow> fread_into fss phys (unat (p_memsz ph)) (p_filesz ph) fd s;
     if r \<noteq> 1 then Some (-1, kfree phys s)
     else do {
       (_, s) \<leftarrow> fseek fss fd current_pos FILE_SEEK_SET s;
       s \<leftarrow> map_pages p (p_vaddr ph) phys (p_memsz ph) s;
       Some (0, s)
     }
   }"

text \<open>The loop over the program headers, \<open>n\<close> of them to go.\<close>

primrec load_segments ::
  "(u32 \<Rightarrow> ('d, 'z) procs_scheme filesystem option) \<Rightarrow> int \<Rightarrow> u32 \<Rightarrow> nat \<Rightarrow> ('d, 'z) procs_scheme
    \<Rightarrow> (int \<times> ('d, 'z) procs_scheme) option" where
  "load_segments fss fd p 0 s = Some (0, s)"
| "load_segments fss fd p (Suc n) s = do {
     (r, bs, s) \<leftarrow> fread fss 32 1 fd s;
     if r \<noteq> 1 then Some (-1, s)
     else (let ph = read_phdr bs in
       if p_type ph = PT_LOAD then do {
         (r, s) \<leftarrow> load_segment fss fd p ph s;
         if r \<noteq> 0 then Some (r, s) else load_segments fss fd p n s
       } else load_segments fss fd p n s)
   }"

text \<open>\<open>elf_load\<close> between \<open>fopen\<close> and the label \<open>out\<close>; \<open>p0\<close> is \<open>*process\<close> before.\<close>

definition elf_load_fd ::
  "(u32 \<Rightarrow> ('d, 'z) procs_scheme filesystem option) \<Rightarrow> u8 list \<Rightarrow> int \<Rightarrow> u32 \<Rightarrow> ('d, 'z) procs_scheme
    \<Rightarrow> (int \<times> u32 \<times> ('d, 'z) procs_scheme) option" where
  "elf_load_fd fss fname fd p0 s = do {
     (r, bs, s) \<leftarrow> fread fss 52 1 fd s;
     if r \<noteq> 1 then Some (-1, p0, s)
     else (let header = read_ehdr bs in
       if \<not> elf_is_valid_header header then Some (-1, p0, s)
       else do {
         (res, p, s) \<leftarrow> process_alloc 0 s;
         if res < 0 then Some (res, p0, s)
         else do {
           s \<leftarrow> set_name p fname s;
           (chunk, s) \<leftarrow> paging_new_4gb (ucast (PAGING_IS_PRESENT OR PAGING_IS_WRITEABLE)) s;
           s \<leftarrow> set_process p (\<lambda>r. r\<lparr>paging_chunk := chunk\<rparr>) s;
           s \<leftarrow> map_vga p s;
           (_, s) \<leftarrow> fseek fss fd (sint (e_phoff header)) FILE_SEEK_SET s;
           (res, s) \<leftarrow> load_segments fss fd p (unat (e_phnum header)) s;
           if res \<noteq> 0 then Some (res, p0, s)
           else do {
             s \<leftarrow> set_process p (\<lambda>r. r\<lparr>proc_ptr := e_entry header\<rparr>) s;
             Some (res, p, s)
           }
         }
       })
   }"

definition elf_load ::
  "(u32 \<Rightarrow> ('d, 'z) procs_scheme filesystem option) \<Rightarrow> u8 list \<Rightarrow> u32 \<Rightarrow> ('d, 'z) procs_scheme
    \<Rightarrow> (int \<times> u32 \<times> ('d, 'z) procs_scheme) option" where
  "elf_load fss fname p0 s = do {
     (fd, s) \<leftarrow> fopen fss fname (lit ''r'') s;
     if fd < 0 then Some (-1, p0, s)
     else do {
       (res, p, s) \<leftarrow> elf_load_fd fss fname fd p0 s;
       (_, s) \<leftarrow> fclose fss fd s;
       Some (res, p, s)
     }
   }"

end
