(* ===== verification/Loader.thy ===== *)
theory Loader
  imports Elf
begin

text \<open>
  \<open>process_load\<close> of \<open>src/task/process.c\<close>: it looks at the first four bytes of the file, hands an
  ELF file to \<open>elf_load\<close>, and loads any other file as a raw program at \<open>0x400000\<close>.
\<close>

section \<open>Operations\<close>

text \<open>The magic number: 0, the initial value of the variable, where \<open>fread\<close> gave too few bytes.\<close>

definition read_magic ::
  "(u32 \<Rightarrow> ('d, 'z) vfs_scheme filesystem option) \<Rightarrow> int \<Rightarrow> ('d, 'z) vfs_scheme \<Rightarrow> (int \<times> u32 \<times> ('d, 'z) vfs_scheme) option" where
  "read_magic fss fd s = do {
     (r, bs, s) \<leftarrow> fread fss 4 1 fd s;
     Some (r, if r = 1 then le32 bs 0 else 0, s)
   }"

text \<open>The raw program, after \<open>process_alloc\<close> has made process \<open>p\<close>.\<close>

definition load_raw_file ::
  "(u32 \<Rightarrow> ('d, 'z) procs_scheme filesystem option) \<Rightarrow> int \<Rightarrow> u32 \<Rightarrow> u32 \<Rightarrow> ('d, 'z) procs_scheme
    \<Rightarrow> (int \<times> u32 \<times> ('d, 'z) procs_scheme) option" where
  "load_raw_file fss fd p p0 s = do {
     (r, st) \<leftarrow> fstat fss fd s;
     if r \<noteq> 0 then Some (-1, p0, s)
     else do {
       st \<leftarrow> st;
       let sz = stat_filesize st;
       s \<leftarrow> set_process p (\<lambda>r. r\<lparr>proc_size := sz\<rparr>) s;
       (ptr, s) \<leftarrow> kmalloc_a sz s;
       s \<leftarrow> set_process p (\<lambda>r. r\<lparr>proc_ptr := ptr\<rparr>) s;
       if ptr = 0 then Some (-1, p0, s)
       else do {
         (r, s) \<leftarrow> fread_into fss ptr (unat sz) sz fd s;
         if r \<noteq> 1 then Some (-1, p0, s)
         else do {
           (_, s) \<leftarrow> fclose fss fd s;
           (chunk, s) \<leftarrow> paging_new_4gb (ucast (PAGING_IS_PRESENT OR PAGING_IS_WRITEABLE)) s;
           s \<leftarrow> set_process p (\<lambda>r. r\<lparr>paging_chunk := chunk\<rparr>) s;
           if chunk = 0 then Some (-1, p0, s)
           else if 0x7FC00000 < unat sz then None
           else do {
             s \<leftarrow> map_pages p 0x400000 ptr sz s;
             s \<leftarrow> map_vga p s;
             s \<leftarrow> set_process p (\<lambda>r. r\<lparr>proc_ptr := 0x400000\<rparr>) s;
             Some (0, p, s)
           }
         }
       }
     }
   }"

definition load_raw ::
  "(u32 \<Rightarrow> ('d, 'z) procs_scheme filesystem option) \<Rightarrow> u8 list \<Rightarrow> u32 \<Rightarrow> ('d, 'z) procs_scheme
    \<Rightarrow> (int \<times> u32 \<times> ('d, 'z) procs_scheme) option" where
  "load_raw fss fname p0 s = do {
     (res, p, s) \<leftarrow> process_alloc 0 s;
     if res < 0 then Some (res, p0, s)
     else do {
       s \<leftarrow> set_name p fname s;
       (fd, s) \<leftarrow> fopen fss fname (lit ''r'') s;
       if fd < 0 then Some (-1, p0, s) else load_raw_file fss fd p p0 s
     }
   }"

definition process_load ::
  "(u32 \<Rightarrow> ('d, 'z) procs_scheme filesystem option) \<Rightarrow> u8 list \<Rightarrow> u32 \<Rightarrow> ('d, 'z) procs_scheme
    \<Rightarrow> (int \<times> u32 \<times> ('d, 'z) procs_scheme) option" where
  "process_load fss fname p0 s = do {
     (fd, s) \<leftarrow> fopen fss fname (lit ''r'') s;
     if fd < 0 then Some (-1, p0, s)
     else do {
       (r, magic, s) \<leftarrow> read_magic fss fd s;
       (_, s) \<leftarrow> fclose fss fd s;
       if r \<noteq> 1 then Some (-1, p0, s)
       else if magic = 0x464C457F then elf_load fss fname p0 s
       else load_raw fss fname p0 s
     }
   }"

end
