(* ===== verification/Task.thy ===== *)
theory Task
  imports AddressSpace
begin

text \<open>
  Tasks, \<open>src/task/task.c\<close> and \<open>src/task/task.asm\<close>: the doubly linked list of tasks, the stacks a
  new task gets, and the ways into user mode and to a user program's memory. \<open>struct task\<close> objects
  are in the store \<open>tasks\<close>; the stacks are RAM.
\<close>

section \<open>State\<close>

record user_registers =
  u_edi :: u32
  u_esi :: u32
  u_ebp :: u32
  u_ebx :: u32
  u_edx :: u32
  u_ecx :: u32
  u_eax :: u32
  u_eip :: u32
  u_cs :: u32
  u_eflags :: u32
  u_esp :: u32
  u_ss :: u32

record task =
  regs :: user_registers
  task_process :: u32
  task_next :: u32
  task_prev :: u32
  user_stack :: u32
  kstack :: u32

record 'd tasks = "'d procs" +
  current_task :: u32
  task_tail :: u32
  task_head :: u32
  tasks :: "u32 \<Rightarrow> task option"

definition zero_registers :: user_registers where
  "zero_registers = \<lparr>u_edi = 0, u_esi = 0, u_ebp = 0, u_ebx = 0, u_edx = 0, u_ecx = 0, u_eax = 0,
     u_eip = 0, u_cs = 0, u_eflags = 0, u_esp = 0, u_ss = 0\<rparr>"

definition zero_task :: task where
  "zero_task = \<lparr>regs = zero_registers, task_process = 0, task_next = 0, task_prev = 0, user_stack = 0, kstack = 0\<rparr>"

text \<open>Setting fields of \<open>*t\<close>; \<open>None\<close> where \<open>t\<close> is not the address of a task.\<close>

definition set_task :: "u32 \<Rightarrow> (task \<Rightarrow> task) \<Rightarrow> ('d, 'z) tasks_scheme \<Rightarrow> ('d, 'z) tasks_scheme option" where
  "set_task t f s = do { r \<leftarrow> tasks s t; Some (s\<lparr>tasks := (tasks s)(t \<mapsto> f r)\<rparr>) }"

section \<open>New tasks\<close>

text \<open>A stack of 16 KB, zeroed; the result is NULL when there is none.\<close>

definition new_stack :: "('d, 'z) kheap_scheme \<Rightarrow> (u32 \<times> ('d, 'z) kheap_scheme) option" where
  "new_stack s = do {
     (stack, s) \<leftarrow> kmalloc 16384 s;
     Some (stack, if stack = 0 then s else s\<lparr>mem := fill_bytes stack 0 16384 (mem s)\<rparr>)
   }"

definition user_regs :: "u32 \<Rightarrow> u32 \<Rightarrow> user_registers" where
  "user_regs stack_top ptr =
     zero_registers\<lparr>u_ss := 0x23, u_esp := stack_top, u_cs := 0x1B, u_eip := ptr, u_eflags := 0x202\<rparr>"

text \<open>The loop that maps the four pages from \<open>stack_page\<close> on, which is \<open>map_loop\<close> with equal addresses.\<close>

definition task_init :: "u32 \<Rightarrow> u32 \<Rightarrow> ('d, 'z) tasks_scheme \<Rightarrow> (int \<times> ('d, 'z) tasks_scheme) option" where
  "task_init t p s = do {
     s \<leftarrow> Some (s\<lparr>tasks := (tasks s)(t \<mapsto> zero_task\<lparr>task_process := p\<rparr>)\<rparr>);
     (ustack, s) \<leftarrow> new_stack s;
     s \<leftarrow> set_task t (\<lambda>r. r\<lparr>user_stack := ustack\<rparr>) s;
     if ustack = 0 then Some (-1, s)
     else do {
       (ks, s) \<leftarrow> new_stack s;
       s \<leftarrow> set_task t (\<lambda>r. r\<lparr>kstack := ks\<rparr>) s;
       if ks = 0 then Some (-1, kfree ustack s)
       else do {
         pr \<leftarrow> procs s p;
         s \<leftarrow> set_task t (\<lambda>r. r\<lparr>regs := user_regs (ustack + 16383) (proc_ptr pr)\<rparr>) s;
         let stack_page = ustack AND 0xFFFFF000;
         s \<leftarrow> map_loop p stack_page stack_page [0..<4] s;
         Some (0, s)
       }
     }
   }"

definition task_new :: "u32 \<Rightarrow> ('d, 'z) tasks_scheme \<Rightarrow> (u32 \<times> ('d, 'z) tasks_scheme) option" where
  "task_new p s = do {
     (t, s) \<leftarrow> kmalloc 68 s;
     if t = 0 then Some (0, s)
     else do {
       (r, s) \<leftarrow> task_init t p s;
       if r \<noteq> 0 then Some (0, (kfree t s)\<lparr>tasks := (tasks s)(t := None)\<rparr>)
       else if task_head s = 0 then
         Some (t, snd (process_switch p (s\<lparr>task_head := t, task_tail := t, current_task := t\<rparr>)))
       else do {
         s \<leftarrow> set_task (task_tail s) (\<lambda>r. r\<lparr>task_next := t\<rparr>) s;
         s \<leftarrow> set_task t (\<lambda>r. r\<lparr>task_prev := task_tail s\<rparr>) s;
         Some (t, s\<lparr>task_tail := t\<rparr>)
       }
     }
   }"

definition task_current :: "('d, 'z) tasks_scheme \<Rightarrow> u32" where
  "task_current s = current_task s"

text \<open>\<open>task_unlink\<close>: \<open>task_free\<close> up to the release of the memory.\<close>

definition task_unlink :: "u32 \<Rightarrow> ('d, 'z) tasks_scheme \<Rightarrow> ('d, 'z) tasks_scheme option" where
  "task_unlink t s = do {
     r \<leftarrow> tasks s t;
     s \<leftarrow> (if task_prev r \<noteq> 0 then set_task (task_prev r) (\<lambda>q. q\<lparr>task_next := task_next r\<rparr>) s else Some s);
     r \<leftarrow> tasks s t;
     s \<leftarrow> (if task_next r \<noteq> 0 then set_task (task_next r) (\<lambda>q. q\<lparr>task_prev := task_prev r\<rparr>) s else Some s);
     r \<leftarrow> tasks s t;
     let s = (if t = task_head s then s\<lparr>task_head := task_next r\<rparr> else s);
     let s = (if t = task_tail s then s\<lparr>task_tail := task_prev r\<rparr> else s);
     Some (if t = current_task s then s\<lparr>current_task := task_head s\<rparr> else s)
   }"

definition task_free :: "u32 \<Rightarrow> ('d, 'z) tasks_scheme \<Rightarrow> ('d, 'z) tasks_scheme option" where
  "task_free t s = do {
     s \<leftarrow> task_unlink t s;
     r \<leftarrow> tasks s t;
     let s = (if user_stack r \<noteq> 0 then kfree (user_stack r) s else s);
     let s = (if kstack r \<noteq> 0 then kfree (kstack r) s else s);
     Some ((kfree t s)\<lparr>tasks := (tasks s)(t := None)\<rparr>)
   }"

section \<open>Into user mode\<close>

text \<open>The processor's registers after the \<open>iret\<close> of \<open>task_return\<close>: it does not come back.\<close>

record user_context =
  cpu_regs :: user_registers
  data_segs :: u16

definition task_return :: "user_registers \<Rightarrow> user_context" where
  "task_return r = \<lparr>cpu_regs = r, data_segs = ucast (u_ss r)\<rparr>"

definition task_directory :: "u32 \<Rightarrow> ('d, 'z) tasks_scheme \<Rightarrow> u32 option" where
  "task_directory t s = do { r \<leftarrow> tasks s t; process_directory (task_process r) s }"

definition task_switch :: "u32 \<Rightarrow> ('d, 'z) tasks_scheme \<Rightarrow> (user_context \<times> ('d, 'z) tasks_scheme) option" where
  "task_switch t s = do {
     let s = s\<lparr>current_task := t\<rparr>;
     r \<leftarrow> tasks s t;
     let s = snd (process_switch (task_process r) s);
     d \<leftarrow> task_directory t s;
     let s = paging_switch d s;
     let s = s\<lparr>tss := (tss s)\<lparr>tss_esp0 := kstack r + 16383\<rparr>\<rparr>;
     Some (task_return (regs r), s)
   }"

section \<open>User memory\<close>

text \<open>Accesses by way of the page tables; a page fault stops the kernel.\<close>

definition load_byte :: "u32 \<Rightarrow> ('d, 'z) paging_scheme \<Rightarrow> u8 option" where
  "load_byte v s = do { a \<leftarrow> cpu_translate s v; Some (mem s a) }"

definition store_byte :: "u32 \<Rightarrow> u8 \<Rightarrow> ('d, 'z) paging_scheme \<Rightarrow> ('d, 'z) paging_scheme option" where
  "store_byte v c s = do { a \<leftarrow> cpu_translate s v; Some (s\<lparr>mem := (mem s)(a := c)\<rparr>) }"

text \<open>The loop over \<open>i\<close>, \<open>n\<close> rounds to go; the result is the \<open>i\<close> it ends with.\<close>

fun copy_loop :: "u32 \<Rightarrow> u32 \<Rightarrow> nat \<Rightarrow> nat \<Rightarrow> ('d, 'z) paging_scheme \<Rightarrow> (nat \<times> ('d, 'z) paging_scheme) option" where
  "copy_loop v phys i 0 s = Some (i, s)"
| "copy_loop v phys i (Suc n) s = do {
     c \<leftarrow> load_byte (v + of_nat i) s;
     s \<leftarrow> store_byte (phys + of_nat i) c s;
     c \<leftarrow> load_byte (v + of_nat i) s;
     if c = 0 then Some (i, s) else copy_loop v phys (Suc i) n s
   }"

definition task_copy_string_from_user ::
  "u32 \<Rightarrow> u32 \<Rightarrow> u32 \<Rightarrow> int \<Rightarrow> ('d, 'z) tasks_scheme \<Rightarrow> (int \<times> ('d, 'z) tasks_scheme) option" where
  "task_copy_string_from_user t virt phys n s =
     (if n \<le> 0 then Some (-1, s)
      else do {
        old_directory \<leftarrow> task_directory (task_current s) s;
        d \<leftarrow> task_directory t s;
        let s = paging_switch d s;
        (i, s) \<leftarrow> copy_loop virt phys 0 (nat (n - 1)) s;
        s \<leftarrow> store_byte (phys + of_nat i) 0 s;
        Some (int i, paging_switch old_directory s)
      })"

definition task_get_stack_item :: "u32 \<Rightarrow> int \<Rightarrow> ('d, 'z) tasks_scheme \<Rightarrow> (u32 \<times> ('d, 'z) tasks_scheme) option" where
  "task_get_stack_item t n s = do {
     old_directory \<leftarrow> task_directory (task_current s) s;
     d \<leftarrow> task_directory t s;
     let s = paging_switch d s;
     r \<leftarrow> tasks s t;
     let sp = u_esp (regs r) + 4 * word_of_int n;
     b0 \<leftarrow> load_byte sp s;
     b1 \<leftarrow> load_byte (sp + 1) s;
     b2 \<leftarrow> load_byte (sp + 2) s;
     b3 \<leftarrow> load_byte (sp + 3) s;
     let x = le32 [b0, b1, b2, b3] 0;
     Some (x, paging_switch old_directory s)
   }"

section \<open>A kernel without tasks\<close>

definition boot_tasks :: "ata \<Rightarrow> ata tasks" where
  "boot_tasks d = procs.extend (boot_procs d) \<lparr>current_task = 0, task_tail = 0, task_head = 0, tasks = Map.empty\<rparr>"

section \<open>The list of tasks\<close>

definition next_task :: "(u32 \<Rightarrow> task option) \<Rightarrow> u32 \<Rightarrow> u32" where
  "next_task ts t = (case ts t of None \<Rightarrow> 0 | Some r \<Rightarrow> Task.task_next r)"

definition prev_task :: "(u32 \<Rightarrow> task option) \<Rightarrow> u32 \<Rightarrow> u32" where
  "prev_task ts t = (case ts t of None \<Rightarrow> 0 | Some r \<Rightarrow> task_prev r)"

text \<open>The tasks in the list are the live blocks \<open>xs\<close>, linked in both directions.\<close>

definition task_list :: "('d, 'z) tasks_scheme \<Rightarrow> u32 list \<Rightarrow> bool" where
  "task_list s xs \<longleftrightarrow> chain (next_task (tasks s)) (task_head s) xs \<and> chain (prev_task (tasks s)) (task_tail s) (rev xs)
     \<and> distinct xs \<and> (\<forall>x \<in> set xs. tasks s x \<noteq> None)"

text \<open>What a task is but for its place in the list.\<close>

definition task_core :: "task \<Rightarrow> task" where
  "task_core r = r\<lparr>Task.task_next := 0, task_prev := 0\<rparr>"

definition task_values :: "('d, 'z) tasks_scheme \<Rightarrow> u32 list \<Rightarrow> task list" where
  "task_values s xs = map (\<lambda>x. task_core (the (tasks s x))) xs"

lemma task_core_links [simp]: "task_core (r\<lparr>Task.task_next := a\<rparr>) = task_core r" "task_core (r\<lparr>task_prev := a\<rparr>) = task_core r"
  by (simp_all add: task_core_def)

lemma task_values_cong:
  assumes "\<And>x. x \<in> set xs \<Longrightarrow> tasks s x \<noteq> None" "\<And>x. x \<in> set xs \<Longrightarrow> map_option task_core (tasks s' x) = map_option task_core (tasks s x)"
  shows "task_values s' xs = task_values s xs"
  unfolding task_values_def using assms by (fastforce intro!: map_cong)

lemma task_links_Some: "ts t = Some r \<Longrightarrow> next_task ts t = Task.task_next r" "ts t = Some r \<Longrightarrow> prev_task ts t = task_prev r"
  by (simp_all add: next_task_def prev_task_def)

lemma task_links_upd:
  "next_task (ts(t \<mapsto> r)) = (next_task ts)(t := Task.task_next r)" "prev_task (ts(t \<mapsto> r)) = (prev_task ts)(t := task_prev r)"
  "next_task (ts(t := None)) = (next_task ts)(t := 0)" "prev_task (ts(t := None)) = (prev_task ts)(t := 0)"
  by (auto simp: next_task_def prev_task_def)

lemma heap_owns_tasks [simp]:
  fixes s :: "('d, 'z) tasks_scheme"
  shows "heap_owns (s\<lparr>tasks := f\<rparr>) L \<longleftrightarrow> heap_owns s L" "heap_owns (s\<lparr>task_head := a\<rparr>) L \<longleftrightarrow> heap_owns s L"
    "heap_owns (s\<lparr>task_tail := a\<rparr>) L \<longleftrightarrow> heap_owns s L" "heap_owns (s\<lparr>current_task := a\<rparr>) L \<longleftrightarrow> heap_owns s L"
  by (rule heap_owns_same; simp)+

text \<open>Taking \<open>t\<close> out of a list that is linked by \<open>nxt\<close>.\<close>

lemma unlink_node:
  assumes "chain nxt p (xs @ t # ys)" "distinct (xs @ t # ys)"
  shows "chain (if xs = [] then nxt else nxt(last xs := nxt t)) (if t = p then nxt t else p) (xs @ ys)"
    "t = p \<longleftrightarrow> xs = []" "nxt t = (if ys = [] then 0 else hd ys)" "ys \<noteq> [] \<Longrightarrow> hd ys \<noteq> 0"
proof -
  show e: "t = p \<longleftrightarrow> xs = []" using assms by (cases xs) auto
  have ch: "chain nxt (nxt t) ys" using assms(1) by (auto simp: chain_append)
  then show n: "nxt t = (if ys = [] then 0 else hd ys)" by (cases ys) auto
  show "ys \<noteq> [] \<Longrightarrow> hd ys \<noteq> 0" using ch by (cases ys) auto
  show "chain (if xs = [] then nxt else nxt(last xs := nxt t)) (if t = p then nxt t else p) (xs @ ys)"
  proof (cases xs rule: rev_cases)
    case Nil
    then show ?thesis using ch e by simp
  next
    case (snoc zs a)
    then show ?thesis using chain_unlink [of nxt p zs a t ys] assms e by simp
  qed
qed

lemma if_updates:
  fixes s :: "('d, 'z) tasks_scheme"
  shows "(if b then s\<lparr>task_head := x\<rparr> else s) = s\<lparr>task_head := (if b then x else task_head s)\<rparr>"
    "(if b then s\<lparr>task_tail := x\<rparr> else s) = s\<lparr>task_tail := (if b then x else task_tail s)\<rparr>"
    "(if b then s\<lparr>current_task := x\<rparr> else s) = s\<lparr>current_task := (if b then x else current_task s)\<rparr>"
  by simp_all

lemma task_unlink_spec:
  fixes s :: "('d, 'z) tasks_scheme"
  assumes tl: "task_list s (xs @ t # ys)" and r: "tasks s t = Some r"
  shows "\<exists>ts h l c. task_unlink t s = Some (s\<lparr>tasks := ts, task_head := h, task_tail := l, current_task := c\<rparr>)
    \<and> task_list (s\<lparr>tasks := ts, task_head := h, task_tail := l, current_task := c\<rparr>) (xs @ ys) \<and> ts t = Some r
    \<and> (\<forall>x. map_option task_core (ts x) = map_option task_core (tasks s x))
    \<and> c = (if t = current_task s then case xs @ ys of [] \<Rightarrow> 0 | x # _ \<Rightarrow> x else current_task s)"
proof -
  let ?ts = "tasks s"
  have P: "chain (next_task ?ts) (task_head s) (xs @ t # ys)" "chain (prev_task ?ts) (task_tail s) (rev ys @ t # rev xs)"
    "distinct (xs @ t # ys)" "\<forall>x \<in> set (xs @ t # ys). ?ts x \<noteq> None"
    using tl by (simp_all add: task_list_def)
  have "distinct (rev ys @ t # rev xs)" using P(3) by auto
  note N = unlink_node [OF P(1,3)] and B = unlink_node [OF P(2) this]
  have links: "Task.task_next r = next_task ?ts t" "task_prev r = prev_task ?ts t" using r by (simp_all add: task_links_Some)
  define ts1 where "ts1 = (if xs = [] then ?ts else ?ts(last xs \<mapsto> (the (?ts (last xs)))\<lparr>Task.task_next := next_task ?ts t\<rparr>))"
  define ts2 where "ts2 = (if ys = [] then ts1 else ts1(hd ys \<mapsto> (the (ts1 (hd ys)))\<lparr>task_prev := prev_task ?ts t\<rparr>))"
  have p0: "task_prev r = (if xs = [] then 0 else last xs)" "xs \<noteq> [] \<Longrightarrow> last xs \<noteq> 0"
    using links(2) B(3,4) by (simp_all add: hd_rev)
  have n0: "Task.task_next r = (if ys = [] then 0 else hd ys)" "ys \<noteq> [] \<Longrightarrow> hd ys \<noteq> 0" using links(1) N(3,4) by simp_all
  have lt: "xs \<noteq> [] \<Longrightarrow> last xs \<noteq> t" "ys \<noteq> [] \<Longrightarrow> hd ys \<noteq> t" "xs \<noteq> [] \<Longrightarrow> ys \<noteq> [] \<Longrightarrow> last xs \<noteq> hd ys"
    using P(3) last_in_set hd_in_set by (fastforce)+
  have live: "xs \<noteq> [] \<Longrightarrow> ?ts (last xs) \<noteq> None" "ys \<noteq> [] \<Longrightarrow> ?ts (hd ys) \<noteq> None"
    using P(4) last_in_set hd_in_set by simp_all
  have t1: "ts1 t = Some r" using lt(1) r by (auto simp: ts1_def)
  then have t2: "ts2 t = Some r" using lt(2) by (auto simp: ts2_def)
  have s1: "(if task_prev r \<noteq> 0 then set_task (task_prev r) (\<lambda>q. q\<lparr>Task.task_next := Task.task_next r\<rparr>) s else Some s)
      = Some (s\<lparr>tasks := ts1\<rparr>)"
    using p0 live(1) links(1) by (auto simp: ts1_def set_task_def)
  have ts1h: "ys \<noteq> [] \<Longrightarrow> ts1 (hd ys) \<noteq> None" using live(2) by (auto simp: ts1_def)
  have s2: "(if Task.task_next r \<noteq> 0 then set_task (Task.task_next r) (\<lambda>q. q\<lparr>task_prev := task_prev r\<rparr>) (s\<lparr>tasks := ts1\<rparr>) else Some (s\<lparr>tasks := ts1\<rparr>))
      = Some (s\<lparr>tasks := ts2\<rparr>)"
    using n0 ts1h links(2) by (auto simp: ts2_def set_task_def)
  define h where "h = (if t = task_head s then next_task ?ts t else task_head s)"
  define l where "l = (if t = task_tail s then prev_task ?ts t else task_tail s)"
  define c where "c = (if t = current_task s then h else current_task s)"
  have run: "task_unlink t s = Some (s\<lparr>tasks := ts2, task_head := h, task_tail := l, current_task := c\<rparr>)"
  proof -
    have u1: "tasks (s\<lparr>tasks := ts1\<rparr>) t = Some r" "tasks (s\<lparr>tasks := ts2\<rparr>) t = Some r" using t1 t2 by simp_all
    have "task_unlink t s = (let s = s\<lparr>tasks := ts2\<rparr>; s = (if t = task_head s then s\<lparr>task_head := Task.task_next r\<rparr> else s);
        s = (if t = task_tail s then s\<lparr>task_tail := task_prev r\<rparr> else s)
      in Some (if t = current_task s then s\<lparr>current_task := task_head s\<rparr> else s))"
      unfolding task_unlink_def r bind.bind_lunit s1 u1 s2 Let_def ..
    then show ?thesis
      unfolding h_def l_def c_def links [symmetric] Let_def if_updates by simp
  qed
  have n1: "next_task ts1 = (if xs = [] then next_task ?ts else (next_task ?ts)(last xs := next_task ?ts t))"
    "prev_task ts1 = prev_task ?ts"
    using live(1) by (auto simp: ts1_def task_links_upd task_links_Some fun_eq_iff)
  have nt: "next_task ts2 = (if xs = [] then next_task ?ts else (next_task ?ts)(last xs := next_task ?ts t))"
    and pt: "prev_task ts2 = (if ys = [] then prev_task ?ts else (prev_task ?ts)(hd ys := prev_task ?ts t))"
    using ts1h n1(2) unfolding n1(1) [symmetric] by (auto simp: ts2_def task_links_upd task_links_Some fun_eq_iff)
  have "ys \<noteq> [] \<Longrightarrow> last (rev ys) = hd ys" by (simp add: last_rev)
  then have "chain (next_task ts2) h (xs @ ys)" "chain (prev_task ts2) l (rev (xs @ ys))"
    using N(1) B(1) by (simp_all add: nt pt h_def l_def split: if_splits)
  moreover have "\<forall>x \<in> set (xs @ ys). ts2 x \<noteq> None" using P(4) by (auto simp: ts2_def ts1_def)
  ultimately have list': "task_list (s\<lparr>tasks := ts2, task_head := h, task_tail := l, current_task := c\<rparr>) (xs @ ys)"
    using P(3) by (simp add: task_list_def)
  have "h = (case xs @ ys of [] \<Rightarrow> 0 | x # _ \<Rightarrow> x)"
    using \<open>chain (next_task ts2) h (xs @ ys)\<close> by (cases "xs @ ys") auto
  then have cc: "c = (if t = current_task s then case xs @ ys of [] \<Rightarrow> 0 | x # _ \<Rightarrow> x else current_task s)"
    unfolding c_def by simp
  have core: "map_option task_core (tasks s x) = map_option task_core (ts1 x)" for x using live(1) by (auto simp: ts1_def)
  have "\<forall>x. map_option task_core (ts2 x) = map_option task_core (tasks s x)" using ts1h unfolding core by (auto simp: ts2_def)
  then show ?thesis using run list' t2 cc by (intro exI conjI)
qed

lemma heap_only_kfree_tasks:
  fixes s :: "('d, 'z) tasks_scheme"
  shows "tasks (kfree q s) = tasks s" "task_head (kfree q s) = task_head s" "task_tail (kfree q s) = task_tail s"
    "current_task (kfree q s) = current_task s"
  by (simp_all add: kfree_def Let_def)

lemma task_list_same:
  "tasks s' = tasks s \<Longrightarrow> task_head s' = task_head s \<Longrightarrow> task_tail s' = task_tail s \<Longrightarrow> task_list s' xs \<longleftrightarrow> task_list s xs"
  by (simp add: task_list_def)

text \<open>The blocks of a task, in the order they are released.\<close>

definition task_blocks :: "u32 \<Rightarrow> task \<Rightarrow> (u32 \<times> nat) set" where
  "task_blocks t r = {(user_stack r, 16384), (kstack r, 16384), (t, 68)}"

lemma task_free_spec:
  fixes s :: "('d, 'z) tasks_scheme"
  assumes tl: "task_list s (xs @ t # ys)" and r: "tasks s t = Some r"
    and own: "heap_owns s (task_blocks t r \<union> L)" "distinct [user_stack r, kstack r, t]"
      "{user_stack r, kstack r, t} \<inter> fst ` L = {}"
    and nz: "user_stack r \<noteq> 0" "kstack r \<noteq> 0"
  shows "\<exists>s'. task_free t s = Some s' \<and> task_list s' (xs @ ys) \<and> heap_owns s' L \<and> keeps L (mem s) (mem s')
    \<and> tasks s' t = None \<and> (\<forall>x. x \<noteq> t \<longrightarrow> map_option task_core (tasks s' x) = map_option task_core (tasks s x))
    \<and> current_task s' = (if t = current_task s then case xs @ ys of [] \<Rightarrow> 0 | x # _ \<Rightarrow> x else current_task s)"
proof -
  obtain ts h l c where u: "task_unlink t s = Some (s\<lparr>tasks := ts, task_head := h, task_tail := l, current_task := c\<rparr>)"
    "task_list (s\<lparr>tasks := ts, task_head := h, task_tail := l, current_task := c\<rparr>) (xs @ ys)" "ts t = Some r"
    "\<forall>x. map_option task_core (ts x) = map_option task_core (tasks s x)"
    "c = (if t = current_task s then case xs @ ys of [] \<Rightarrow> 0 | x # _ \<Rightarrow> x else current_task s)"
    using task_unlink_spec [OF tl r] by (elim exE conjE) (rule that; assumption)
  let ?s1 = "s\<lparr>tasks := ts, task_head := h, task_tail := l, current_task := c\<rparr>"
  let ?s2 = "kfree (user_stack r) ?s1"
  let ?s3 = "kfree (kstack r) ?s2"
  let ?s4 = "kfree t ?s3"
  have o1: "heap_owns ?s1 (insert (user_stack r, 16384) (insert (kstack r, 16384) (insert (t, 68) L)))"
    using own(1) by (simp add: task_blocks_def)
  have "user_stack r \<notin> fst ` insert (kstack r, 16384) (insert (t, 68) L)" using own(2,3) by auto
  note f1 = free_block [OF o1 this]
  have "kstack r \<notin> fst ` insert (t, 68) L" using own(2,3) by auto
  note f2 = free_block [OF f1(1) this]
  have "t \<notin> fst ` L" using own(3) by auto
  note f3 = free_block [OF f2(1) this]
  let ?s5 = "?s4\<lparr>tasks := ts(t := None)\<rparr>"
  have run: "task_free t s = Some ?s5"
    using u(1,3) nz by (simp add: task_free_def heap_only_kfree_tasks Let_def)
  have "t \<notin> set (xs @ ys)" using tl by (auto simp: task_list_def)
  then have "task_list ?s5 (xs @ ys)"
    using u(2) by (auto simp: task_list_def task_links_upd chain_fun_upd heap_only_kfree_tasks)
  moreover have "keeps L (mem s) (mem ?s5)"
  proof -
    have "keeps L (mem ?s1) (mem ?s2)" "keeps L (mem ?s2) (mem ?s3)"
      using f1(3) f2(3) by (auto simp: keeps_def simp del: in_region)
    then have "keeps L (mem ?s1) (mem ?s4)" using f3(3) by (simp add: keeps_def del: in_region)
    then show ?thesis by simp
  qed
  moreover have "heap_owns ?s5 L" using f3(1) by simp
  ultimately show ?thesis using run u(4,5) by (intro exI [of _ ?s5]) (simp add: heap_only_kfree_tasks)
qed

section \<open>A new task\<close>

text \<open>What making a task may change besides the list.\<close>

definition tasks_only :: "('d, 'z) tasks_scheme \<Rightarrow> ('d, 'z) tasks_scheme \<Rightarrow> bool" where
  "tasks_only s s' \<longleftrightarrow> s' = s\<lparr>mem := mem s', placement_address := placement_address s', global_base := global_base s',
     invlpg_log := invlpg_log s', tasks := tasks s'\<rparr>"

lemma tasks_only_trans: "tasks_only s s' \<Longrightarrow> tasks_only s' s'' \<Longrightarrow> tasks_only s s''"
  unfolding tasks_only_def by (erule ssubst [of s'']) (erule ssubst [of s' _ "\<lambda>z. _ z = _ z"] | simp)+

lemma tasks_only_paging: "paging_only s s' \<Longrightarrow> tasks_only s s'"
  for s :: "('d, 'z) tasks_scheme"
  unfolding paging_only_def tasks_only_def by (erule ssubst) simp

lemma tasks_only_update [simp]: "tasks_only s (s\<lparr>tasks := ts\<rparr>)"
  by (simp add: tasks_only_def)

lemma tasks_onlyD:
  fixes s :: "('d, 'z) tasks_scheme"
  assumes "tasks_only s s'"
  shows "task_head s' = task_head s" "task_tail s' = task_tail s" "current_task s' = current_task s" "procs s' = procs s"
    "current_process s' = current_process s" "cr3 s' = cr3 s" "cr0 s' = cr0 s" "current_directory s' = current_directory s"
proof -
  have e: "s' = s\<lparr>mem := mem s', placement_address := placement_address s', global_base := global_base s',
      invlpg_log := invlpg_log s', tasks := tasks s'\<rparr>" using assms by (simp add: tasks_only_def)
  show "task_head s' = task_head s" "task_tail s' = task_tail s" "current_task s' = current_task s" "procs s' = procs s"
    "current_process s' = current_process s" "cr3 s' = cr3 s" "cr0 s' = cr0 s" "current_directory s' = current_directory s"
    by (subst e, simp)+
qed

lemma paging_only_tasks:
  fixes s :: "('d, 'z) tasks_scheme"
  assumes "paging_only s s'"
  shows "tasks s' = tasks s"
proof -
  have e: "s' = s\<lparr>mem := mem s', placement_address := placement_address s', global_base := global_base s',
      invlpg_log := invlpg_log s'\<rparr>" using assms by (simp add: paging_only_def)
  show ?thesis by (subst e) simp
qed

lemma space_same:
  "mem h' = mem h \<Longrightarrow> placement_address h' = placement_address h \<Longrightarrow> global_base h' = global_base h
    \<Longrightarrow> space h' L K d \<longleftrightarrow> space h L K d"
  using space_cong [of h L K d h'] space_cong [of h' L K d h] by auto

lemma dir_of_cong: "procs s' = procs s \<Longrightarrow> mem s' = mem s \<Longrightarrow> dir_of s' p L d \<longleftrightarrow> dir_of s p L d"
  by (simp add: dir_of_def)

lemma tasks_updates [simp]:
  fixes s :: "('d, 'z) tasks_scheme"
  shows "space (s\<lparr>tasks := f\<rparr>) L K d \<longleftrightarrow> space s L K d" "space (s\<lparr>task_head := a\<rparr>) L K d \<longleftrightarrow> space s L K d"
    "space (s\<lparr>task_tail := a\<rparr>) L K d \<longleftrightarrow> space s L K d" "space (s\<lparr>current_task := a\<rparr>) L K d \<longleftrightarrow> space s L K d"
    "space (s\<lparr>current_process := a\<rparr>) L K d \<longleftrightarrow> space s L K d"
    "page_room (s\<lparr>tasks := f\<rparr>) m \<longleftrightarrow> page_room s m"
    "dir_of (s\<lparr>tasks := f\<rparr>) p L d \<longleftrightarrow> dir_of s p L d"
  by (rule space_same; simp)+ (simp_all add: page_room_def dir_of_def)

lemma new_stack_spec:
  fixes s :: "('d, 'z) kheap_scheme"
  assumes sp: "space s L K d" and room: "unat (placement_address s) + 16400 < 4294967296" and page: "page_room s (16 + m)"
  obtains q s' where "new_stack s = Some (q, s')" "q \<noteq> 0" "q \<notin> fst ` K" "page_room s' m"
    "space_grows s L K d s' (insert (q, 16384) L) (insert (q, 16384) K) 16400" "\<forall>x \<in> region q 16384. mem s' x = 0"
proof -
  have "unat (16384 :: u32) = 16384" "(16384 :: nat) \<noteq> 0" "unat (placement_address s) + (16 + 16384) < 4294967296"
    "page_room s ((16 + 16384) mod 4096 + m)" using room page by simp_all
  note k0 = space_kmalloc [OF sp this]
  obtain q h where k: "kmalloc 16384 s = Some (q, h)" "q \<noteq> 0" "q \<notin> fst ` K"
    "space_grows s L K d h (insert (q, 16384) L) (insert (q, 16384) K) (16 + 16384)" "page_room h m" by (rule k0) blast
  have "heap_owns h (insert (q, 16384) K)" using k(4) space_owns by (auto simp: space_grows_def)
  then have b: "unat q + 16384 \<le> 4294967296" by (rule heap_owns_bounds(4) [OF _ insertI1, THEN less_imp_le])
  have "q \<notin> fst ` L" using k(3) sp by (auto simp: space_def)
  then have "space_grows s L K d (h\<lparr>mem := fill_bytes q 0 16384 (mem h)\<rparr>) (insert (q, 16384) L) (insert (q, 16384) K) (16 + 16384)"
    using fill_bytes_simps(1) [OF b] by (intro space_grows_write [OF k(4), of q 16384]) simp_all
  then show ?thesis
    using k fill_bytes_simps(2) [OF b] by (intro that [of q "h\<lparr>mem := fill_bytes q 0 16384 (mem h)\<rparr>"])
      (simp_all add: new_stack_def page_room_def del: in_region)
qed

definition new_task :: "u32 \<Rightarrow> u32 \<Rightarrow> u32 \<Rightarrow> u32 \<Rightarrow> u32 \<Rightarrow> task" where
  "new_task p ptr us ks prev = \<lparr>regs = user_regs (us + 16383) ptr, task_process = p, task_next = 0, task_prev = prev,
     user_stack = us, kstack = ks\<rparr>"

text \<open>The translations after the four pages of the stack have been mapped.\<close>

definition stack_mapped :: "u32 \<Rightarrow> (u32 \<Rightarrow> u32 option) \<Rightarrow> u32 \<Rightarrow> u32 option" where
  "stack_mapped us w v = (let stack_page = us AND 0xFFFFF000 in
     if page_from stack_page v < 4 then Some ((stack_page + of_nat (4096 * page_from stack_page v)) OR USER_PAGE) else w v)"

lemma task_init_spec:
  fixes s :: "('d, 'z) tasks_scheme"
  assumes sp: "space s L K d" and dir: "dir_of s p L d" and pr: "procs s p = Some pr" and page: "page_room s (32 + m)"
    and room: "unat (placement_address s) + 65632 < 4294967296"
  obtains us ks s' K' where "task_init t p s = Some (0, s')" "tasks s' = (tasks s)(t \<mapsto> new_task p (proc_ptr pr) us ks 0)"
    "space s' (insert (ks, 16384) (insert (us, 16384) L)) K' d" "insert (ks, 16384) (insert (us, 16384) K) \<subseteq> K'"
    "us \<noteq> 0" "ks \<noteq> 0" "us \<notin> fst ` K" "ks \<notin> fst ` K" "us \<noteq> ks" "tasks_only s s'" "keeps L (mem s) (mem s')"
    "\<And>v. mmu_walk (mem s') d v = stack_mapped us (mmu_walk (mem s) d) v" "page_room s' m"
    "unat (placement_address s') \<le> unat (placement_address s) + 65632"
proof -
  let ?s0 = "s\<lparr>tasks := (tasks s)(t \<mapsto> zero_task\<lparr>task_process := p\<rparr>)\<rparr>"
  have a0: "space ?s0 L K d" "unat (placement_address ?s0) + 16400 < 4294967296" "page_room ?s0 (16 + (16 + m))"
    using sp room page by (simp_all add: add.assoc [symmetric])
  note n0 = new_stack_spec [OF a0]
  obtain us s1 where u: "new_stack ?s0 = Some (us, s1)" "us \<noteq> 0" "us \<notin> fst ` K" "page_room s1 (16 + m)"
    "space_grows ?s0 L K d s1 (insert (us, 16384) L) (insert (us, 16384) K) 16400" by (rule n0) blast
  let ?L1 = "insert (us, 16384) L" and ?K1 = "insert (us, 16384) K"
  have t1: "tasks s1 = tasks ?s0" "procs s1 = procs s"
    using u(5) paging_only_tasks [OF heap_only_paging, of ?s0 s1] paging_only_procs [OF heap_only_paging, of ?s0 s1]
    by (simp_all add: space_grows_def)
  let ?s2 = "s1\<lparr>tasks := (tasks ?s0)(t \<mapsto> zero_task\<lparr>task_process := p, user_stack := us\<rparr>)\<rparr>"
  have p1: "unat (placement_address s1) \<le> unat (placement_address s) + 16400" using u(5) by (simp add: space_grows_def)
  have a2: "space ?s2 ?L1 ?K1 d" "unat (placement_address ?s2) + 16400 < 4294967296" "page_room ?s2 (16 + m)"
    using u(4,5) p1 room by (simp_all add: space_grows_def)
  note n2 = new_stack_spec [OF a2]
  obtain ks s3 where k: "new_stack ?s2 = Some (ks, s3)" "ks \<noteq> 0" "ks \<notin> fst ` ?K1" "page_room s3 m"
    "space_grows ?s2 ?L1 ?K1 d s3 (insert (ks, 16384) ?L1) (insert (ks, 16384) ?K1) 16400" by (rule n2) blast
  let ?L3 = "insert (ks, 16384) ?L1" and ?K3 = "insert (ks, 16384) ?K1"
  have t3: "tasks s3 = tasks ?s2" "procs s3 = procs s"
    using k(5) paging_only_tasks [OF heap_only_paging, of ?s2 s3] paging_only_procs [OF heap_only_paging, of ?s2 s3] t1(2)
    by (simp_all add: space_grows_def)
  let ?s4 = "s3\<lparr>tasks := (tasks s)(t \<mapsto> new_task p (proc_ptr pr) us ks 0)\<rparr>"
  have p3: "unat (placement_address s3) \<le> unat (placement_address s) + 32800" using k(5) p1 by (simp add: space_grows_def)
  have kp: "keeps L (mem s) (mem s3)"
    using u(5) k(5) by (auto simp: space_grows_def keeps_def simp del: in_region)
  have w3: "mmu_walk (mem s3) d v = mmu_walk (mem s) d v" for v using u(5) k(5) by (simp add: space_grows_def)
  have sp3: "space s3 ?L3 ?K3 d" using k(5) by (simp add: space_grows_def)
  have d3: "dir_of s3 p ?L3 d"
    by (rule dir_of_keeps [OF dir t3(2) kp space_owns [OF sp]]) (use sp in \<open>auto simp: space_def\<close>)
  have al: "paging_is_aligned (us AND 0xFFFFF000)" by (simp add: aligned_unat unat_high12)
  have r4: "\<forall>i \<in> set [0..<4]. i < (1048576 :: nat)" "unat (placement_address ?s4) + 8208 * length [0..<4] < 4294967296"
    using p3 room by simp_all
  have a4: "space ?s4 ?L3 ?K3 d" "dir_of ?s4 p ?L3 d" "page_room ?s4 m" using sp3 d3 k(4) by simp_all
  note m0 = map_loop_spec [OF a4(1,2) al a4(3) r4, of "us AND 0xFFFFF000"]
  obtain s5 K5 where m: "map_loop p (us AND 0xFFFFF000) (us AND 0xFFFFF000) [0..<4] ?s4 = Some s5" "space s5 ?L3 K5 d"
    "dir_of s5 p ?L3 d" "paging_only ?s4 s5" "keeps ?L3 (mem ?s4) (mem s5)" "page_room s5 m" "?K3 \<subseteq> K5"
    "unat (placement_address s5) \<le> unat (placement_address ?s4) + 8208 * length [0..<4]"
    "\<forall>v. mmu_walk (mem s5) d v = (if page_from (us AND 0xFFFFF000) v \<in> set [0..<4]
        then Some (((us AND 0xFFFFF000) + of_nat (4096 * page_from (us AND 0xFFFFF000) v)) OR USER_PAGE) else mmu_walk (mem ?s4) d v)"
    using m0 by (elim exE conjE) (rule that; assumption)
  have "task_init t p s = Some (0, s5)"
    using u(1,2) k(1,2) t1 t3 m(1) pr
    by (simp add: task_init_def set_task_def new_task_def zero_task_def Let_def del: map_loop.simps upt_rec_numeral)
  moreover have "tasks s5 = (tasks s)(t \<mapsto> new_task p (proc_ptr pr) us ks 0)" using paging_only_tasks [OF m(4)] by simp
  moreover have "tasks_only s s5"
  proof -
    have h1: "heap_only ?s0 s1" and h3: "heap_only ?s2 s3" using u(5) k(5) by (simp_all add: space_grows_def)
    have "tasks_only s s1" by (rule tasks_only_trans [OF tasks_only_update tasks_only_paging [OF heap_only_paging [OF h1]]])
    moreover have "tasks_only s1 s3" by (rule tasks_only_trans [OF tasks_only_update tasks_only_paging [OF heap_only_paging [OF h3]]])
    moreover have "tasks_only s3 s5" by (rule tasks_only_trans [OF tasks_only_update tasks_only_paging [OF m(4)]])
    ultimately show ?thesis using tasks_only_trans by blast
  qed
  moreover have "keeps L (mem s) (mem s5)" using kp m(5) by (auto simp: keeps_def simp del: in_region)
  moreover have "mmu_walk (mem s5) d v = stack_mapped us (mmu_walk (mem s) d) v" for v
    using m(9) w3 by (simp add: stack_mapped_def Let_def)
  moreover have "unat (placement_address s5) \<le> unat (placement_address s) + 65632" using m(8) p3 by simp
  moreover have "insert (ks, 16384) (insert (us, 16384) K) \<subseteq> K5" "ks \<notin> fst ` K" "us \<noteq> ks"
    using k(3) m(7) by auto
  ultimately show ?thesis using u(2,3) k(2) m(2,6) by (intro that [of s5 us ks K5])
qed

lemma task_list_empty: "task_list s xs \<Longrightarrow> task_head s = 0 \<longleftrightarrow> xs = []"
  by (cases xs) (auto simp: task_list_def)

lemma task_list_tail: "task_list s xs \<Longrightarrow> xs \<noteq> [] \<Longrightarrow> task_tail s = last xs"
  by (cases xs rule: rev_cases) (auto simp: task_list_def)

text \<open>Putting a block that is not a task yet behind the last one.\<close>

lemma task_list_snoc:
  fixes s :: "('d, 'z) tasks_scheme"
  assumes tl: "task_list s xs" and xs: "xs \<noteq> []" and t: "t \<notin> set xs" "t \<noteq> 0" and b: "tasks s (last xs) = Some r"
    and n: "Task.task_next n = 0" "task_prev n = last xs"
  shows "task_list (s\<lparr>tasks := (tasks s)(last xs \<mapsto> r\<lparr>Task.task_next := t\<rparr>, t \<mapsto> n), task_tail := t\<rparr>) (xs @ [t])"
proof -
  obtain ys b where ys: "xs = ys @ [b]" using xs by (cases xs rule: rev_cases) auto
  have P: "chain (next_task (tasks s)) (task_head s) (ys @ [b])" "chain (prev_task (tasks s)) (task_tail s) (b # rev ys)"
    "distinct (ys @ [b])" "\<forall>x \<in> set xs. tasks s x \<noteq> None"
    using tl unfolding task_list_def ys by auto
  let ?ts = "(tasks s)(b \<mapsto> r\<lparr>Task.task_next := t\<rparr>, t \<mapsto> n)"
  have tb: "t \<noteq> b" "t \<notin> set ys" "tasks s b = Some r" "task_tail s = b" using t ys b P(2) by auto
  have "next_task ?ts = (next_task (tasks s))(b := t, t := 0)" using n by (simp add: task_links_upd)
  moreover have "chain ((next_task (tasks s))(b := t, t := 0)) (task_head s) (ys @ [b, t])"
    using P(1,3) tb t(2) by (intro chain_link [where ys = "[]"]) auto
  moreover have "prev_task ?ts = (prev_task (tasks s))(t := b)"
    using n ys by (simp add: task_links_upd task_links_Some(2) [of "tasks s", OF tb(3), symmetric])
  moreover have "chain ((prev_task (tasks s))(t := b)) t (t # b # rev ys)"
    using P(2) tb t(2) by (auto simp: chain_fun_upd)
  ultimately show ?thesis
    using P(3,4) ys t(1) by (auto simp: task_list_def)
qed

lemma task_new_spec:
  fixes s :: "('d, 'z) tasks_scheme"
  assumes sp: "space s L K d" and dir: "dir_of s p L d" and pr: "procs s p = Some pr"
    and tl: "task_list s xs" and live: "set xs \<subseteq> fst ` K" and page: "page_room s (116 + m)"
    and room: "unat (placement_address s) + 65716 < 4294967296"
  shows "\<exists>t us ks s' K'. task_new p s = Some (t, s') \<and> t \<noteq> 0 \<and> us \<noteq> 0 \<and> ks \<noteq> 0 \<and> task_list s' (xs @ [t])
     \<and> tasks s' t = Some (new_task p (proc_ptr pr) us ks (if xs = [] then 0 else last xs))
     \<and> (\<forall>x. x \<noteq> t \<longrightarrow> map_option task_core (tasks s' x) = map_option task_core (tasks s x))
     \<and> current_task s' = (if xs = [] then t else current_task s)
     \<and> current_process s' = (if xs = [] then p else current_process s)
     \<and> space s' ({(us, 16384), (ks, 16384), (t, 68)} \<union> L) K' d \<and> K \<subseteq> K'
     \<and> distinct [us, ks, t] \<and> {us, ks, t} \<inter> fst ` K = {} \<and> keeps L (mem s) (mem s')
     \<and> (\<forall>v. mmu_walk (mem s') d v = stack_mapped us (mmu_walk (mem s) d) v) \<and> page_room s' m
     \<and> unat (placement_address s') \<le> unat (placement_address s) + 65716"
proof -
  have n: "unat (68 :: u32) = 68" "(68 :: nat) \<noteq> 0" "unat (placement_address s) + (16 + 68) < 4294967296"
    "page_room s ((16 + 68) mod 4096 + (32 + m))" using room page by (simp_all add: add.assoc [symmetric])
  note k0 = space_kmalloc [OF sp n]
  obtain t s1 where k: "kmalloc 68 s = Some (t, s1)" "t \<noteq> 0" "t \<notin> fst ` K"
    "space_grows s L K d s1 (insert (t, 68) L) (insert (t, 68) K) (16 + 68)" "page_room s1 (32 + m)" by (rule k0) blast
  have g: "space s1 (insert (t, 68) L) (insert (t, 68) K) d" "heap_only s s1" "keeps L (mem s) (mem s1)"
    "\<forall>v. mmu_walk (mem s1) d v = mmu_walk (mem s) d v" "unat (placement_address s1) \<le> unat (placement_address s) + 84"
    using k(4) by (simp_all add: space_grows_def)
  have pt: "procs s1 = procs s" "tasks s1 = tasks s"
    using paging_only_procs [OF heap_only_paging [OF g(2)]] paging_only_tasks [OF heap_only_paging [OF g(2)]] by simp_all
  have d1: "dir_of s1 p (insert (t, 68) L) d"
    by (rule dir_of_keeps [OF dir pt(1) g(3) space_owns [OF sp]]) (use sp in \<open>auto simp: space_def\<close>)
  have pr1: "procs s1 p = Some pr" and r1: "unat (placement_address s1) + 65632 < 4294967296" using pr pt g(5) room by simp_all
  note i0 = task_init_spec [OF g(1) d1 pr1 k(5) r1, of t]
  obtain us ks s2 K' where i: "task_init t p s1 = Some (0, s2)" "tasks s2 = (tasks s1)(t \<mapsto> new_task p (proc_ptr pr) us ks 0)"
    "space s2 (insert (ks, 16384) (insert (us, 16384) (insert (t, 68) L))) K' d"
    "insert (ks, 16384) (insert (us, 16384) (insert (t, 68) K)) \<subseteq> K'"
    "us \<noteq> 0" "ks \<noteq> 0" "us \<notin> fst ` insert (t, 68) K" "ks \<notin> fst ` insert (t, 68) K" "us \<noteq> ks" "tasks_only s1 s2"
    "keeps (insert (t, 68) L) (mem s1) (mem s2)" "\<forall>v. mmu_walk (mem s2) d v = stack_mapped us (mmu_walk (mem s1) d) v"
    "page_room s2 m" "unat (placement_address s2) \<le> unat (placement_address s1) + 65632"
    by (rule i0) blast
  have "tasks_only s s2" by (rule tasks_only_trans [OF tasks_only_paging [OF heap_only_paging [OF g(2)]] i(10)])
  note h = tasks_onlyD [OF this]
  have D: "space s2 ({(us, 16384), (ks, 16384), (t, 68)} \<union> L) K' d" using i(3) by (simp add: insert_commute)
  have kp: "keeps L (mem s) (mem s2)" using g(3) i(11) by (auto simp: keeps_def simp del: in_region)
  have dist: "distinct [us, ks, t]" "{us, ks, t} \<inter> fst ` K = {}" "K \<subseteq> K'" using i(4,7,8,9) k(3) by auto
  have W: "mmu_walk (mem s2) d v = stack_mapped us (mmu_walk (mem s) d) v" for v
    using i(12) g(4) by (simp add: stack_mapped_def Let_def)
  have P: "unat (placement_address s2) \<le> unat (placement_address s) + 65716" using i(14) g(5) by simp
  have tx: "t \<notin> set xs" using k(3) live by auto
  let ?n = "new_task p (proc_ptr pr) us ks"
  have ts: "tasks s2 = (tasks s)(t \<mapsto> ?n 0)" using i(2) pt by simp
  note rest = k(2) i(5,6) dist kp W i(13) P
  show ?thesis
  proof (cases "xs = []")
    case True
    let ?s3 = "s2\<lparr>task_head := t, task_tail := t, current_task := t, current_process := p\<rparr>"
    have "task_new p s = Some (t, ?s3)"
      using True k(1,2) i(1) h(1) task_list_empty [OF tl] by (simp add: task_new_def process_switch_def)
    moreover have "task_list ?s3 (xs @ [t])"
      using True k(2) ts by (simp add: task_list_def next_task_def prev_task_def new_task_def)
    ultimately show ?thesis
      using True ts D rest by (intro exI [of _ t] exI [of _ us] exI [of _ ks] exI [of _ ?s3] exI [of _ K']) (simp add: page_room_def)
  next
    case False
    then have b: "last xs \<in> set xs" "task_tail s2 = last xs" "last xs \<noteq> t" "task_head s2 \<noteq> 0"
      using task_list_tail [OF tl] task_list_empty [OF tl] tx h by (auto dest: last_in_set)
    then obtain r where r: "tasks s (last xs) = Some r" using tl by (auto simp: task_list_def)
    let ?ts = "(tasks s)(last xs \<mapsto> r\<lparr>Task.task_next := t\<rparr>, t \<mapsto> ?n (last xs))"
    let ?s3 = "s2\<lparr>tasks := ?ts, task_tail := t\<rparr>"
    have "(tasks s)(t \<mapsto> ?n 0, last xs \<mapsto> r\<lparr>Task.task_next := t\<rparr>, t \<mapsto> ?n (last xs)) = ?ts" using b(3) by (auto simp: fun_eq_iff)
    then have "task_new p s = Some (t, ?s3)"
      using k(1,2) i(1) b r ts by (simp add: task_new_def set_task_def new_task_def)
    moreover have "task_list (s\<lparr>tasks := ?ts, task_tail := t\<rparr>) (xs @ [t])"
      by (rule task_list_snoc [OF tl False tx k(2) r]) (simp_all add: new_task_def)
    then have "task_list ?s3 (xs @ [t])" using h(1) by (subst task_list_same [where s = "s\<lparr>tasks := ?ts, task_tail := t\<rparr>"]) simp_all
    moreover have "\<forall>x. x \<noteq> t \<longrightarrow> map_option task_core (tasks ?s3 x) = map_option task_core (tasks s x)" using r by simp
    ultimately show ?thesis
      using False D rest h by (intro exI [of _ t] exI [of _ us] exI [of _ ks] exI [of _ ?s3] exI [of _ K']) (simp add: page_room_def)
  qed
qed

end
