(* ===== verification/Command.thy ===== *)
theory Command
  imports Task
begin

text \<open>
  The command table and the tokeniser, \<open>src/kernel/command.c\<close>, and \<open>panic\<close>,
  \<open>src/kernel/panic.c\<close>. A handler is a function pointer: \<open>call\<close> runs the code at an address with
  its arguments, each the bytes of the command buffer from the start of the argument on.
\<close>

section \<open>State\<close>

record command =
  cmd_name :: "u8 list"
  cmd_description :: "u8 list"
  cmd_handler :: u32

record 'd shell = "'d tasks" +
  commands :: "command list"
  command_count :: int
  kernel_chunk :: u32

definition MAX_COMMANDS :: nat where "MAX_COMMANDS = 50"
definition MAX_ARGS :: nat where "MAX_ARGS = 10"

definition empty_command :: command where
  "empty_command = \<lparr>cmd_name = [], cmd_description = [], cmd_handler = 0\<rparr>"

text \<open>A handler comes back, or it has started a user program, or the machine stands still.\<close>

datatype 's run = Done 's | User user_context 's | Stopped 's

section \<open>The table\<close>

definition command_init :: "('d, 'z) shell_scheme \<Rightarrow> ('d, 'z) shell_scheme" where
  "command_init s = s"

definition command_register ::
  "u8 list \<Rightarrow> u8 list \<Rightarrow> u32 \<Rightarrow> ('d, 'z) shell_scheme \<Rightarrow> ('d, 'z) shell_scheme" where
  "command_register name description handler s =
     (if command_count s < int MAX_COMMANDS
      then s\<lparr>commands := (commands s)[nat (command_count s) :=
               \<lparr>cmd_name = name, cmd_description = description, cmd_handler = handler\<rparr>],
             command_count := command_count s + 1\<rparr>
      else s)"

text \<open>The loop of \<open>help_handler\<close>, \<open>n\<close> commands to go.\<close>

primrec help_loop :: "'d port_io \<Rightarrow> nat \<Rightarrow> ('d, 'z) shell_scheme \<Rightarrow> ('d, 'z) shell_scheme option" where
  "help_loop io 0 s = Some s"
| "help_loop io (Suc n) s = do {
     s \<leftarrow> print_string io (lit ''  '') s;
     c \<leftarrow> rd (commands s) (nat (command_count s) - Suc n);
     s \<leftarrow> print_string io (cmd_name c) s;
     s \<leftarrow> print_string io (lit '' - '') s;
     s \<leftarrow> print_string io (cmd_description c) s;
     s \<leftarrow> print_string io (lit_nl '''') s;
     help_loop io n s
   }"

definition help_handler :: "'d port_io \<Rightarrow> ('d, 'z) shell_scheme \<Rightarrow> ('d, 'z) shell_scheme option" where
  "help_handler io s = do {
     s \<leftarrow> print_string io (lit_nl ''Available commands:'') s;
     help_loop io (nat (command_count s)) s
   }"

section \<open>The tokeniser\<close>

text \<open>The two inner loops: from index \<open>p\<close> past the spaces, and to the end of the token.\<close>

function skip_spaces :: "u8 list \<Rightarrow> nat \<Rightarrow> nat option" where
  "skip_spaces buf p = (if p < length buf then if buf ! p = 32 then skip_spaces buf (p + 1) else Some p else None)"
  by auto
termination by (relation "measure (\<lambda>(buf, p). length buf - p)") auto

function token_end :: "u8 list \<Rightarrow> nat \<Rightarrow> nat option" where
  "token_end buf p = (if p < length buf then if buf ! p \<noteq> 0 \<and> buf ! p \<noteq> 32 then token_end buf (p + 1) else Some p else None)"
  by auto
termination by (relation "measure (\<lambda>(buf, p). length buf - p)") auto

declare skip_spaces.simps [simp del] token_end.simps [simp del]

text \<open>The outer loop with room for \<open>n\<close> more arguments: the buffer with its NULs, and \<open>argv\<close>.\<close>

fun token_loop :: "nat \<Rightarrow> u8 list \<Rightarrow> nat \<Rightarrow> nat list \<Rightarrow> (u8 list \<times> nat list) option" where
  "token_loop 0 buf p argv = do { c \<leftarrow> rd buf p; Some (buf, argv) }"
| "token_loop (Suc n) buf p argv = do {
     c \<leftarrow> rd buf p;
     if c = 0 then Some (buf, argv)
     else do {
       p \<leftarrow> skip_spaces buf p;
       c \<leftarrow> rd buf p;
       if c = 0 then Some (buf, argv)
       else do {
         q \<leftarrow> token_end buf p;
         c \<leftarrow> rd buf q;
         if c \<noteq> 0 then do { buf \<leftarrow> wr buf q 0; token_loop n buf (q + 1) (argv @ [p]) }
         else token_loop n buf q (argv @ [p])
       }
     }
   }"

section \<open>Running a command\<close>

text \<open>The search of the table, \<open>n\<close> commands to go: the handler, if there is one.\<close>

primrec find_command :: "u8 list \<Rightarrow> nat \<Rightarrow> ('d, 'z) shell_scheme \<Rightarrow> u32 option option" where
  "find_command arg 0 s = Some None"
| "find_command arg (Suc n) s = do {
     c \<leftarrow> rd (commands s) (nat (command_count s) - Suc n);
     r \<leftarrow> strcmp arg (cmd_name c);
     if r = 0 then Some (Some (cmd_handler c)) else find_command arg n s
   }"

definition command_run ::
  "'d port_io \<Rightarrow> (u32 \<Rightarrow> u8 list list \<Rightarrow> ('d, 'z) shell_scheme \<Rightarrow> ('d, 'z) shell_scheme run option)
    \<Rightarrow> u8 list \<Rightarrow> ('d, 'z) shell_scheme \<Rightarrow> ('d, 'z) shell_scheme run option" where
  "command_run io call input s = do {
     n \<leftarrow> strlen input;
     if n = 0 then Some (Done s)
     else do {
       (buf, argv) \<leftarrow> token_loop MAX_ARGS input 0 [];
       let args = map (\<lambda>p. drop p buf) argv;
       case args of [] \<Rightarrow> Some (Done s)
       | arg # _ \<Rightarrow> do {
           h \<leftarrow> find_command arg (nat (command_count s)) s;
           case h of Some handler \<Rightarrow> call handler args s
           | None \<Rightarrow> do {
               s \<leftarrow> print_string io (lit ''Unknown command: '') s;
               s \<leftarrow> print_string io arg s;
               s \<leftarrow> print_string io (lit_nl '''') s;
               Some (Done s)
             }
         }
     }
   }"

section \<open>Panic\<close>

definition panic :: "'d port_io \<Rightarrow> u8 list \<Rightarrow> ('d, 'z) screen_scheme \<Rightarrow> ('d, 'z) screen_scheme run option" where
  "panic io msg s = do {
     let s = print_set_colour 0x4F s;
     s \<leftarrow> print_string io (10 # lit ''KERNEL PANIC: '') s;
     s \<leftarrow> print_string io msg s;
     s \<leftarrow> serial_print io (10 # lit ''KERNEL PANIC: '') s;
     s \<leftarrow> serial_print io msg s;
     Some (Stopped s)
   }"

section \<open>The tokeniser finds the words\<close>

text \<open>The words of a line: what is left between the spaces.\<close>

function words :: "u8 list \<Rightarrow> u8 list list" where
  "words [] = []"
| "words (c # cs) = (if c = 32 then words cs
     else takeWhile (\<lambda>c. c \<noteq> 32) (c # cs) # words (dropWhile (\<lambda>c. c \<noteq> 32) cs))"
  by pat_completeness auto
termination by (relation "measure length") (auto intro: le_imp_less_Suc length_dropWhile_le)

lemma words_token:
  assumes "t \<noteq> []" "32 \<notin> set t" "r = [] \<or> hd r = 32"
  shows "words (t @ r) = t # words r"
proof (cases t)
  case (Cons c cs)
  have "takeWhile (\<lambda>c. c \<noteq> 32) (t @ r) = t" "dropWhile (\<lambda>c. c \<noteq> 32) (cs @ r) = r"
    using assms Cons by (cases r; auto simp: takeWhile_append dropWhile_append)+
  then show ?thesis using assms Cons by simp
qed (use assms in simp)

lemma words_spaces: "words (replicate k 32 @ r) = words r"
  by (induction k) simp_all

lemma skip_spaces_run:
  assumes "terminated (drop p buf)"
  shows "\<exists>k. skip_spaces buf p = Some (p + k) \<and> p + k < length buf \<and> buf ! (p + k) \<noteq> 32
    \<and> drop p buf = replicate k 32 @ drop (p + k) buf"
  using assms
proof (induction buf p rule: skip_spaces.induct)
  case (1 buf p)
  then have p: "p < length buf" by (cases "p < length buf") (simp_all add: terminated_def)
  then have d: "drop p buf = buf ! p # drop (Suc p) buf" by (rule Cons_nth_drop_Suc [symmetric])
  show ?case
  proof (cases "buf ! p = 32")
    case True
    have "terminated (drop (p + 1) buf)" using 1(2) d True by (simp add: terminated_def)
    then obtain k where k: "skip_spaces buf (p + 1) = Some (p + 1 + k)" "p + 1 + k < length buf"
      "buf ! (p + 1 + k) \<noteq> 32" "drop (p + 1) buf = replicate k 32 @ drop (p + 1 + k) buf"
      using 1(1) p True by blast
    then show ?thesis using p True d
      by (intro exI [of _ "Suc k"]) (simp add: skip_spaces.simps [of buf p])
  next
    case False
    then show ?thesis using p by (intro exI [of _ 0]) (simp add: skip_spaces.simps [of buf p])
  qed
qed

lemma token_end_run:
  assumes "terminated (drop p buf)"
  shows "\<exists>t. token_end buf p = Some (p + length t) \<and> p + length t < length buf \<and> 0 \<notin> set t \<and> 32 \<notin> set t
    \<and> buf ! (p + length t) \<in> {0, 32} \<and> drop p buf = t @ drop (p + length t) buf"
  using assms
proof (induction buf p rule: token_end.induct)
  case (1 buf p)
  then have p: "p < length buf" by (cases "p < length buf") (simp_all add: terminated_def)
  then have d: "drop p buf = buf ! p # drop (Suc p) buf" by (rule Cons_nth_drop_Suc [symmetric])
  show ?case
  proof (cases "buf ! p \<noteq> 0 \<and> buf ! p \<noteq> 32")
    case True
    have "terminated (drop (p + 1) buf)" using 1(2) d True by (simp add: terminated_def)
    then obtain t where t: "token_end buf (p + 1) = Some (p + 1 + length t)" "p + 1 + length t < length buf"
      "0 \<notin> set t" "32 \<notin> set t" "buf ! (p + 1 + length t) \<in> {0, 32}" "drop (p + 1) buf = t @ drop (p + 1 + length t) buf"
      using 1(1) p True by blast
    then show ?thesis using p True d
      by (intro exI [of _ "buf ! p # t"]) (simp add: token_end.simps [of buf p])
  next
    case False
    then show ?thesis using p by (intro exI [of _ "[]"]) (auto simp: token_end.simps [of buf p])
  qed
qed

lemma terminated_drop: "terminated (t @ xs) \<Longrightarrow> 0 \<notin> set t \<Longrightarrow> terminated xs"
  by (auto simp: terminated_def)

lemma token_loop_words:
  assumes "terminated (drop p buf)"
  shows "\<exists>buf' argv'. token_loop n buf p argv = Some (buf', argv @ argv') \<and> length buf' = length buf
    \<and> take p buf' = take p buf \<and> map (\<lambda>a. str_of (drop a buf')) argv' = take n (words (str_of (drop p buf)))
    \<and> (\<forall>a \<in> set argv'. terminated (drop a buf'))"
  using assms
proof (induction n arbitrary: buf p argv)
  case 0
  then have "p < length buf" by (cases "p < length buf") (simp_all add: terminated_def)
  then show ?case by (simp add: rd_def)
next
  case (Suc n)
  have p: "p < length buf" using Suc.prems by (cases "p < length buf") (simp_all add: terminated_def)
  have d: "drop p buf = buf ! p # drop (Suc p) buf" using p by (rule Cons_nth_drop_Suc [symmetric])
  obtain k where k: "skip_spaces buf p = Some (p + k)" "p + k < length buf" "buf ! (p + k) \<noteq> 32"
    "drop p buf = replicate k 32 @ drop (p + k) buf" using skip_spaces_run [OF Suc.prems] by blast
  have tk: "terminated (drop (p + k) buf)"
  proof (rule terminated_drop)
    show "terminated (replicate k 32 @ drop (p + k) buf)" using Suc.prems unfolding k(4) .
  qed simp
  obtain t where t: "token_end buf (p + k) = Some (p + k + length t)" "p + k + length t < length buf" "0 \<notin> set t"
    "32 \<notin> set t" "buf ! (p + k + length t) \<in> {0, 32}" "drop (p + k) buf = t @ drop (p + k + length t) buf"
    using token_end_run [OF tk] by blast
  let ?q = "p + k + length t"
  have q: "drop ?q buf = buf ! ?q # drop (Suc ?q) buf" using t(2) by (rule Cons_nth_drop_Suc [symmetric])
  have s: "str_of (drop p buf) = replicate k 32 @ t @ str_of (drop ?q buf)"
    using k(4) t(3,6) by (simp add: str_of_append)
  show ?case
  proof (cases "buf ! (p + k) = 0")
    case True
    then have "t = []" using t(3,6) Cons_nth_drop_Suc [OF k(2)] by (cases t) auto
    then have "words (str_of (drop p buf)) = []"
      using s True q words_spaces [of k "[]"] by simp
    then show ?thesis using p k(1,2) True by (simp add: rd_def)
  next
    case False
    have tne: "t \<noteq> []" using t(5) False k(3) by auto
    have w: "words (str_of (drop p buf)) = t # words (str_of (drop ?q buf))"
      unfolding s words_spaces using tne t(4,5) q by (intro words_token) auto
    have p0: "buf ! p \<noteq> 0"
    proof (cases k)
      case 0
      then show ?thesis using False by simp
    next
      case (Suc i)
      then have "hd (drop p buf) = 32" unfolding k(4) by simp
      then show ?thesis unfolding d by simp
    qed
    show ?thesis
    proof (cases "buf ! ?q = 0")
      case True
      have z: "token_loop n buf ?q (argv @ [p + k]) = Some (buf, argv @ [p + k])"
        using True t(2) by (cases n) (simp_all add: rd_def)
      have e: "str_of (drop ?q buf) = []" unfolding q using True by simp
      moreover have "str_of (drop (p + k) buf) = t" unfolding t(6) str_of_append [OF t(3)] e by simp
      ultimately show ?thesis
        using p p0 k(1,2) False t(1,2) True z w tk by (simp add: rd_def)
    next
      case False': False
      then have q32: "buf ! ?q = 32" using t(5) by auto
      let ?b = "buf[?q := 0]"
      have "terminated (drop ?q buf)" using tk terminated_drop [OF _ t(3)] unfolding t(6) by blast
      then have "terminated (drop (?q + 1) buf)" unfolding q using q32 by simp
      then have "terminated (drop (?q + 1) ?b)" by simp
      from Suc.IH [OF this, of "argv @ [p + k]"]
      obtain buf' argv' where r: "token_loop n ?b (?q + 1) (argv @ [p + k]) = Some (buf', argv @ [p + k] @ argv')"
        "length buf' = length buf" "take (?q + 1) buf' = take (?q + 1) ?b"
        "map (\<lambda>a. str_of (drop a buf')) argv' = take n (words (str_of (drop (?q + 1) buf)))"
        "\<forall>a \<in> set argv'. terminated (drop a buf')" by auto
      have run: "token_loop (Suc n) buf p argv = Some (buf', argv @ (p + k) # argv')"
        using p p0 k(1,2) False t(1,2) False' r(1) by (simp add: rd_def wr_def)
      have "take (?q + 1) ?b = take ?q buf @ [0]" 
        unfolding Suc_eq_plus1 [symmetric] by (subst take_Suc_conv_app_nth) (use t(2) in simp_all)
      then have b': "buf' = take ?q buf @ 0 # drop (?q + 1) buf'"
        using r(3) append_take_drop_id [of "?q + 1" buf'] by (metis append.assoc append_Cons append_Nil)
      have "drop (p + k) (take ?q buf) = take (length t) (drop (p + k) buf)" by (simp add: drop_take)
      then have "drop (p + k) (take ?q buf) = t" unfolding t(6) by simp
      then have dk: "drop (p + k) buf' = t @ 0 # drop (?q + 1) buf'"
        using t(2) by (subst b') simp
      have "take p buf' = take p buf" using t(2) by (subst b') (simp add: min_def)
      moreover have "str_of (drop (p + k) buf') = t" unfolding dk str_of_append [OF t(3)] by simp
      moreover have "str_of (drop ?q buf) = 32 # str_of (drop (?q + 1) buf)" unfolding q using q32 by simp
      moreover have "terminated (drop (p + k) buf')" unfolding dk by simp
      ultimately show ?thesis using run r(2,4,5) w by (intro exI [of _ buf'] exI [of _ "(p + k) # argv'"]) simp
    qed
  qed
qed

section \<open>The table\<close>

definition shell_ok :: "('d, 'z) shell_scheme \<Rightarrow> bool" where
  "shell_ok s \<longleftrightarrow> length (commands s) = 50 \<and> 0 \<le> command_count s \<and> command_count s \<le> 50
     \<and> (\<forall>i < nat (command_count s). terminated (cmd_name (commands s ! i)) \<and> terminated (cmd_description (commands s ! i)))"

definition registered :: "('d, 'z) shell_scheme \<Rightarrow> command list" where
  "registered s = take (nat (command_count s)) (commands s)"

definition matching :: "u8 list \<Rightarrow> command list \<Rightarrow> command option" where
  "matching w cs = List.find (\<lambda>c. str_of (cmd_name c) = w) cs"

lemma find_command_spec:
  assumes "shell_ok s" "terminated arg"
  shows "find_command arg (nat (command_count s)) s = Some (map_option cmd_handler (matching (str_of arg) (registered s)))"
proof -
  let ?m = "nat (command_count s)"
  have ok: "length (commands s) = 50" "?m \<le> 50" "\<forall>i < ?m. terminated (cmd_name (commands s ! i))"
    using assms(1) by (auto simp: shell_ok_def)
  have "find_command arg n s = Some (map_option cmd_handler (matching (str_of arg) (drop (?m - n) (registered s))))"
    if "n \<le> ?m" for n
    using that
  proof (induction n)
    case 0
    then show ?case using ok by (simp add: registered_def matching_def)
  next
    case (Suc n)
    let ?i = "?m - Suc n"
    have i: "?i < ?m" "Suc ?i = ?m - n" using Suc.prems by simp_all
    then have r: "rd (commands s) ?i = Some (commands s ! ?i)" using ok by (simp add: rd_def)
    have "?i < length (registered s)" using i ok by (simp add: registered_def)
    then have "drop ?i (registered s) = registered s ! ?i # drop (Suc ?i) (registered s)" by (rule Cons_nth_drop_Suc [symmetric])
    moreover have "registered s ! ?i = commands s ! ?i" using i(1) by (simp add: registered_def)
    ultimately have d: "drop ?i (registered s) = commands s ! ?i # drop (?m - n) (registered s)" using i(2) by simp
    obtain c where c: "strcmp arg (cmd_name (commands s ! ?i)) = Some c"
      "c = 0 \<longleftrightarrow> str_of arg = str_of (cmd_name (commands s ! ?i))"
      using strcmp_zero [OF assms(2)] ok(3) i(1) by blast
    have ih: "find_command arg n s = Some (map_option cmd_handler (matching (str_of arg) (drop (?m - n) (registered s))))"
      using Suc by simp
    have "find_command arg (Suc n) s = (if c = 0 then Some (Some (cmd_handler (commands s ! ?i))) else find_command arg n s)"
      using r c(1) by simp
    also have "\<dots> = Some (map_option cmd_handler (matching (str_of arg) (drop ?i (registered s))))"
      unfolding d ih using c(2) by (auto simp: matching_def)
    finally show ?case .
  qed
  from this [of ?m] show ?thesis by simp
qed

lemma print_literal:
  assumes "terminated msg"
  obtains s' where "print_string io msg s = Some s'" "screen_only io s s'"
  using print_string_returns [of msg io s] assms by (auto simp: terminated_def)

lemma literals_terminated [simp]: "terminated (lit m)" "terminated (lit_nl m)"
  by (simp_all add: lit_def lit_nl_def)

section \<open>Properties\<close>

text \<open>C11: The tokeniser of \<open>command_run\<close> stays in the buffer, returns, and finds the words of the
  line, the first ten of them: each argument is a NUL-terminated string in the buffer.\<close>

theorem tokens_are_words:
  assumes "terminated input"
  shows "\<exists>buf argv. token_loop MAX_ARGS input 0 [] = Some (buf, argv) \<and> length buf = length input
    \<and> map (\<lambda>a. str_of (drop a buf)) argv = take 10 (words (str_of input)) \<and> (\<forall>a \<in> set argv. terminated (drop a buf))"
  using token_loop_words [of 0 input 10 "[]"] assms by (simp add: MAX_ARGS_def)

theorem tokens_are_words_witness:
  "\<exists>buf argv. token_loop MAX_ARGS (lit ''run  0:/a b'') 0 [] = Some (buf, argv)
    \<and> map (\<lambda>a. str_of (drop a buf)) argv = [bytes_of ''run'', bytes_of ''0:/a'', bytes_of ''b'']"
proof -
  have "take 10 (words (str_of (lit ''run  0:/a b''))) = [bytes_of ''run'', bytes_of ''0:/a'', bytes_of ''b'']"
    by (simp add: chars)
  then show ?thesis using tokens_are_words [of "lit ''run  0:/a b''"] by (auto simp del: token_loop.simps)
qed

text \<open>A shell with an empty table, and one with a single command.\<close>

definition boot_shell :: "ata \<Rightarrow> ata shell" where
  "boot_shell d = tasks.extend (boot_tasks d)
     \<lparr>commands = replicate 50 empty_command, command_count = 0, kernel_chunk = 0\<rparr>"

definition one_command :: "ata shell" where
  "one_command = command_register (lit ''run'') (lit ''Execute'') 0x3000 (boot_shell sample_drives)"

lemma boot_shell_ok [simp]: "shell_ok (boot_shell d)" "registered (boot_shell d) = []"
  by (simp_all add: shell_ok_def registered_def boot_shell_def tasks.extend_def)

lemma one_command_ok [simp]: "shell_ok one_command"
  "registered one_command = [\<lparr>cmd_name = lit ''run'', cmd_description = lit ''Execute'', cmd_handler = 0x3000\<rparr>]"
  by (simp_all add: one_command_def command_register_def shell_ok_def registered_def boot_shell_def tasks.extend_def
    MAX_COMMANDS_def numeral_eq_Suc)



text \<open>C34: \<open>command_register\<close> appends to the table, up to 50 commands, and then ignores the request;
  the table stays well formed.\<close>

theorem command_register_bounded:
  assumes "shell_ok s" and "terminated n" and "terminated d"
  shows "shell_ok (command_register n d h s)
    \<and> registered (command_register n d h s)
      = take 50 (registered s @ [\<lparr>cmd_name = n, cmd_description = d, cmd_handler = h\<rparr>])"
proof (cases "command_count s < 50")
  case True
  have "0 \<le> command_count s" using assms(1) by (simp add: shell_ok_def)
  then obtain k where k: "command_count s = int k" "k < 50" using True zero_le_imp_eq_int by fastforce
  have len: "length (commands s) = 50" using assms(1) by (simp add: shell_ok_def)
  have "nat (int k + 1) = Suc k" by simp
  then show ?thesis
    using assms k len by (auto simp: command_register_def MAX_COMMANDS_def shell_ok_def registered_def
      take_Suc_conv_app_nth nth_list_update less_Suc_eq)
next
  case False
  then have "command_count s = 50" using assms(1) by (simp add: shell_ok_def)
  then show ?thesis using assms(1) by (simp add: command_register_def MAX_COMMANDS_def registered_def shell_ok_def)
qed

theorem command_register_bounded_witness:
  "registered (command_register (lit ''ls'') (lit ''List'') 0x3100 one_command)
    = [\<lparr>cmd_name = lit ''run'', cmd_description = lit ''Execute'', cmd_handler = 0x3000\<rparr>,
       \<lparr>cmd_name = lit ''ls'', cmd_description = lit ''List'', cmd_handler = 0x3100\<rparr>]"
  using command_register_bounded [OF one_command_ok(1), of "lit ''ls''" "lit ''List''" "0x3100"] by simp

end
