(* ===== verification/Kernel.thy ===== *)
theory Kernel
  imports Loader Command
begin

text \<open>
  \<open>src/kernel/kernel.c\<close>: the handlers of the shell's commands, the start-up sequence, and the
  read-evaluate loop with its line editor. The addresses of the static objects and functions are
  the linker's, here the record \<open>symbols\<close>; \<open>hlt\<close> is what the interrupts do while the shell sleeps.
\<close>

record symbols =
  sym_gdt :: u32
  sym_tss :: u32
  sym_idt :: u32
  sym_stub :: "nat \<Rightarrow> u32"
  sym_fat16_fs :: u32
  sym_keyboard_handler :: u32
  sym_help :: u32
  sym_cls :: u32
  sym_version :: u32
  sym_echo :: u32
  sym_print :: u32
  sym_run :: u32
  sym_ls :: u32

section \<open>The handlers\<close>

definition cls_handler :: "'d port_io \<Rightarrow> ('d, 'z) screen_scheme \<Rightarrow> ('d, 'z) screen_scheme" where
  "cls_handler io s = clear_screen io s"

definition version_handler :: "'d port_io \<Rightarrow> ('d, 'z) screen_scheme \<Rightarrow> ('d, 'z) screen_scheme option" where
  "version_handler io s = print_string io (lit_nl ''VibeKernel-x86 v0.1.0'') s"

text \<open>The arguments, with single spaces between them.\<close>

fun echo_loop :: "'d port_io \<Rightarrow> u8 list list \<Rightarrow> ('d, 'z) screen_scheme \<Rightarrow> ('d, 'z) screen_scheme option" where
  "echo_loop io [] s = Some s"
| "echo_loop io (a # as) s = do {
     s \<leftarrow> print_string io a s;
     s \<leftarrow> (if as \<noteq> [] then print_string io (lit '' '') s else Some s);
     echo_loop io as s
   }"

definition echo_handler :: "'d port_io \<Rightarrow> u8 list list \<Rightarrow> ('d, 'z) screen_scheme \<Rightarrow> ('d, 'z) screen_scheme option" where
  "echo_handler io argv s = do { s \<leftarrow> echo_loop io (tl argv) s; print_string io (lit_nl '''') s }"

definition print_handler :: "'d port_io \<Rightarrow> u8 list list \<Rightarrow> ('d, 'z) screen_scheme \<Rightarrow> ('d, 'z) screen_scheme option" where
  "print_handler io argv s = do { s \<leftarrow> echo_loop io (tl argv) s; print_string io (lit_nl '''') s }"

definition run_handler ::
  "'d port_io \<Rightarrow> (u32 \<Rightarrow> ('d, 'z) shell_scheme filesystem option) \<Rightarrow> u8 list list \<Rightarrow> ('d, 'z) shell_scheme
    \<Rightarrow> ('d, 'z) shell_scheme run option" where
  "run_handler io fss argv s =
     (if length argv < 2 then do {
        s \<leftarrow> print_string io (lit_nl ''Usage: run <filename>'') s;
        Some (Done s)
      } else do {
        (r, p, s) \<leftarrow> process_load fss (argv ! 1) 0 s;
        if r < 0 then do {
          s \<leftarrow> print_string io (lit ''Failed to load process: '') s;
          s \<leftarrow> print_string io (argv ! 1) s;
          s \<leftarrow> print_string io (lit_nl '''') s;
          Some (Done s)
        } else do {
          (t, s) \<leftarrow> task_new p s;
          if t = 0 then do {
            s \<leftarrow> print_string io (lit_nl ''Failed to create task'') s;
            Some (Done s)
          } else do {
            s \<leftarrow> print_string io (lit ''Starting process: '') s;
            s \<leftarrow> print_string io (argv ! 1) s;
            s \<leftarrow> print_string io (lit_nl '''') s;
            (c, s) \<leftarrow> task_switch t s;
            Some (User c s)
          }
        }
      })"

definition ls_handler ::
  "'d port_io \<Rightarrow> (u32 \<Rightarrow> ('d, 'z) shell_scheme filesystem option) \<Rightarrow> u8 list list \<Rightarrow> ('d, 'z) shell_scheme
    \<Rightarrow> ('d, 'z) shell_scheme option" where
  "ls_handler io fss argv s = do {
     let path = (if length argv > 1 then argv ! 1 else lit ''0:/'');
     (r, s) \<leftarrow> fs_list fss path s;
     if r \<noteq> 0 then do {
       s \<leftarrow> print_string io (lit ''ls: Failed to list directory: '') s;
       s \<leftarrow> print_string io path s;
       print_string io (lit_nl '''') s
     } else Some s
   }"

text \<open>The code at the addresses that \<open>main\<close> registers.\<close>

definition call_command ::
  "'d port_io \<Rightarrow> symbols \<Rightarrow> (u32 \<Rightarrow> ('d, 'z) shell_scheme filesystem option) \<Rightarrow> u32 \<Rightarrow> u8 list list
    \<Rightarrow> ('d, 'z) shell_scheme \<Rightarrow> ('d, 'z) shell_scheme run option" where
  "call_command io sy fss h argv s =
     (if h = sym_help sy then map_option Done (help_handler io s)
      else if h = sym_cls sy then Some (Done (cls_handler io s))
      else if h = sym_version sy then map_option Done (version_handler io s)
      else if h = sym_echo sy then map_option Done (echo_handler io argv s)
      else if h = sym_print sy then map_option Done (print_handler io argv s)
      else if h = sym_run sy then run_handler io fss argv s
      else if h = sym_ls sy then map_option Done (ls_handler io fss argv s)
      else None)"

section \<open>Start-up\<close>

definition idt_init :: "'d port_io \<Rightarrow> symbols \<Rightarrow> ('d, 'z) cpu_scheme \<Rightarrow> ('d, 'z) cpu_scheme" where
  "idt_init io sy s = isr_install io (sym_stub sy) (sym_idt sy) s"

definition register_commands :: "symbols \<Rightarrow> ('d, 'z) shell_scheme \<Rightarrow> ('d, 'z) shell_scheme" where
  "register_commands sy s =
     (let s = command_register (lit ''help'') (lit ''Display this help message'') (sym_help sy) s;
          s = command_register (lit ''cls'') (lit ''Clear the screen'') (sym_cls sy) s;
          s = command_register (lit ''version'') (lit ''Display kernel version'') (sym_version sy) s;
          s = command_register (lit ''echo'') (lit ''Print arguments to the screen'') (sym_echo sy) s;
          s = command_register (lit ''print'') (lit ''Display text on the screen'') (sym_print sy) s;
          s = command_register (lit ''run'') (lit ''Execute a binary or ELF file'') (sym_run sy) s
      in command_register (lit ''ls'') (lit ''List directory contents'') (sym_ls sy) s)"

text \<open>\<open>main\<close> up to the first command; \<open>sti\<close> takes effect in the sleeps of \<open>keyboard_getc\<close>.\<close>

definition kernel_init :: "'d port_io \<Rightarrow> symbols \<Rightarrow> ('d, 'z) shell_scheme \<Rightarrow> ('d, 'z) shell_scheme option" where
  "kernel_init io sy s = do {
     let s = gdt_init (sym_gdt sy) (sym_tss sy) s;
     let s = serial_init io s;
     let s = clear_screen io s;
     s \<leftarrow> print_string io (lit_nl ''VibeKernel-x86 Booting...'') s;
     let s = idt_init io sy s;
     s \<leftarrow> kheap_init io s;
     let s = fs_init s;
     let s = snd (fs_insert_filesystem (sym_fat16_fs sy) s);
     (chunk, s) \<leftarrow> paging_new_4gb (ucast (PAGING_IS_WRITEABLE OR PAGING_IS_PRESENT OR PAGING_ACCESS_FROM_ALL)) s;
     let s = s\<lparr>kernel_chunk := chunk\<rparr>;
     let s = paging_switch (paging_4gb_chunk_get_directory chunk s) s;
     let s = enable_paging s;
     let s = set_idt (sym_idt sy) s;
     let s = keyboard_init (sym_keyboard_handler sy) s;
     let s = command_init s;
     Some (register_commands sy s)
   }"

section \<open>The shell\<close>

text \<open>The line editor: \<open>cmd_buf\<close> and \<open>cmd_idx\<close> up to the newline, which puts the NUL.\<close>

partial_function (option) read_line ::
  "'d port_io \<Rightarrow> (('d, 'z) shell_scheme \<Rightarrow> ('d, 'z) shell_scheme option) \<Rightarrow> u8 list \<Rightarrow> nat \<Rightarrow> ('d, 'z) shell_scheme
    \<Rightarrow> (u8 list \<times> ('d, 'z) shell_scheme) option" where
  "read_line io hlt cmd_buf cmd_idx s = do {
     (c, s) \<leftarrow> keyboard_getc hlt s;
     if c = 10 then do {
       s \<leftarrow> print_string io (lit_nl '''') s;
       cmd_buf \<leftarrow> wr cmd_buf cmd_idx 0;
       Some (cmd_buf, s)
     } else if c = 8 \<or> c = 0x7F then
       if cmd_idx > 0 then do {
         s \<leftarrow> print_string io [8, 32, 8, 0] s;
         read_line io hlt cmd_buf (cmd_idx - 1) s
       } else read_line io hlt cmd_buf cmd_idx s
     else if cmd_idx < 127 then do {
       cmd_buf \<leftarrow> wr cmd_buf cmd_idx c;
       s \<leftarrow> print_string io [c, 0] s;
       read_line io hlt cmd_buf (cmd_idx + 1) s
     } else read_line io hlt cmd_buf cmd_idx s
   }"

text \<open>One round: the prompt, a line, the command.\<close>

definition shell_round ::
  "'d port_io \<Rightarrow> symbols \<Rightarrow> (u32 \<Rightarrow> ('d, 'z) shell_scheme filesystem option)
    \<Rightarrow> (('d, 'z) shell_scheme \<Rightarrow> ('d, 'z) shell_scheme option) \<Rightarrow> ('d, 'z) shell_scheme
    \<Rightarrow> ('d, 'z) shell_scheme run option" where
  "shell_round io sy fss hlt s = do {
     s \<leftarrow> print_string io (lit ''> '') s;
     (cmd_buf, s) \<leftarrow> read_line io hlt (replicate 128 0) 0 s;
     command_run io (call_command io sy fss) cmd_buf s
   }"

text \<open>The loop ends when a program runs; the processor does not come back from it to here.\<close>

partial_function (option) shell_loop ::
  "'d port_io \<Rightarrow> symbols \<Rightarrow> (u32 \<Rightarrow> ('d, 'z) shell_scheme filesystem option)
    \<Rightarrow> (('d, 'z) shell_scheme \<Rightarrow> ('d, 'z) shell_scheme option) \<Rightarrow> ('d, 'z) shell_scheme
    \<Rightarrow> ('d, 'z) shell_scheme run option" where
  "shell_loop io sy fss hlt s = do {
     r \<leftarrow> shell_round io sy fss hlt s;
     case r of Done s \<Rightarrow> shell_loop io sy fss hlt s | User c s \<Rightarrow> Some (User c s) | Stopped s \<Rightarrow> Some (Stopped s)
   }"

definition kmain ::
  "'d port_io \<Rightarrow> symbols \<Rightarrow> (u32 \<Rightarrow> ('d, 'z) shell_scheme filesystem option)
    \<Rightarrow> (('d, 'z) shell_scheme \<Rightarrow> ('d, 'z) shell_scheme option) \<Rightarrow> ('d, 'z) shell_scheme
    \<Rightarrow> ('d, 'z) shell_scheme run option" where
  "kmain io sy fss hlt s = do {
     s \<leftarrow> kernel_init io sy s;
     r \<leftarrow> command_run io (call_command io sy fss) (lit ''echo VibeKernel is ready.'') s;
     case r of Done s \<Rightarrow> do {
         s \<leftarrow> print_string io (lit_nl (''Type '' @ [CHR 0x27] @ ''help'' @ [CHR 0x27] @ '' for a list of commands.'')) s;
         shell_loop io sy fss hlt s
       }
     | r \<Rightarrow> Some r
   }"

section \<open>The line editor\<close>

text \<open>What typing \<open>ks\<close> makes of the line \<open>ln\<close>: backspace and delete take the last character away,
  any other key is added while there are fewer than 127.\<close>

fun edited :: "u8 list \<Rightarrow> u8 list \<Rightarrow> u8 list" where
  "edited ln [] = ln"
| "edited ln (k # ks) = (if k = 8 \<or> k = 0x7F then edited (butlast ln) ks
     else if length ln < 127 then edited (ln @ [k]) ks else edited ln ks)"

lemma edited_length: "length ln \<le> 127 \<Longrightarrow> length (edited ln ks) \<le> 127"
  by (induction ln ks rule: edited.induct) auto

lemma screen_only_keys:
  fixes s :: "('d, 'z) keyboard_scheme"
  assumes "screen_only io s s'"
  shows "ring_ok s' \<longleftrightarrow> ring_ok s" "ring_contents s' = ring_contents s"
  using assms by (auto simp: screen_only_def ring_ok_def ring_contents_def ring_length_def)

lemma getc_ring:
  assumes "ring_ok s" "ring_contents s = c # cs"
  obtains s' where "keyboard_getc hlt s = Some (c, s')" "ring_ok s'" "ring_contents s' = cs"
proof -
  have n: "ring_length s \<noteq> 0" using arg_cong [OF assms(2), of length] by (simp add: ring_contents_def)
  then have "buffer_head s \<noteq> buffer_tail s" using ring_empty_iff [OF assms(1)] by simp
  then have "keyboard_wait hlt s = Some s" by (subst keyboard_wait.simps) simp
  then show ?thesis
    using keyboard_take_ring [OF assms(1) n] assms(2) that
    by (cases "keyboard_take s") (auto simp: keyboard_getc_def)
qed

lemma read_line_run:
  assumes "ring_ok s" "ring_contents s = ks @ 10 # rest" "10 \<notin> set ks" "0 \<notin> set ks"
    and "length buf = 128" "length ln \<le> 127" "take (length ln) buf = ln" "0 \<notin> set ln"
  shows "\<exists>buf' s'. read_line io hlt buf (length ln) s = Some (buf', s') \<and> length buf' = 128 \<and> terminated buf'
    \<and> str_of buf' = edited ln ks \<and> ring_ok s' \<and> ring_contents s' = rest"
  using assms
proof (induction ks arbitrary: s buf ln)
  case Nil
  obtain s1 where s1: "keyboard_getc hlt s = Some (10, s1)" "ring_ok s1" "ring_contents s1 = rest"
    using getc_ring [OF Nil.prems(1), of 10 rest hlt] Nil.prems(2) by auto
  obtain s2 where s2: "print_string io (lit_nl '''') s1 = Some s2" "screen_only io s1 s2"
    by (rule print_literal [OF literals_terminated(2)])
  let ?b = "buf[length ln := 0]"
  have "buf = ln @ drop (length ln) buf" using Nil.prems(7) append_take_drop_id [of "length ln" buf] by simp
  then obtain x xs where b: "buf = ln @ x # xs" using Nil.prems(5,6) by (cases "drop (length ln) buf") auto
  then have b': "?b = ln @ 0 # xs" by simp
  have "read_line io hlt buf (length ln) s = Some (?b, s2)"
    using s1(1) s2(1) Nil.prems(5,6) by (subst read_line.simps) (simp add: wr_def)
  moreover have "str_of ?b = ln" unfolding b' str_of_append [OF Nil.prems(8)] by simp
  moreover have "terminated ?b" unfolding b' by simp
  moreover have "length ?b = 128" using Nil.prems(5) by simp
  ultimately show ?case using screen_only_keys [OF s2(2)] s1(2,3) by auto
next
  case (Cons k ks)
  obtain s1 where s1: "keyboard_getc hlt s = Some (k, s1)" "ring_ok s1" "ring_contents s1 = ks @ 10 # rest"
    using getc_ring [OF Cons.prems(1), of k "ks @ 10 # rest" hlt] Cons.prems(2) by auto
  have k: "k \<noteq> 10" "k \<noteq> 0" "10 \<notin> set ks" "0 \<notin> set ks" using Cons.prems(3,4) by auto
  consider (del) "k = 8 \<or> k = 0x7F" "ln \<noteq> []" | (start) "k = 8 \<or> k = 0x7F" "ln = []"
    | (add) "\<not> (k = 8 \<or> k = 0x7F)" "length ln < 127" | (full) "\<not> (k = 8 \<or> k = 0x7F)" "\<not> length ln < 127" by blast
  then show ?case
  proof cases
    case del
    obtain s2 where s2: "print_string io [8, 32, 8, 0] s1 = Some s2" "screen_only io s1 s2"
      by (rule print_literal [of "[8, 32, 8, 0]" io s1]) simp
    have "take (length (butlast ln)) buf = butlast ln"
      using Cons.prems(5,7) by (metis butlast_take length_butlast length_take min.absorb2 min.cobounded1)
    moreover have "ring_contents s2 = ks @ 10 # rest" "ring_ok s2" using screen_only_keys [OF s2(2)] s1(2,3) by auto
    moreover have "0 \<notin> set (butlast ln)" using Cons.prems(8) in_set_butlastD by fastforce
    moreover have "length (butlast ln) \<le> 127" using Cons.prems(6) by simp
    ultimately obtain buf' s' where r: "read_line io hlt buf (length (butlast ln)) s2 = Some (buf', s')" "length buf' = 128"
      "terminated buf'" "str_of buf' = edited (butlast ln) ks" "ring_ok s'" "ring_contents s' = rest"
      using Cons.IH [of s2 buf "butlast ln"] k(3,4) Cons.prems(5) by blast
    have "read_line io hlt buf (length ln) s = read_line io hlt buf (length (butlast ln)) s2"
      using s1(1) s2(1) k(1) del by (subst read_line.simps) auto
    then show ?thesis using r del by auto
  next
    case start
    obtain buf' s' where r: "read_line io hlt buf (length ln) s1 = Some (buf', s')" "length buf' = 128"
      "terminated buf'" "str_of buf' = edited ln ks" "ring_ok s'" "ring_contents s' = rest"
      using Cons.IH [OF s1(2,3) k(3,4) Cons.prems(5-8)] by auto
    have "read_line io hlt buf (length ln) s = read_line io hlt buf (length ln) s1"
      using s1(1) k(1) start by (subst read_line.simps) auto
    then show ?thesis using r start by auto
  next
    case add
    obtain s2 where s2: "print_string io [k, 0] s1 = Some s2" "screen_only io s1 s2"
      by (rule print_literal [of "[k, 0]" io s1]) simp
    let ?b = "buf[length ln := k]"
    have "take (length (ln @ [k])) ?b = ln @ [k]"
      using Cons.prems(5,7) add(2) by (simp add: take_Suc_conv_app_nth)
    moreover have "ring_contents s2 = ks @ 10 # rest" "ring_ok s2" using screen_only_keys [OF s2(2)] s1(2,3) by auto
    ultimately obtain buf' s' where r: "read_line io hlt ?b (length (ln @ [k])) s2 = Some (buf', s')" "length buf' = 128"
      "terminated buf'" "str_of buf' = edited (ln @ [k]) ks" "ring_ok s'" "ring_contents s' = rest"
      using Cons.IH [of s2 ?b "ln @ [k]"] k Cons.prems(5,8) add(2) by auto
    have "read_line io hlt buf (length ln) s = read_line io hlt ?b (length (ln @ [k])) s2"
      using s1(1) s2(1) k(1) add Cons.prems(5) by (subst read_line.simps) (auto simp: wr_def)
    then show ?thesis using r add by auto
  next
    case full
    obtain buf' s' where r: "read_line io hlt buf (length ln) s1 = Some (buf', s')" "length buf' = 128"
      "terminated buf'" "str_of buf' = edited ln ks" "ring_ok s'" "ring_contents s' = rest"
      using Cons.IH [OF s1(2,3) k(3,4) Cons.prems(5-8)] by auto
    have "read_line io hlt buf (length ln) s = read_line io hlt buf (length ln) s1"
      using s1(1) k(1) full by (subst read_line.simps) auto
    then show ?thesis using r full by auto
  qed
qed

section \<open>Properties\<close>

text \<open>C15: The line editor of \<open>main\<close> returns at the newline, and the buffer then holds, as a C string,
  what the keys before it make of an empty line: backspace takes the last character away, and of
  longer lines the first 127 characters are kept. The keys behind the newline stay in the keyboard's buffer.\<close>

theorem read_line_edits:
  assumes "ring_ok s" and "ring_contents s = ks @ 10 # rest" and "10 \<notin> set ks" and "0 \<notin> set ks"
  shows "\<exists>buf s'. read_line io hlt (replicate 128 0) 0 s = Some (buf, s') \<and> length buf = 128 \<and> terminated buf
    \<and> str_of buf = edited [] ks \<and> length (edited [] ks) \<le> 127 \<and> ring_ok s' \<and> ring_contents s' = rest"
  using read_line_run [OF assms, of "replicate 128 0" "[]" io hlt] edited_length [of "[]" ks] by auto

lemma boot_shell_ring [simp]: "ring_ok (boot_shell d)" "ring_contents (boot_shell d) = []"
  by (simp_all add: ring_ok_def ring_contents_def ring_length_def boot_shell_def tasks.extend_def boot_tasks_def
    procs.extend_def boot_procs_def vfs.extend_def boot_vfs_eq fat.extend_def boot_fat_def boot_paths_def
    paths.extend_def disk.extend_def boot_disk_def keyboard.extend_def boot_keyboard_def cpu.extend_def)

theorem read_line_edits_witness:
  "\<exists>buf s'. read_line ata_io (\<lambda>s. None) (replicate 128 0) 0
      (buffer_put 10 (buffer_put 99 (buffer_put 8 (buffer_put 98 (boot_shell sample_drives))))) = Some (buf, s')
    \<and> str_of buf = [99] \<and> ring_contents s' = []"
proof -
  let ?s = "buffer_put 10 (buffer_put 99 (buffer_put 8 (buffer_put 98 (boot_shell sample_drives))))"
  have "ring_ok ?s" "ring_contents ?s = [98, 8, 99] @ 10 # []" by (simp_all add: buffer_put_ring)
  from read_line_edits [OF this, of ata_io "\<lambda>s. None"] show ?thesis by auto
qed

end
