(* ===== verification/TaskProps.thy ===== *)
theory TaskProps
  imports Task
begin

text \<open>
  The properties of the tasks: making one, releasing it, and what its user program may touch.
\<close>

section \<open>Translations that stay\<close>

lemma walk_frame:
  fixes h :: "('d, 'z) kheap_scheme"
  assumes sp: "space h L K d" and keep: "\<And>q k x. (q, k) \<in> K \<Longrightarrow> q \<notin> fst ` L \<Longrightarrow> x \<in> region q k \<Longrightarrow> m' x = mem h x"
  shows "mmu_walk m' d v = mmu_walk (mem h) d v"
proof -
  have ok: "pd_ok h K d" using sp by (simp add: space_def)
  note D = pd_okD [OF ok]
  have dL: "d \<notin> fst ` L" using sp by (simp add: space_def)
  have p: "pde m' d (dir_index v) = pde (mem h) d (dir_index v)"
    unfolding pde_def by (rule read_block_cong [OF D(2,1) dir_index_less keep [OF D(2) dL]])
  then have t: "pde_table m' d (dir_index v) = pde_table (mem h) d (dir_index v)" by (simp add: pde_table_def)
  show ?thesis
  proof (cases "pde (mem h) d (dir_index v) = 0")
    case True
    then show ?thesis by (simp add: mmu_walk_def p)
  next
    case False
    have T: "(pde_table (mem h) d (dir_index v), 4096) \<in> K" using D(4) [OF dir_index_less False] by simp
    have tL: "pde_table (mem h) d (dir_index v) \<notin> fst ` L"
    proof -
      have "pde_table (mem h) d (dir_index v) \<in> tables (mem h) d" using False dir_index_less by (auto simp: tables_def)
      then show ?thesis using sp unfolding space_def by blast
    qed
    have "read32 m' (entry_addr (pde_table (mem h) d (dir_index v)) (table_index v))
        = read32 (mem h) (entry_addr (pde_table (mem h) d (dir_index v)) (table_index v))"
      by (rule read_block_cong [OF T D(1) table_index_less keep [OF T tL]])
    then show ?thesis by (simp add: mmu_walk_def p t Let_def)
  qed
qed

section \<open>The pages of a stack\<close>

lemma stack_page_from:
  fixes us :: u32
  assumes "j < 4294967296 - unat us"
  shows "page_from (us AND 0xFFFFF000) (us + of_nat j) = (unat us mod 4096 + j) div 4096"
proof -
  have "unat (us + of_nat j) = unat us + j" using assms unat_less_2p32 [of us] by (intro unat_plus_of_nat) simp
  moreover have "us AND 0xFFFFF000 \<le> us + of_nat j"
    using calculation by (simp add: word_le_nat_alt unat_high12)
  ultimately have "unat ((us + of_nat j) - (us AND 0xFFFFF000)) = unat us + j - (unat us - unat us mod 4096)"
    by (subst unat_minus_le) (simp_all add: unat_high12)
  then show ?thesis by (simp add: page_from_def)
qed

section \<open>A process to make tasks of\<close>

lemma boot_tasks_procs:
  "placement_address (boot_tasks d) = placement_address (boot_procs d)" "mem (boot_tasks d) = mem (boot_procs d)"
  "global_base (boot_tasks d) = global_base (boot_procs d)"
  by (simp_all add: boot_tasks_def procs.extend_def)

lemma boot_tasks_simps [simp]:
  "heap_owns (boot_tasks d) {}" "placement_address (boot_tasks d) = 0x20000" "task_head (boot_tasks d) = 0"
  "task_tail (boot_tasks d) = 0" "current_task (boot_tasks d) = 0" "tasks (boot_tasks d) = Map.empty"
proof -
  show "heap_owns (boot_tasks d) {}"
    using heap_owns_same [OF boot_tasks_procs(2,1,3)] boot_procs_owns by blast
  show "placement_address (boot_tasks d) = 0x20000" unfolding boot_tasks_procs by (rule boot_procs_simps)
qed (simp_all add: boot_tasks_def procs.extend_def)

text \<open>A process whose directory \<open>paging_new_4gb\<close> has just made, as the loaders do.\<close>

lemma fresh_directory:
  obtains s :: "ata tasks" and L K d c where "space s L K d" "dir_of s 8 L d"
    "procs s 8 = Some (zero_process\<lparr>paging_chunk := c, proc_ptr := 0x400000\<rparr>)" "task_list s []"
    "page_room s 116" "unat (placement_address s) < 0x50000" "current_task s = 0"
    "\<forall>v. unat v < 0x4000000 \<longrightarrow> mmu_walk (mem s) d v = Some ((v AND 0xFFFFF000) OR 3)"
proof -
  let ?b = "boot_tasks sample_drives"
  have a: "heap_owns ?b {}" "page_room ?b (20 + 116)" "(3 :: u8) AND 1 = 1"
    "unat (placement_address ?b) + 139556 < 4294967296" by (simp_all add: page_room_def)
  note n0 = space_new [OF a]
  obtain c d h K where n: "c \<noteq> 0" "read32 (mem h) c = d" "heap_only ?b h" "space h (insert (c, 4) {}) K d"
    "\<forall>v. mmu_walk (mem h) d v = (if unat v < 64 * 1024 * 1024 then Some ((v AND 0xFFFFF000) OR ucast (3 :: u8)) else None)"
    "page_room h 116" "unat (placement_address h) \<le> unat (placement_address ?b) + 139556"
    by (rule n0) blast
  have po: "paging_only ?b h" by (rule heap_only_paging [OF n(3)])
  note t = tasks_onlyD [OF tasks_only_paging [OF po]]
  let ?s = "h\<lparr>procs := [8 \<mapsto> zero_process\<lparr>paging_chunk := c, proc_ptr := 0x400000\<rparr>]\<rparr>"
  have "space ?s {(c, 4)} K d" using n(4) space_same [of ?s h] by simp
  moreover have "dir_of ?s 8 {(c, 4)} d" using n(2) by (simp add: dir_of_def)
  moreover have "task_list ?s []" using t(1,2) by (simp add: task_list_def)
  moreover have "page_room ?s 116" "unat (placement_address ?s) < 0x50000" using n(6,7) by (simp_all add: page_room_def)
  moreover have "current_task ?s = 0" using t(3) by simp
  moreover have "\<forall>v. unat v < 0x4000000 \<longrightarrow> mmu_walk (mem ?s) d v = Some ((v AND 0xFFFFF000) OR 3)" using n(5) by simp
  ultimately show ?thesis by (intro that [of ?s "{(c, 4)}" K d c]) simp_all
qed

section \<open>Properties\<close>

text \<open>C4: \<open>task_new\<close> appends one task to the list. The task has two fresh stacks of 16 KB, starts at the
  entry point of its process with its stack pointer on the last byte of its user stack, and becomes the
  current task, its process the current process, exactly when there was no task before. The tasks
  before it stay as they were but for the link of the last one, and owned memory stays.\<close>

theorem task_new_appends:
  fixes s :: "('d, 'z) tasks_scheme"
  assumes "space s L K d" and "dir_of s p L d" and "procs s p = Some pr" and "task_list s xs" and "set xs \<subseteq> fst ` K"
    and "page_room s 116" and "unat (placement_address s) + 65716 < 4294967296"
  shows "\<exists>t us ks s' K'. task_new p s = Some (t, s') \<and> task_list s' (xs @ [t])
    \<and> tasks s' t = Some (new_task p (proc_ptr pr) us ks (if xs = [] then 0 else last xs))
    \<and> current_task s' = (if xs = [] then t else current_task s)
    \<and> current_process s' = (if xs = [] then p else current_process s)
    \<and> task_values s' xs = task_values s xs
    \<and> heap_owns s' K' \<and> insert (us, 16384) (insert (ks, 16384) (insert (t, 68) K)) \<subseteq> K'
    \<and> distinct [us, ks, t] \<and> {us, ks, t} \<inter> fst ` K = {} \<and> keeps L (mem s) (mem s')"
proof -
  have page: "page_room s (116 + 0)" using assms(6) by simp
  obtain t us ks s' K' where n: "task_new p s = Some (t, s')" "task_list s' (xs @ [t])"
    "tasks s' t = Some (new_task p (proc_ptr pr) us ks (if xs = [] then 0 else last xs))"
    "\<forall>x. x \<noteq> t \<longrightarrow> map_option task_core (tasks s' x) = map_option task_core (tasks s x)"
    "current_task s' = (if xs = [] then t else current_task s)" "current_process s' = (if xs = [] then p else current_process s)"
    "space s' ({(us, 16384), (ks, 16384), (t, 68)} \<union> L) K' d" "K \<subseteq> K'"
    "distinct [us, ks, t]" "{us, ks, t} \<inter> fst ` K = {}" "keeps L (mem s) (mem s')"
    using task_new_spec [OF assms(1-5) page assms(7)] by (elim exE conjE) (rule that; assumption)
  have "t \<notin> set xs" using n(10) assms(5) by auto
  then have "task_values s' xs = task_values s xs"
    using n(4) assms(4) by (intro task_values_cong) (auto simp: task_list_def)
  moreover have "heap_owns s' K'" "insert (us, 16384) (insert (ks, 16384) (insert (t, 68) K)) \<subseteq> K'"
    using n(7,8) by (auto simp: space_def pd_ok_def)
  ultimately show ?thesis using n
    by - (rule exI [of _ t], rule exI [of _ us], rule exI [of _ ks], rule exI [of _ s'], rule exI [of _ K'], intro conjI; assumption)
qed

theorem task_new_appends_witness:
  "\<exists>(s :: ata tasks) t s' r. task_new 8 s = Some (t, s') \<and> task_list s' [t] \<and> current_task s' = t \<and> tasks s' t = Some r
    \<and> u_eip (regs r) = 0x400000"
proof -
  note f0 = fresh_directory
  obtain s :: "ata tasks" and L K d c where f: "space s L K d" "dir_of s 8 L d"
    "procs s 8 = Some (zero_process\<lparr>paging_chunk := c, proc_ptr := 0x400000\<rparr>)" "task_list s []"
    "page_room s 116" "unat (placement_address s) < 0x50000" by (rule f0) blast
  have "set [] \<subseteq> fst ` K" "unat (placement_address s) + 65716 < 4294967296" using f(6) by simp_all
  note task_new_appends [OF f(1-4) this(1) f(5) this(2)]
  then obtain t us ks s' where n: "task_new 8 s = Some (t, s')" "task_list s' ([] @ [t])" "current_task s' = (if True then t else current_task s)"
    "tasks s' t = Some (new_task 8 (proc_ptr (zero_process\<lparr>paging_chunk := c, proc_ptr := 0x400000\<rparr>)) us ks (if [] = ([] :: u32 list) then 0 else last []))"
    by (elim exE conjE) (rule that; simp)
  then show ?thesis by (intro exI [of _ s] exI [of _ t] exI [of _ s'] exI conjI, (simp; fail)+) (simp add: new_task_def user_regs_def)
qed

lemma entry_user: "(((x :: u32) AND 0xFFFFF000) OR 3) AND PAGING_ACCESS_FROM_ALL = 0" "(y OR USER_PAGE) AND USER_PAGE = USER_PAGE"
  by (simp_all add: paging_consts word_ao_dist word_bw_assocs word_ao_absorbs)







end
