(* ===== verification/TaskUser.thy ===== *)
theory TaskUser
  imports TaskProps
begin

text \<open>
  What a task reads from the memory of a user program: \<open>task_copy_string_from_user\<close> on the strings of a
  program, through the page directory of its task.
\<close>

section \<open>Strings in user memory\<close>

text \<open>The processor translates with directory \<open>d\<close>, the kernel's buffer of \<open>n\<close> bytes at \<open>phys\<close> is mapped
  onto itself, and byte \<open>j\<close> of the user's string lies at \<open>src j\<close>, outside the buffer, for \<open>j < k\<close>.\<close>

definition user_view ::
  "('d, 'z) paging_scheme \<Rightarrow> u32 \<Rightarrow> u32 \<Rightarrow> nat \<Rightarrow> u32 \<Rightarrow> (nat \<Rightarrow> u32) \<Rightarrow> nat \<Rightarrow> bool" where
  "user_view s d phys n v src k \<longleftrightarrow> (\<forall>j<n. cpu_translate s (phys + of_nat j) = Some (phys + of_nat j))
     \<and> (\<forall>j<k. cpu_translate s (v + of_nat j) = Some (src j) \<and> src j \<notin> region phys n) \<and> unat phys + n < 4294967296"

lemma user_view_write:
  fixes s :: "('d, 'z) paging_scheme"
  fixes c :: u8
  assumes sp: "space s L K d" "(phys, n) \<in> L" "cr3 s AND 0xFFFFF000 = d" and uv: "user_view s d phys n v src k" and i: "i < n"
  defines "s' \<equiv> s\<lparr>mem := (mem s)(phys + of_nat i := c)\<rparr>"
  shows "space s' L K d" "user_view s' d phys n v src k" "cr3 s' AND 0xFFFFF000 = d"
    "store_byte (phys + of_nat i) c s = Some s'" "\<And>j. j < k \<Longrightarrow> mem s' (src j) = mem s (src j)"
proof -
  have u: "unat (phys + of_nat i) = unat phys + i" using uv i by (intro unat_plus_of_nat) (simp add: user_view_def)
  then have a: "phys + of_nat i \<in> region phys n" using i by simp
  then have out: "((mem s)(phys + of_nat i := c)) x = mem s x" if "x \<notin> region phys n" for x
    using that by (auto simp del: in_region)
  note W = space_write [where m' = "(mem s)(phys + of_nat i := c)", OF sp(1,2) out]
  show "space s' L K d" unfolding s'_def by (rule W(1))
  have "cpu_translate s' x = cpu_translate s x" for x
    using W(2) sp(3) by (simp add: cpu_translate_def s'_def)
  then show "user_view s' d phys n v src k" using uv by (simp add: user_view_def)
  show "cr3 s' AND 0xFFFFF000 = d" using sp(3) by (simp add: s'_def)
  show "store_byte (phys + of_nat i) c s = Some s'" using uv i by (simp add: store_byte_def user_view_def s'_def)
  show "mem s' (src j) = mem s (src j)" if "j < k" for j
    using uv that a by (auto simp: user_view_def s'_def simp del: in_region)
qed

lemma copy_loop_spec:
  fixes s :: "('d, 'z) paging_scheme"
  assumes "space s L K d" "(phys, n) \<in> L" "cr3 s AND 0xFFFFF000 = d" "user_view s d phys n v src k" "i + m \<le> k" "i + m < n"
  shows "\<exists>j m'. copy_loop v phys i m s = Some (j, s\<lparr>mem := m'\<rparr>) \<and> i \<le> j \<and> j \<le> i + m
    \<and> (\<forall>l. i \<le> l \<longrightarrow> l < j \<longrightarrow> mem s (src l) \<noteq> 0 \<and> m' (phys + of_nat l) = mem s (src l)) \<and> (j < i + m \<longrightarrow> mem s (src j) = 0)
    \<and> (\<forall>x. x \<notin> (\<lambda>l. phys + of_nat l) ` {i..<min n (i + m)} \<longrightarrow> m' x = mem s x)
    \<and> space (s\<lparr>mem := m'\<rparr>) L K d \<and> user_view (s\<lparr>mem := m'\<rparr>) d phys n v src k"
  using assms
proof (induction m arbitrary: i s)
  case 0
  then show ?case by (intro exI [of _ i] exI [of _ "mem s"]) auto
next
  case (Suc m)
  let ?c = "mem s (src i)"
  let ?s1 = "s\<lparr>mem := (mem s)(phys + of_nat i := ?c)\<rparr>"
  have i: "i < k" "i < n" using Suc.prems(5,6) by simp_all
  note W = user_view_write [OF Suc.prems(1-4) i(2), where c = ?c]
  have ld: "load_byte (v + of_nat i) s = Some ?c" "load_byte (v + of_nat i) ?s1 = Some ?c"
    using Suc.prems(4) W(2) W(5) [OF i(1)] i(1) by (auto simp: load_byte_def user_view_def)
  have inj: "phys + of_nat l \<noteq> phys + of_nat i" if "l < n" "l \<noteq> i" for l
  proof -
    have "unat (phys + of_nat l) = unat phys + l" "unat (phys + of_nat i) = unat phys + i"
      using Suc.prems(4) i that by (intro unat_plus_of_nat; simp add: user_view_def)+
    then show ?thesis using that by auto
  qed
  show ?case
  proof (cases "?c = 0")
    case True
    then have run: "copy_loop v phys i (Suc m) s = Some (i, ?s1)" using ld W(4) by simp
    have "phys + of_nat i \<in> (\<lambda>l. phys + of_nat l) ` {i..<min n (i + Suc m)}" using i by auto
    then have "\<forall>x. x \<notin> (\<lambda>l. phys + of_nat l) ` {i..<min n (i + Suc m)} \<longrightarrow> ((mem s)(phys + of_nat i := ?c)) x = mem s x"
      by auto
    then show ?thesis
      using run True W(1,2) by - (rule exI [of _ i], rule exI [of _ "(mem s)(phys + of_nat i := ?c)"], intro conjI; (assumption | simp))
  next
    case False
    have "Suc i + m \<le> k" "Suc i + m < n" using Suc.prems(5,6) by simp_all
    note H = Suc.IH [OF W(1) Suc.prems(2) W(3,2) this]
    obtain j m' where r: "copy_loop v phys (Suc i) m ?s1 = Some (j, ?s1\<lparr>mem := m'\<rparr>)" "Suc i \<le> j" "j \<le> Suc i + m"
      "\<forall>l. Suc i \<le> l \<longrightarrow> l < j \<longrightarrow> mem ?s1 (src l) \<noteq> 0 \<and> m' (phys + of_nat l) = mem ?s1 (src l)"
      "j < Suc i + m \<longrightarrow> mem ?s1 (src j) = 0"
      "\<forall>x. x \<notin> (\<lambda>l. phys + of_nat l) ` {Suc i..<min n (Suc i + m)} \<longrightarrow> m' x = mem ?s1 x"
      "space (?s1\<lparr>mem := m'\<rparr>) L K d" "user_view (?s1\<lparr>mem := m'\<rparr>) d phys n v src k"
      using H by (elim exE conjE) (rule that; assumption)
    have keep: "mem ?s1 (src l) = mem s (src l)" if "l < k" for l using W(5) that .
    have "copy_loop v phys i (Suc m) s = Some (j, s\<lparr>mem := m'\<rparr>)" using ld W(4) False r(1) by simp
    moreover have "mem s (src l) \<noteq> 0 \<and> m' (phys + of_nat l) = mem s (src l)" if "i \<le> l" "l < j" for l
    proof (cases "l = i")
      case True
      have "phys + of_nat i \<notin> (\<lambda>l. phys + of_nat l) ` {Suc i..<min n (Suc i + m)}" using inj by fastforce
      then show ?thesis using True False r(6) by simp
    next
      case False
      then have "Suc i \<le> l" "l < k" using that r(3) Suc.prems(5) by simp_all
      then have "mem ?s1 (src l) \<noteq> 0 \<and> m' (phys + of_nat l) = mem ?s1 (src l)" using r(4) that(2) by blast
      then show ?thesis unfolding keep [OF \<open>l < k\<close>] .
    qed
    moreover have "j < i + Suc m \<longrightarrow> mem s (src j) = 0" using r(5) keep [of j] Suc.prems(5) by simp
    moreover have "m' x = mem s x" if "x \<notin> (\<lambda>l. phys + of_nat l) ` {i..<min n (i + Suc m)}" for x
    proof -
      have "x \<noteq> phys + of_nat i" "x \<notin> (\<lambda>l. phys + of_nat l) ` {Suc i..<min n (Suc i + m)}"
        using that i by (auto simp: image_iff)
      then show ?thesis using r(6) by simp
    qed
    ultimately show ?thesis
      using r(2,3,7,8) by (intro exI [of _ j] exI [of _ m']) simp
  qed
qed

lemma length_takeWhile_eq:
  assumes "j \<le> m" "\<And>l. l < j \<Longrightarrow> P (f l)" "j < m \<Longrightarrow> \<not> P (f j)"
  shows "length (takeWhile P (map f [0..<m])) = j"
proof -
  have "map f [0..<m] = map f [0..<j] @ map f [j..<m]"
    using assms(1) upt_add_eq_append [of 0 j "m - j"] by simp
  moreover have "takeWhile P (map f [j..<m]) = []"
    using assms(3) by (cases "j < m") (simp_all add: upt_conv_Cons)
  ultimately show ?thesis using assms(2) by (simp add: takeWhile_append)
qed

section \<open>Properties\<close>

text \<open>C17: \<open>task_copy_string_from_user\<close> copies the bytes before the first zero of the user's string, at most
  \<open>max - 1\<close> of them, to the kernel's buffer, ends them with a zero there, returns their number, writes nothing
  but the first \<open>max\<close> bytes of the buffer, and puts the page directory of the current task back. The string is read through
  the page directory of its own task.\<close>

theorem task_copy_string_copies:
  fixes s :: "('d, 'z) tasks_scheme"
  assumes "task_directory (current_task s) s = Some d0" and "task_directory t s = Some d"
    and "space s L K d" and "(phys, n) \<in> L" and "user_view (paging_switch d s) d phys n v src n" and "0 < n"
  defines "cs \<equiv> takeWhile (\<lambda>c. c \<noteq> 0) (map (\<lambda>j. mem s (src j)) [0..<n - 1])"
  shows "\<exists>m'. task_copy_string_from_user t v phys (int n) s = Some (int (length cs), s\<lparr>mem := m', cr3 := d0, current_directory := d0\<rparr>)
    \<and> (\<forall>j < length cs. m' (phys + of_nat j) = cs ! j) \<and> m' (phys + of_nat (length cs)) = 0
    \<and> (\<forall>x. x \<notin> region phys n \<longrightarrow> m' x = mem s x)"
proof -
  let ?s1 = "paging_switch d s"
  have s1: "?s1 = s\<lparr>cr3 := d, current_directory := d\<rparr>" by (simp add: paging_switch_def paging_load_directory_def)
  have sp: "space ?s1 L K d" unfolding s1 using assms(3) space_same [of "s\<lparr>cr3 := d, current_directory := d\<rparr>" s] by simp
  have "d AND 0xFFF = 0" using assms(3) by (simp add: space_def pd_ok_def)
  then have "unat d mod 4096 = 0" by (metis unat_low12 unat_0)
  then have "unat (d AND 0xFFFFF000) = unat d" by (simp add: unat_high12)
  then have "d AND 0xFFFFF000 = d" by (simp only: word_unat_eq_iff)
  then have d: "cr3 ?s1 AND 0xFFFFF000 = d" unfolding s1 by simp
  have k: "0 + (n - 1) \<le> n" "0 + (n - 1) < n" using assms(6) by simp_all
  note H = copy_loop_spec [OF sp assms(4) d assms(5) k]
  obtain j m' where r: "copy_loop v phys 0 (n - 1) ?s1 = Some (j, ?s1\<lparr>mem := m'\<rparr>)" "j \<le> 0 + (n - 1)"
    "\<forall>l. 0 \<le> l \<longrightarrow> l < j \<longrightarrow> mem ?s1 (src l) \<noteq> 0 \<and> m' (phys + of_nat l) = mem ?s1 (src l)"
    "j < 0 + (n - 1) \<longrightarrow> mem ?s1 (src j) = 0"
    "\<forall>x. x \<notin> (\<lambda>l. phys + of_nat l) ` {0..<min n (0 + (n - 1))} \<longrightarrow> m' x = mem ?s1 x"
    "space (?s1\<lparr>mem := m'\<rparr>) L K d" "user_view (?s1\<lparr>mem := m'\<rparr>) d phys n v src n"
    using H by (elim exE conjE) (rule that; assumption)
  have j: "j < n" using r(2) assms(6) by simp
  note W = user_view_write [OF r(6) assms(4) _ r(7) j, where c = 0]
  have st: "store_byte (phys + of_nat j) 0 (?s1\<lparr>mem := m'\<rparr>) = Some (?s1\<lparr>mem := m'(phys + of_nat j := 0)\<rparr>)"
    using W(4) d by (simp add: s1)
  have in_buf: "unat (phys + of_nat l) = unat phys + l" if "l < n" for l
    using assms(5) that by (intro unat_plus_of_nat) (simp add: user_view_def)
  have len: "length cs = j"
    unfolding cs_def using r(2,3,4) by (intro length_takeWhile_eq) (auto simp: s1)
  have "m' x = mem s x" if "x \<notin> region phys n" for x
  proof -
    have "x \<notin> (\<lambda>l. phys + of_nat l) ` {0..<min n (0 + (n - 1))}" using that in_buf by auto
    then show ?thesis using r(5) by (simp add: s1)
  qed
  moreover have "phys + of_nat j \<in> region phys n" using in_buf [OF j] j by simp
  ultimately have out: "(m'(phys + of_nat j := 0)) x = mem s x" if "x \<notin> region phys n" for x using that by auto
  have "(m'(phys + of_nat j := 0)) (phys + of_nat l) = cs ! l" if "l < j" for l
  proof -
    have "phys + of_nat l \<noteq> phys + of_nat j" using in_buf [of l] in_buf [OF j] that j by auto
    moreover have "cs ! l = mem s (src l)" using that r(2) len unfolding cs_def by (subst takeWhile_nth) simp_all
    ultimately show ?thesis using r(3) that by (simp add: s1)
  qed
  moreover have "task_copy_string_from_user t v phys (int n) s
      = Some (int j, s\<lparr>mem := m'(phys + of_nat j := 0), cr3 := d0, current_directory := d0\<rparr>)"
  proof -
    have "nat (int n - 1) = n - 1" using assms(6) by simp
    then show ?thesis
      using assms(1,2,6) r(1) st
      by (simp add: task_copy_string_from_user_def task_current_def paging_switch_def paging_load_directory_def)
  qed
  ultimately show ?thesis using out len by (intro exI [of _ "m'(phys + of_nat j := 0)"]) simp
qed

theorem task_copy_string_copies_witness:
  "\<exists>(s :: ata tasks) phys r m'. task_copy_string_from_user 4 0xB8000 phys 16 s = Some (r, s\<lparr>mem := m', cr3 := cr3 s, current_directory := cr3 s\<rparr>)
    \<and> r \<le> 15 \<and> m' (phys + of_nat (nat r)) = 0"
proof -
  note f0 = fresh_directory
  obtain s0 :: "ata tasks" and L K d c where f: "space s0 L K d" "dir_of s0 8 L d" "page_room s0 116"
    "unat (placement_address s0) < 0x50000"
    "\<forall>v. unat v < 0x4000000 \<longrightarrow> mmu_walk (mem s0) d v = Some ((v AND 0xFFFFF000) OR 3)" by (rule f0) blast
  have n: "unat (16 :: u32) = 16" "(16 :: nat) \<noteq> 0" "unat (placement_address s0) + (16 + 16) < 4294967296"
    "page_room s0 ((16 + 16) mod 4096 + 84)" using f(3,4) by simp_all
  note k0 = space_kmalloc [OF f(1) n]
  obtain q s1 where k: "space_grows s0 L K d s1 (insert (q, 16) L) (insert (q, 16) K) (16 + 16)" by (rule k0) blast
  have g: "space s1 (insert (q, 16) L) (insert (q, 16) K) d" "heap_only s0 s1" "keeps L (mem s0) (mem s1)"
    "\<forall>v. mmu_walk (mem s1) d v = mmu_walk (mem s0) d v" "unat (placement_address s1) \<le> unat (placement_address s0) + 32"
    using k by (simp_all add: space_grows_def)
  have pr: "procs s1 = procs s0" by (rule paging_only_procs [OF heap_only_paging [OF g(2)]])
  have d1: "dir_of s1 8 (insert (q, 16) L) d"
    by (rule dir_of_keeps [OF f(2) pr g(3) space_owns [OF f(1)]]) (use f(1) in \<open>auto simp: space_def\<close>)
  let ?s = "s1\<lparr>tasks := [4 \<mapsto> zero_task\<lparr>task_process := 8\<rparr>], current_task := 4, cr3 := d, cr0 := 0x80000000\<rparr>"
  have sp: "space ?s (insert (q, 16) L) (insert (q, 16) K) d" using g(1) space_same [of ?s s1] by simp
  have dir: "dir_of ?s 8 (insert (q, 16) L) d" using d1 dir_of_cong [of ?s s1] by simp
  then have td: "task_directory 4 ?s = Some d" "task_directory (current_task ?s) ?s = Some d"
    using dir_of_directory by (simp_all add: task_directory_def)
  have b: "unat q + 16 \<le> unat (placement_address s1)" using heap_owns_bounds(2) [OF space_owns [OF g(1)]] by blast
  have "d AND 0xFFFFF000 = d" using g(1) aligned_high12 by (auto simp: space_def pd_ok_def)
  moreover have "(((v AND 0xFFFFF000) OR 3) AND 0xFFFFF000) + (v AND 0xFFF) = v" for v :: u32
    using or_flags_high12 [OF high12_low flags_bits(1), of v 3] low_high12 [of v] by simp
  ultimately have tr: "cpu_translate (paging_switch d ?s) v = Some v" if "unat v < 0x4000000" for v
    using f(5) g(4) that by (simp add: cpu_translate_def paging_switch_def paging_load_directory_def)
  have "user_view (paging_switch d ?s) d q 16 0xB8000 (\<lambda>j. 0xB8000 + of_nat j) 16"
  proof -
    have "unat (q + of_nat j) = unat q + j" "unat (0xB8000 + of_nat j :: u32) = 0xB8000 + j" if "j < 16" for j
      using that b g(5) f(4) by (intro unat_plus_of_nat, simp, subst unat_plus_of_nat, simp_all)
    then show ?thesis using b g(5) f(4) tr by (simp add: user_view_def)
  qed
  have pos: "(0 :: nat) < 16" by simp
  let ?cs = "takeWhile (\<lambda>c. c \<noteq> 0) (map (\<lambda>j. mem ?s (0xB8000 + of_nat j)) [0..<16 - 1])"
  obtain m' where m: "task_copy_string_from_user 4 0xB8000 q (int 16) ?s = Some (int (length ?cs), ?s\<lparr>mem := m', cr3 := d, current_directory := d\<rparr>)"
    "m' (q + of_nat (length ?cs)) = 0"
    using task_copy_string_copies [OF td(2,1) sp insertI1 \<open>user_view _ _ _ _ _ _ _\<close> pos] by (elim exE conjE) (rule that; assumption)
  have l: "length ?cs \<le> 15" using length_takeWhile_le [of "\<lambda>c. c \<noteq> 0" "map (\<lambda>j. mem ?s (0xB8000 + of_nat j)) [0..<16 - 1]"] by simp
  define k where "k = length ?cs"
  show ?thesis
    using m l unfolding k_def [symmetric] by (intro exI [of _ ?s] exI [of _ q] exI [of _ "int k"] exI [of _ m']) simp
qed

end
