(* ===== verification/ElfProps.thy ===== *)
theory ElfProps
  imports Loader VfsProps TaskProps
begin

text \<open>
  What the loader does with a well-formed file: the segments' bytes are in fresh memory, zeros
  behind them, and the process's page directory shows them at the addresses of the headers. With
  it, what the loader does not handle.
\<close>

section \<open>Reading and allocating side by side\<close>

text \<open>Everything that loading a segment may change.\<close>

definition load_only :: "('d, 'z) procs_scheme \<Rightarrow> ('d, 'z) procs_scheme \<Rightarrow> bool" where
  "load_only s s' \<longleftrightarrow> s' = s\<lparr>mem := mem s', placement_address := placement_address s', global_base := global_base s',
     invlpg_log := invlpg_log s', dev := dev s', streams := streams s', fat_files := fat_files s'\<rparr>"

lemma load_only_refl [simp]: "load_only s s"
  by (simp add: load_only_def)

lemma load_only_trans: "load_only s s' \<Longrightarrow> load_only s' s'' \<Longrightarrow> load_only s s''"
  unfolding load_only_def by (erule ssubst [of s'']) (erule ssubst [of s' _ "\<lambda>z. _ z = _ z"] | simp)+

lemma paging_only_load: "paging_only s s' \<Longrightarrow> load_only s s'"
  for s :: "('d, 'z) procs_scheme"
  unfolding paging_only_def load_only_def by (erule ssubst) simp

lemma file_io_load: "file_io s s' \<Longrightarrow> load_only s s'"
  for s :: "('d, 'z) procs_scheme"
  unfolding file_io_def load_only_def by (erule ssubst) simp

lemma load_only_mem [simp]: "load_only s (s\<lparr>mem := m\<rparr>)"
  by (simp add: load_only_def)

lemma load_onlyD:
  fixes s :: "('d, 'z) procs_scheme"
  assumes "load_only s s'"
  shows "procs s' = procs s" "process_head s' = process_head s" "process_tail s' = process_tail s" "current_id s' = current_id s"
    "current_process s' = current_process s" "cr3 s' = cr3 s" "cr0 s' = cr0 s" "file_descriptors s' = file_descriptors s"
    "fds s' = fds s"
proof -
  have e: "s' = s\<lparr>mem := mem s', placement_address := placement_address s', global_base := global_base s',
     invlpg_log := invlpg_log s', dev := dev s', streams := streams s', fat_files := fat_files s'\<rparr>"
    using assms by (simp add: load_only_def)
  show "procs s' = procs s" "process_head s' = process_head s" "process_tail s' = process_tail s" "current_id s' = current_id s"
    "current_process s' = current_process s" "cr3 s' = cr3 s" "cr0 s' = cr0 s" "file_descriptors s' = file_descriptors s"
    "fds s' = fds s"
    by (subst e, simp)+
qed

lemma file_ioD:
  fixes s :: "('d, 'z) procs_scheme"
  assumes "file_io s s'"
  shows "mem s' = mem s" "placement_address s' = placement_address s" "global_base s' = global_base s" "procs s' = procs s"
proof -
  have e: "s' = s\<lparr>dev := dev s', streams := streams s', fat_files := fat_files s'\<rparr>" using assms by (simp add: file_io_def)
  show "mem s' = mem s" "placement_address s' = placement_address s" "global_base s' = global_base s" "procs s' = procs s"
    by (subst e, simp)+
qed

lemma file_io_space:
  fixes s :: "('d, 'z) procs_scheme"
  assumes "file_io s s'"
  shows "space s' L K d \<longleftrightarrow> space s L K d" "dir_of s' p L d \<longleftrightarrow> dir_of s p L d" "page_room s' m \<longleftrightarrow> page_room s m"
  using file_ioD [OF assms] space_same [of s' s] dir_of_cong [of s' s] page_room_same [of s' s] by auto

section \<open>The file that is loaded\<close>

text \<open>Descriptor \<open>fd\<close> is open on a file with contents \<open>xs\<close>, at position \<open>i\<close>.\<close>

definition reading ::
  "(ata, 'z) vfs_scheme \<Rightarrow> (u32 \<Rightarrow> (ata, 'z) vfs_scheme filesystem option) \<Rightarrow> int \<Rightarrow> u8 list \<Rightarrow> nat \<Rightarrow> bool" where
  "reading s fss fd xs i \<longleftrightarrow> (\<exists>d. open_fd s fd d \<and> fss (filesystem d) = Some (fat16_fs ata_io)
     \<and> fat_is_file s (fd_disk d) (fd_private d) xs i)"

lemma reading_same:
  assumes "same_tables s s'" "disks s' = disks s" "fat_privates s' = fat_privates s" "dev s' = dev s"
    "streams s' = streams s" "fat_files s' = fat_files s"
  shows "reading s' fss fd xs i \<longleftrightarrow> reading s fss fd xs i"
  using open_fd_same [OF assms(1)] assms(2-) by (simp add: reading_def fat_is_file_def mounted_def private_of_def)

lemma reading_paging:
  fixes s :: "(ata, 'z) procs_scheme"
  assumes "paging_only s s'"
  shows "reading s' fss fd xs i \<longleftrightarrow> reading s fss fd xs i"
proof -
  have e: "s' = s\<lparr>mem := mem s', placement_address := placement_address s', global_base := global_base s',
      invlpg_log := invlpg_log s'\<rparr>" using assms by (simp add: paging_only_def)
  show ?thesis by (subst e, rule reading_same) (simp_all add: same_tables_def)
qed

lemma reading_procs [simp]:
  fixes s :: "(ata, 'z) procs_scheme"
  shows "reading (s\<lparr>mem := a\<rparr>) fss fd xs i \<longleftrightarrow> reading s fss fd xs i" "reading (s\<lparr>procs := b\<rparr>) fss fd xs i \<longleftrightarrow> reading s fss fd xs i"
  by (rule reading_same; simp add: same_tables_def)+

lemma reading_bounds: "reading s fss fd xs i \<Longrightarrow> i \<le> length xs \<and> length xs < 2147483648"
  unfolding reading_def using fat_file.bounds by blast

lemma reading_step:
  assumes "reading s fss fd xs i" "legal_op op"
  shows "\<exists>s'. fd_step fss fd op s = Some (fst (abs_step xs i op), s') \<and> reading s' fss fd xs (snd (abs_step xs i op)) \<and> file_io s s'"
proof -
  obtain d where d: "open_fd s fd d" "fss (filesystem d) = Some (fat16_fs ata_io)" "fat_is_file s (fd_disk d) (fd_private d) xs i"
    using assms(1) by (auto simp: reading_def)
  obtain s' where s': "fd_step fss fd op s = Some (fst (abs_step xs i op), s')"
    "fat_is_file s' (fd_disk d) (fd_private d) xs (snd (abs_step xs i op))" "file_io s s'"
    using fat_file.step_refines [of s fd d fss xs i op] d assms(2) by blast
  have "open_fd s' fd d" using d(1) open_fd_same [OF file_io_tables [OF s'(3)]] by simp
  then show ?thesis using s' d(2) by (auto simp: reading_def)
qed

lemma reading_fread:
  assumes r: "reading s fss fd xs i" and n: "unat sz = n" "n \<noteq> 0" "n \<le> 2147483648"
  shows "\<exists>s'. fread fss sz 1 fd s = Some (if i + n \<le> length xs then 1 else 0, take n (drop i xs), s')
    \<and> reading s' fss fd xs (i + min n (length xs - i)) \<and> file_io s s'"
proof -
  have op: "legal_op (Read sz 1)" using n by (auto simp: legal_op_def)
  have q: "int (min n (length xs - i) div n) = (if i + n \<le> length xs then 1 else 0)"
    using n(2) reading_bounds [OF r] by (auto simp: min_def)
  have t: "take (min n (length xs - i)) (drop i xs) = take n (drop i xs)" by (simp add: min_def)
  show ?thesis
    using reading_step [OF r op] n(1) q t by (auto simp: fd_step_def abs_step_def Let_def bind_eq_Some_conv)
qed

lemma reading_fseek:
  assumes r: "reading s fss fd xs i" and k: "k \<le> length xs"
  shows "\<exists>s'. fseek fss fd (int k) FILE_SEEK_SET s = Some (0, s') \<and> reading s' fss fd xs k \<and> file_io s s'"
proof -
  have op: "legal_op (Seek (int k) FILE_SEEK_SET)" using reading_bounds [OF r] k by (auto simp: legal_op_def)
  show ?thesis
    using reading_step [OF r op] k by (auto simp: fd_step_def abs_step_def abs_seek_def Let_def bind_eq_Some_conv)
qed

lemma reading_ftell:
  assumes r: "reading s fss fd xs i"
  shows "ftell fss fd s = Some (int i)"
  using reading_step [OF r, of Tell] by (auto simp: fd_step_def abs_step_def legal_op_def bind_eq_Some_conv)

section \<open>One segment\<close>

text \<open>The bytes of a segment, and the headers that the loader handles.\<close>

definition segment_bytes :: "u8 list \<Rightarrow> Elf32_Phdr \<Rightarrow> u8 list" where
  "segment_bytes xs ph = take (unat (p_filesz ph)) (drop (unat (p_offset ph)) xs)
     @ replicate (unat (p_memsz ph) - unat (p_filesz ph)) 0"

definition segment_ok :: "u8 list \<Rightarrow> Elf32_Phdr \<Rightarrow> bool" where
  "segment_ok xs ph \<longleftrightarrow> 0 < unat (p_filesz ph) \<and> unat (p_filesz ph) \<le> unat (p_memsz ph)
     \<and> unat (p_offset ph) + unat (p_filesz ph) \<le> length xs \<and> unat (p_memsz ph) \<le> 0x7FFFF000
     \<and> unat (p_memsz ph) mod 4096 \<le> 4080 \<and> paging_is_aligned (p_vaddr ph)"

definition segment_pages :: "Elf32_Phdr \<Rightarrow> nat" where
  "segment_pages ph = (unat (p_memsz ph) + 4095) div 4096"

definition segment_cost :: "Elf32_Phdr \<Rightarrow> nat" where
  "segment_cost ph = 4112 + unat (p_memsz ph) + 8208 * segment_pages ph"

definition segment_map :: "Elf32_Phdr \<Rightarrow> u32 \<Rightarrow> (u32 \<Rightarrow> u32 option) \<Rightarrow> u32 \<Rightarrow> u32 option" where
  "segment_map ph q w v = (if page_from (p_vaddr ph) v < segment_pages ph
     then Some ((q + of_nat (4096 * page_from (p_vaddr ph) v)) OR USER_PAGE) else w v)"

definition segment_in :: "ram \<Rightarrow> u8 list \<Rightarrow> Elf32_Phdr \<Rightarrow> u32 \<Rightarrow> bool" where
  "segment_in m xs ph q \<longleftrightarrow> (\<forall>j<unat (p_memsz ph). m (q + of_nat j) = segment_bytes xs ph ! j)"

lemma segment_in_keeps:
  assumes "segment_in m xs ph q" "keeps L m m'" "(q, unat (p_memsz ph)) \<in> L" "unat q + unat (p_memsz ph) < 4294967296"
  shows "segment_in m' xs ph q"
  unfolding segment_in_def
proof (intro allI impI)
  fix j assume j: "j < unat (p_memsz ph)"
  then have "unat (q + of_nat j) = unat q + j" using assms(4) by (intro unat_plus_of_nat) simp
  then have "q + of_nat j \<in> region q (unat (p_memsz ph))" using j by simp
  then have "m' (q + of_nat j) = m (q + of_nat j)" using assms(2,3) by (simp add: keeps_def del: in_region)
  then show "m' (q + of_nat j) = segment_bytes xs ph ! j" using assms(1) j by (simp add: segment_in_def)
qed

lemma segment_written:
  assumes ok: "segment_ok xs ph" and q: "unat q + unat (p_memsz ph) < 4294967296"
  shows "segment_in (put_bytes q (take (unat (p_filesz ph)) (drop (unat (p_offset ph)) xs))
      (fill_bytes q 0 (unat (p_memsz ph)) m)) xs ph q"
  unfolding segment_in_def
proof (intro allI impI)
  let ?bs = "take (unat (p_filesz ph)) (drop (unat (p_offset ph)) xs)"
  fix j assume j: "j < unat (p_memsz ph)"
  have len: "length ?bs = unat (p_filesz ph)" using ok by (auto simp: segment_ok_def)
  have u: "unat (q + of_nat j) = unat q + j" using j q by (intro unat_plus_of_nat) simp
  have le: "unat q + length ?bs \<le> 4294967296" "unat q + unat (p_memsz ph) \<le> 4294967296"
    using q len ok by (simp_all add: segment_ok_def)
  show "put_bytes q ?bs (fill_bytes q 0 (unat (p_memsz ph)) m) (q + of_nat j) = segment_bytes xs ph ! j"
  proof (cases "j < length ?bs")
    case True
    then have "q + of_nat j \<in> region q (length ?bs)" using u by simp
    from put_bytes_simps(2) [OF le(1) this] True u show ?thesis
      by (simp add: segment_bytes_def nth_append del: length_take length_drop)
  next
    case False
    then have "q + of_nat j \<notin> region q (length ?bs)" "q + of_nat j \<in> region q (unat (p_memsz ph))" using u j by simp_all
    then have "put_bytes q ?bs (fill_bytes q 0 (unat (p_memsz ph)) m) (q + of_nat j) = 0"
      using put_bytes_simps(1) [OF le(1)] fill_bytes_simps(2) [OF le(2)] by (simp del: in_region)
    then show ?thesis using False j len by (simp add: segment_bytes_def nth_append del: length_take length_drop)
  qed
qed

lemma load_segment_spec:
  fixes s :: "(ata, 'z) procs_scheme"
  assumes sp: "space s L K d" and dir: "dir_of s p L d" and rd: "reading s fss fd xs i" and ok: "segment_ok xs ph"
    and page: "page_room s 0" and room: "unat (placement_address s) + segment_cost ph < 4294967296"
  shows "\<exists>q s' K'. load_segment fss fd p ph s = Some (0, s') \<and> space s' (insert (q, unat (p_memsz ph)) L) K' d
    \<and> dir_of s' p (insert (q, unat (p_memsz ph)) L) d \<and> reading s' fss fd xs i \<and> q AND 0xFFF = 0 \<and> q \<notin> fst ` K \<and> K \<subseteq> K'
    \<and> segment_in (mem s') xs ph q \<and> (\<forall>v. mmu_walk (mem s') d v = segment_map ph q (mmu_walk (mem s) d) v)
    \<and> keeps L (mem s) (mem s') \<and> load_only s s' \<and> page_room s' 0
    \<and> unat (placement_address s') \<le> unat (placement_address s) + segment_cost ph"
proof -
  let ?n = "unat (p_memsz ph)" and ?f = "unat (p_filesz ph)" and ?o = "unat (p_offset ph)"
  let ?bs = "take ?f (drop ?o xs)"
  have n: "?n \<noteq> 0" "unat (placement_address s) + (4112 + ?n) < 4294967296" "?n mod 4096 + 0 \<le> 4080"
    using ok room by (simp_all add: segment_ok_def segment_cost_def)
  note k0 = space_kmalloc_a [OF sp refl n(1,2) page n(3)]
  obtain q s1 where k: "kmalloc_a (p_memsz ph) s = Some (q, s1)" "q AND 0xFFF = 0" "q \<notin> fst ` K"
    "space_grows s L K d s1 (insert (q, ?n) L) (insert (q, ?n) K) (4112 + ?n)" "page_room s1 0" by (rule k0) blast
  have qL: "q \<notin> fst ` L" using k(3) sp by (auto simp: space_def)
  have "heap_owns s1 (insert (q, ?n) K)" using k(4) space_owns by (auto simp: space_grows_def)
  note b = heap_owns_bounds(4) [OF this insertI1]
  then have b': "unat q + ?n \<le> 4294967296" by simp
  let ?m2 = "fill_bytes q 0 ?n (mem s1)"
  let ?s2 = "s1\<lparr>mem := ?m2\<rparr>"
  have po1: "paging_only s s1" using k(4) by (simp add: space_grows_def heap_only_paging)
  have r2: "reading ?s2 fss fd xs i" using rd reading_paging [OF po1] by simp
  have o: "?o \<le> length xs" "?o < 2147483648" using ok reading_bounds [OF rd] by (auto simp: segment_ok_def)
  obtain s3 where s3: "fseek fss fd (sint (p_offset ph)) FILE_SEEK_SET ?s2 = Some (0, s3)" "reading s3 fss fd xs ?o" "file_io ?s2 s3"
    using reading_fseek [OF r2 o(1)] sint_small [OF o(2)] by auto
  have f: "?f \<noteq> 0" "?f \<le> 2147483648" "?o + ?f \<le> length xs" "?f \<le> ?n"
    using ok reading_bounds [OF rd] by (auto simp: segment_ok_def)
  obtain s4 where s4: "fread fss (p_filesz ph) 1 fd s3 = Some (1, ?bs, s4)" "reading s4 fss fd xs (?o + min ?f (length xs - ?o))" "file_io s3 s4"
    using reading_fread [OF s3(2) refl f(1,2)] f(3) by auto
  let ?m5 = "put_bytes q ?bs ?m2"
  let ?s5 = "s4\<lparr>mem := ?m5\<rparr>"
  have m4: "mem s4 = ?m2" using file_ioD(1) [OF s3(3)] file_ioD(1) [OF s4(3)] by simp
  have r5: "reading ?s5 fss fd xs (?o + min ?f (length xs - ?o))" using s4(2) by simp
  have i: "i \<le> length xs" using reading_bounds [OF rd] by simp
  obtain s6 where s6: "fseek fss fd (int i) FILE_SEEK_SET ?s5 = Some (0, s6)" "reading s6 fss fd xs i" "file_io ?s5 s6"
    using reading_fseek [OF r5 i] by auto
  have out: "?m5 x = mem s1 x" if "x \<notin> region q ?n" for x
  proof -
    have "x \<notin> region q (length ?bs)" using that f(4) by auto
    then show ?thesis using put_bytes_simps(1) [of q ?bs] fill_bytes_simps(1) [OF b'] that b f(4) by (simp del: in_region)
  qed
  have g5: "space_grows s L K d (s1\<lparr>mem := ?m5\<rparr>) (insert (q, ?n) L) (insert (q, ?n) K) (4112 + ?n)"
    by (rule space_grows_write [OF k(4) insertI1 qL out])
  have m6: "mem s6 = ?m5" "placement_address s6 = placement_address s1" "global_base s6 = global_base s1"  "procs s6 = procs s"
    using file_ioD [OF s6(3)] file_ioD [OF s3(3)] file_ioD [OF s4(3)] paging_only_procs [OF po1] by simp_all
  have sp6: "space s6 (insert (q, ?n) L) (insert (q, ?n) K) d"
    using g5 space_same [of s6 "s1\<lparr>mem := ?m5\<rparr>"] m6 by (simp add: space_grows_def)
  have kp6: "keeps L (mem s) (mem s6)" and w6: "mmu_walk (mem s6) d v = mmu_walk (mem s) d v" for v
    using g5 m6 by (simp_all add: space_grows_def)
  have d6: "dir_of s6 p (insert (q, ?n) L) d"
    by (rule dir_of_keeps [OF dir m6(4) kp6 space_owns [OF sp]]) (use sp in \<open>auto simp: space_def\<close>)
  have al: "paging_is_aligned (p_vaddr ph)" and big: "?n \<le> 0x7FFFF000" using ok by (simp_all add: segment_ok_def)
  have pl6: "unat (placement_address s6) \<le> unat (placement_address s) + (4112 + ?n)" using k(4) m6 by (simp add: space_grows_def)
  have "\<forall>k \<in> set [0..<segment_pages ph]. k < 1048576" "page_room s6 0"
    "unat (placement_address s6) + 8208 * length [0..<segment_pages ph] < 4294967296"
    using big pl6 room k(5) m6 by (auto simp: segment_pages_def segment_cost_def page_room_def)
  note m0 = map_loop_spec [OF sp6 d6 al this(2,1,3), of q]
  obtain s7 K7 where m: "map_loop p (p_vaddr ph) q [0..<segment_pages ph] s6 = Some s7" "space s7 (insert (q, ?n) L) K7 d"
    "dir_of s7 p (insert (q, ?n) L) d" "paging_only s6 s7" "keeps (insert (q, ?n) L) (mem s6) (mem s7)" "page_room s7 0" "insert (q, ?n) K \<subseteq> K7"
    "unat (placement_address s7) \<le> unat (placement_address s6) + 8208 * length [0..<segment_pages ph]"
    "\<forall>v. mmu_walk (mem s7) d v = (if page_from (p_vaddr ph) v \<in> set [0..<segment_pages ph]
        then Some ((q + of_nat (4096 * page_from (p_vaddr ph) v)) OR USER_PAGE) else mmu_walk (mem s6) d v)"
    using m0 by (elim exE conjE) (rule that; assumption)
  have "load_segment fss fd p ph s = Some (0, s7)"
    using k(1) s3(1) s4(1) s6(1) m(1) f(3,4) big reading_ftell [OF r2] m4
    by (simp add: load_segment_def fread_into_def map_pages_def Let_def segment_pages_def)
  moreover have "reading s7 fss fd xs i" using s6(2) reading_paging [OF m(4)] by simp
  moreover have "segment_in (mem s7) xs ph q"
    using segment_in_keeps [OF _ m(5) insertI1 b] segment_written [OF ok b, of "mem s1"] m6(1) by simp
  moreover have "mmu_walk (mem s7) d v = segment_map ph q (mmu_walk (mem s) d) v" for v
    using m(9) w6 by (simp add: segment_map_def)
  moreover have "keeps L (mem s) (mem s7)" by (rule keeps_trans [OF kp6 m(5) subset_insertI])
  moreover have "load_only s s7"
  proof -
    have "load_only s ?s2" by (rule load_only_trans [OF paging_only_load [OF po1] load_only_mem])
    moreover have "load_only ?s2 ?s5"
      by (rule load_only_trans [OF file_io_load [OF file_io_trans [OF s3(3) s4(3)]] load_only_mem])
    moreover have "load_only ?s5 s7" by (rule load_only_trans [OF file_io_load [OF s6(3)] paging_only_load [OF m(4)]])
    ultimately show ?thesis using load_only_trans by blast
  qed
  moreover have "unat (placement_address s7) \<le> unat (placement_address s) + segment_cost ph"
    using m(8) pl6 by (simp add: segment_cost_def)
  moreover have "K \<subseteq> K7" using m(7) by simp
  ultimately show ?thesis
    using k(2,3) m(2,3,6) by (intro exI [of _ q] exI [of _ s7] exI [of _ K7]) simp
qed

section \<open>All segments\<close>

text \<open>The program headers, \<open>n\<close> of them from position \<open>i\<close> of the file on, and those to load.\<close>

fun phdrs :: "u8 list \<Rightarrow> nat \<Rightarrow> nat \<Rightarrow> Elf32_Phdr list" where
  "phdrs xs i 0 = []"
| "phdrs xs i (Suc n) = read_phdr (take 32 (drop i xs)) # phdrs xs (i + 32) n"

definition loads :: "u8 list \<Rightarrow> nat \<Rightarrow> nat \<Rightarrow> Elf32_Phdr list" where
  "loads xs i n = filter (\<lambda>ph. p_type ph = PT_LOAD) (phdrs xs i n)"

text \<open>The translations and the blocks after the segments have been loaded to \<open>qs\<close>.\<close>

definition image_map :: "Elf32_Phdr list \<Rightarrow> u32 list \<Rightarrow> (u32 \<Rightarrow> u32 option) \<Rightarrow> u32 \<Rightarrow> u32 option" where
  "image_map phs qs = fold (\<lambda>(ph, q). segment_map ph q) (zip phs qs)"

definition image_blocks :: "Elf32_Phdr list \<Rightarrow> u32 list \<Rightarrow> (u32 \<times> nat) set" where
  "image_blocks phs qs = set (zip qs (map (\<lambda>ph. unat (p_memsz ph)) phs))"

lemma image_simps [simp]:
  "image_map [] [] w = w" "image_map (ph # phs) (q # qs) w = image_map phs qs (segment_map ph q w)"
  "image_blocks [] [] = {}" "image_blocks (ph # phs) (q # qs) = insert (q, unat (p_memsz ph)) (image_blocks phs qs)"
  by (simp_all add: image_map_def image_blocks_def)

lemma load_segments_spec:
  fixes s :: "(ata, 'z) procs_scheme"
  assumes "space s L K d" and "dir_of s p L d" and "reading s fss fd xs i" and "i + 32 * n \<le> length xs"
    and "\<forall>ph \<in> set (loads xs i n). segment_ok xs ph" and "page_room s 0"
    and "unat (placement_address s) + sum_list (map segment_cost (loads xs i n)) < 4294967296"
  shows "\<exists>qs s' K'. load_segments fss fd p n s = Some (0, s') \<and> length qs = length (loads xs i n)
    \<and> space s' (image_blocks (loads xs i n) qs \<union> L) K' d \<and> dir_of s' p (image_blocks (loads xs i n) qs \<union> L) d
    \<and> reading s' fss fd xs (i + 32 * n) \<and> distinct qs \<and> (\<forall>q \<in> set qs. q AND 0xFFF = 0) \<and> set qs \<inter> fst ` K = {} \<and> K \<subseteq> K'
    \<and> list_all2 (segment_in (mem s') xs) (loads xs i n) qs
    \<and> mmu_walk (mem s') d = image_map (loads xs i n) qs (mmu_walk (mem s) d)
    \<and> keeps L (mem s) (mem s') \<and> load_only s s' \<and> page_room s' 0
    \<and> unat (placement_address s') \<le> unat (placement_address s) + sum_list (map segment_cost (loads xs i n))"
  using assms
proof (induction n arbitrary: i s L K)
  case 0
  then show ?case by (intro exI [of _ "[]"] exI [of _ s] exI [of _ K]) (simp add: loads_def)
next
  case (Suc n)
  let ?ph = "read_phdr (take 32 (drop i xs))"
  have "unat (32 :: u32) = 32" "(32 :: nat) \<noteq> 0" "(32 :: nat) \<le> 2147483648" by simp_all
  moreover have "min 32 (length xs - i) = 32" "i + 32 \<le> length xs" using Suc.prems(4) by simp_all
  ultimately obtain s1 where s1: "fread fss 32 1 fd s = Some (1, take 32 (drop i xs), s1)" "reading s1 fss fd xs (i + 32)" "file_io s s1"
    using reading_fread [OF Suc.prems(3), of 32 32] by auto
  note fd1 = file_ioD [OF s1(3)]
  have sp1: "space s1 L K d" "dir_of s1 p L d" "page_room s1 0" using Suc.prems(1,2,6) file_io_space [OF s1(3)] by simp_all
  have len: "i + 32 + 32 * n \<le> length xs" using Suc.prems(4) by simp
  show ?case
  proof (cases "p_type ?ph = PT_LOAD")
    case False
    then have ld: "loads xs i (Suc n) = loads xs (i + 32) n" by (simp add: loads_def)
    have run: "load_segments fss fd p (Suc n) s = load_segments fss fd p n s1" using s1(1) False by (simp add: Let_def)
    have "load_only s s1" by (rule file_io_load [OF s1(3)])
    have "\<forall>ph \<in> set (loads xs (i + 32) n). segment_ok xs ph"
      "unat (placement_address s1) + sum_list (map segment_cost (loads xs (i + 32) n)) < 4294967296"
      using Suc.prems(5,7) fd1 ld by simp_all
    from Suc.IH [OF sp1(1,2) s1(2) len this(1) sp1(3) this(2)]
    show ?thesis unfolding run ld fd1 using load_only_trans [OF \<open>load_only s s1\<close>]
      by (elim exE conjE) (intro exI conjI, (assumption | simp add: algebra_simps)+)
  next
    case True
    then have ld: "loads xs i (Suc n) = ?ph # loads xs (i + 32) n" by (simp add: loads_def)
    have ok: "segment_ok xs ?ph" and c1: "unat (placement_address s1) + segment_cost ?ph < 4294967296"
      using Suc.prems(5,7) fd1 unfolding ld by simp_all
    obtain q s2 K2 where g: "load_segment fss fd p ?ph s1 = Some (0, s2)" "space s2 (insert (q, unat (p_memsz ?ph)) L) K2 d"
      "dir_of s2 p (insert (q, unat (p_memsz ?ph)) L) d" "reading s2 fss fd xs (i + 32)" "q \<notin> fst ` K" "K \<subseteq> K2" 
      "segment_in (mem s2) xs ?ph q" "\<forall>v. mmu_walk (mem s2) d v = segment_map ?ph q (mmu_walk (mem s1) d) v"
      "keeps L (mem s1) (mem s2)" "load_only s1 s2" "page_room s2 0"
      "unat (placement_address s2) \<le> unat (placement_address s1) + segment_cost ?ph" "q AND 0xFFF = 0"
      using load_segment_spec [OF sp1(1,2) s1(2) ok sp1(3) c1] by (elim exE conjE) (rule that; assumption)
    have ok2: "\<forall>ph \<in> set (loads xs (i + 32) n). segment_ok xs ph"
      and c2: "unat (placement_address s2) + sum_list (map segment_cost (loads xs (i + 32) n)) < 4294967296"
      using Suc.prems(5,7) g(12) fd1 unfolding ld by simp_all
    obtain qs s3 K3 where h: "load_segments fss fd p n s2 = Some (0, s3)" "length qs = length (loads xs (i + 32) n)"
      "space s3 (image_blocks (loads xs (i + 32) n) qs \<union> insert (q, unat (p_memsz ?ph)) L) K3 d"
      "dir_of s3 p (image_blocks (loads xs (i + 32) n) qs \<union> insert (q, unat (p_memsz ?ph)) L) d"
      "reading s3 fss fd xs (i + 32 + 32 * n)" "distinct qs" "set qs \<inter> fst ` K2 = {}" "K2 \<subseteq> K3"
      "list_all2 (segment_in (mem s3) xs) (loads xs (i + 32) n) qs"
      "mmu_walk (mem s3) d = image_map (loads xs (i + 32) n) qs (mmu_walk (mem s2) d)"
      "keeps (insert (q, unat (p_memsz ?ph)) L) (mem s2) (mem s3)" "load_only s2 s3" "page_room s3 0"
      "unat (placement_address s3) \<le> unat (placement_address s2) + sum_list (map segment_cost (loads xs (i + 32) n))" "\<forall>q \<in> set qs. q AND 0xFFF = 0"
      using Suc.IH [OF g(2,3,4) len ok2 g(11) c2] by (elim exE conjE) (rule that; assumption)
    have run: "load_segments fss fd p (Suc n) s = Some (0, s3)" using s1(1) True g(1) h(1) by (simp add: Let_def)
    have qK: "(q, unat (p_memsz ?ph)) \<in> K2" using g(2) by (auto simp: space_def)
    have "segment_in (mem s3) xs ?ph q"
      by (rule segment_in_keeps [OF g(7) h(11) insertI1 heap_owns_bounds(4) [OF space_owns [OF g(2)] qK]])
    moreover have "mmu_walk (mem s2) d = segment_map ?ph q (mmu_walk (mem s) d)" using g(8) fd1(1) by (simp add: fun_eq_iff)
    then have "mmu_walk (mem s3) d = image_map (loads xs i (Suc n)) (q # qs) (mmu_walk (mem s) d)" using h(10) ld by simp
    moreover have "keeps L (mem s) (mem s3)" using keeps_trans [OF g(9) h(11) subset_insertI] fd1(1) by simp
    moreover have "load_only s s3" by (rule load_only_trans [OF load_only_trans [OF file_io_load [OF s1(3)] g(10)] h(12)])
    moreover have "q \<notin> set qs" using h(7) qK by force
    moreover have "set (q # qs) \<inter> fst ` K = {}" using h(7) g(5,6) by auto
    moreover have "unat (placement_address s3) \<le> unat (placement_address s) + sum_list (map segment_cost (loads xs i (Suc n)))"
      using h(14) g(12) fd1(2) ld by simp
    moreover have "K \<subseteq> K3" using g(6) h(8) by blast
    moreover have "reading s3 fss fd xs (i + 32 * Suc n)" using h(5) by (simp add: add.assoc)
    ultimately show ?thesis
      using h(2,3,4,6,9,13,15) g(13) run unfolding ld by (intro exI [of _ "q # qs"] exI [of _ s3] exI [of _ K3]) simp
  qed
qed

end
