(* ===== verification/ElfLoad.thy ===== *)
theory ElfLoad
  imports ElfProps
begin

text \<open>
  The whole of \<open>elf_load\<close>: from the descriptor of a well-formed file to a process whose page
  directory shows the program. And the files on which it does not do that.
\<close>

section \<open>Making the process\<close>

lemma process_onlyD:
  fixes s :: "('d, 'z) procs_scheme"
  assumes "process_only s s'"
  shows "file_descriptors s' = file_descriptors s" "fds s' = fds s" "filesystems s' = filesystems s" "disks s' = disks s"
    "fat_privates s' = fat_privates s" "dev s' = dev s" "streams s' = streams s" "fat_files s' = fat_files s"
proof -
  have e: "s' = s\<lparr>mem := mem s', placement_address := placement_address s', global_base := global_base s',
     process_head := process_head s', process_tail := process_tail s', current_id := current_id s', procs := procs s'\<rparr>"
    using assms by (simp add: process_only_def)
  show "file_descriptors s' = file_descriptors s" "fds s' = fds s" "filesystems s' = filesystems s" "disks s' = disks s"
    "fat_privates s' = fat_privates s" "dev s' = dev s" "streams s' = streams s" "fat_files s' = fat_files s"
    by (subst e, simp)+
qed

lemma reading_process:
  fixes s :: "(ata, 'z) procs_scheme"
  shows "process_only s s' \<Longrightarrow> reading s' fss fd xs i \<longleftrightarrow> reading s fss fd xs i"
  by (rule reading_same) (simp_all add: same_tables_def process_onlyD)

text \<open>Changing a process but not its link.\<close>

lemma process_list_update:
  assumes "process_list s xs" "procs s p = Some r" "proc_next r' = proc_next r" "procs s' = (procs s)(p \<mapsto> r')"
    "process_head s' = process_head s" "process_tail s' = process_tail s"
  shows "process_list s' xs"
proof -
  have "next_process (procs s') = next_process (procs s)"
    using assms(2,3) unfolding assms(4) next_process_upd by (simp add: next_process_Some [of "procs s", symmetric])
  then show ?thesis using assms by (auto simp: process_list_def)
qed

lemma process_list_same:
  "procs s' = procs s \<Longrightarrow> process_head s' = process_head s \<Longrightarrow> process_tail s' = process_tail s
    \<Longrightarrow> process_list s' xs \<longleftrightarrow> process_list s xs"
  by (simp add: process_list_def)

lemma set_name_spec:
  assumes "procs s p = Some r" "length (proc_name r) = 32" "terminated fname"
  shows "set_name p fname s = (if length (str_of fname) < 32
    then Some (s\<lparr>procs := (procs s)(p \<mapsto> r\<lparr>proc_name := str_of fname @ 0 # drop (Suc (length (str_of fname))) (proc_name r)\<rparr>)\<rparr>)
    else None)"
  using assms strcpy_spec [OF assms(3), of "proc_name r"] by (simp add: set_name_def set_process_def)

text \<open>The directory before any segment: the first 64 MB for the kernel, the screen for the program too.\<close>

definition base_map :: "u32 \<Rightarrow> u32 option" where
  "base_map v = (if unat v div 4096 = 184 then Some (0xB8000 OR USER_PAGE)
     else if unat v < 0x4000000 then Some ((v AND 0xFFFFF000) OR 3) else None)"

lemma loader_flags: "(ucast (PAGING_IS_PRESENT OR PAGING_IS_WRITEABLE) :: u8) = 3"
  by (simp add: paging_consts)

lemma map_vga_spec:
  fixes s :: "('d, 'z) procs_scheme"
  assumes sp: "space s L K d" and dir: "dir_of s p L d" and page: "page_room s m"
    and room: "unat (placement_address s) + 8208 < 4294967296"
    and w: "\<And>v. mmu_walk (mem s) d v = (if unat v < 0x4000000 then Some ((v AND 0xFFFFF000) OR 3) else None)"
  obtains s' K' where "map_vga p s = Some s'" "space s' L K' d" "dir_of s' p L d" "mmu_walk (mem s') d = base_map"
    "keeps L (mem s) (mem s')" "paging_only s s'" "page_room s' m" "K \<subseteq> K'"
    "unat (placement_address s') \<le> unat (placement_address s) + 8208"
proof -
  let ?e = "0xB8000 OR USER_PAGE :: u32"
  have al: "paging_is_aligned 0xB8000" by (simp add: aligned_unat)
  note p0 = space_set [OF sp al page room, of ?e]
  obtain s' K' where p: "paging_set d 0xB8000 ?e s = Some (0, s')" "space s' L K' d"
    "\<And>v. mmu_walk (mem s') d v = (if unat v div 4096 = unat (0xB8000 :: u32) div 4096
        then if ?e AND 1 = 0 then None else Some ?e else mmu_walk (mem s) d v)"
    "keeps L (mem s) (mem s')" "paging_only s s'" "page_room s' m" "K \<subseteq> K'"
    "unat (placement_address s') \<le> unat (placement_address s) + 8208" by (rule p0) blast
  have "?e AND 1 \<noteq> 0" by (rule or_bit0) (simp add: USER_PAGE_def paging_consts)
  then have "mmu_walk (mem s') d = base_map" using p(3) w by (simp add: fun_eq_iff base_map_def)
  moreover have "dir_of s' p L d"
    by (rule dir_of_keeps [OF dir paging_only_procs [OF p(5)] p(4) space_owns [OF sp]]) (use sp in \<open>auto simp: space_def\<close>)
  moreover have "map_vga p s = Some s'" using dir_of_directory [OF dir] p(1) by (simp add: map_vga_def)
  ultimately show ?thesis using that p by blast
qed

section \<open>The whole file\<close>

text \<open>Up to the first program header: the process exists, with its directory, and the file stands at the table.\<close>

lemma elf_prepare:
  fixes s :: "(ata, 'z) procs_scheme"
  assumes rd: "reading s fss fd xs 0" and own: "heap_owns s L" and pl: "process_list s ps" and live: "set ps \<subseteq> fst ` L"
    and name: "terminated fname" "length (str_of fname) < 32"
    and hd: "52 \<le> length xs" "H = read_ehdr (take 52 xs)" "elf_is_valid_header H" "unat (e_phoff H) \<le> length xs"
    and page: "page_room s 132" and room: "unat (placement_address s) + 147876 < 4294967296"
  obtains p c d s' K r where
    "elf_load_fd fss fname fd p0 s = do {
       (res, s) \<leftarrow> load_segments fss fd p (unat (e_phnum H)) s';
       if res \<noteq> 0 then Some (res, p0, s)
       else do { s \<leftarrow> set_process p (\<lambda>r. r\<lparr>proc_ptr := e_entry H\<rparr>) s; Some (res, p, s) }
     }"
    "process_list s' (ps @ [p])" "procs s' p = Some r" "paging_chunk r = c" "str_of (proc_name r) = str_of fname"
    "space s' ({(c, 4), (p, 96)} \<union> L) K d" "dir_of s' p ({(c, 4), (p, 96)} \<union> L) d" "distinct [c, p]" "{c, p} \<inter> fst ` L = {}"
    "reading s' fss fd xs (unat (e_phoff H))" "mmu_walk (mem s') d = base_map" "page_room s' 0" "keeps L (mem s) (mem s')"
    "unat (placement_address s') \<le> unat (placement_address s) + 147876" "file_descriptors s' = file_descriptors s" "fds s' = fds s"
proof -
  have "unat (52 :: u32) = 52" "(52 :: nat) \<noteq> 0" "(52 :: nat) \<le> 2147483648" by simp_all
  from reading_fread [OF rd this] hd(1)
  obtain s1 where s1: "fread fss 52 1 fd s = Some (1, take 52 xs, s1)" "reading s1 fss fd xs (min 52 (length xs))" "file_io s s1"
    by auto
  note f1 = file_ioD [OF s1(3)] load_onlyD [OF file_io_load [OF s1(3)]]
  have own1: "heap_owns s1 L" using own heap_owns_same [of s1 s] f1 by simp
  have pl1: "process_list s1 ps" using pl process_list_same [of s1 s] f1 by simp
  have "unat (placement_address s1) + 112 < 4294967296" using room f1 by simp
  note k0 = process_alloc_spec [OF pl1 own1 live this, of 0]
  obtain p s2 where a: "process_alloc 0 s1 = Some (0, p, s2)" "process_list s2 (ps @ [p])" "heap_owns s2 (insert (p, 96) L)"
    "p \<notin> fst ` L" "keeps L (mem s1) (mem s2)" "procs s2 p = Some (zero_process\<lparr>proc_id := word_of_int (current_id s1 + 1)\<rparr>)"
    "unat (placement_address s2) \<le> unat (placement_address s1) + 112" "process_only s1 s2"
    "\<forall>m. page_room s1 (112 + m) \<longrightarrow> page_room s2 m" by (rule k0) blast
  define r0 where "r0 = zero_process\<lparr>proc_id := word_of_int (current_id s1 + 1)\<rparr>"
  define r1 where "r1 = r0\<lparr>proc_name := str_of fname @ 0 # drop (Suc (length (str_of fname))) (proc_name r0)\<rparr>"
  have r0: "procs s2 p = Some r0" "length (proc_name r0) = 32" using a(6) by (simp_all add: r0_def zero_process_def)
  let ?s3 = "s2\<lparr>procs := (procs s2)(p \<mapsto> r1)\<rparr>"
  have s3: "set_name p fname s2 = Some ?s3" using set_name_spec [OF r0 name(1)] name(2) by (simp add: r1_def)
  have "page_room s2 20" using a(9) page f1(2) by (simp add: page_room_def)
  then have a3: "heap_owns ?s3 (insert (p, 96) L)" "page_room ?s3 (20 + 0)" "(3 :: u8) AND 1 = 1"
    "unat (placement_address ?s3) + 139556 < 4294967296"
    using a(3,7) f1 room by (simp_all add: page_room_def)
  note n0 = space_new [OF a3]
  obtain c d s4 K4 where n: "paging_new_4gb 3 ?s3 = Some (c, s4)" "c \<noteq> 0" "c \<notin> fst ` insert (p, 96) L" "read32 (mem s4) c = d"
    "heap_only ?s3 s4" "space s4 (insert (c, 4) (insert (p, 96) L)) K4 d"
    "\<forall>v. mmu_walk (mem s4) d v = (if unat v < 64 * 1024 * 1024 then Some ((v AND 0xFFFFF000) OR ucast (3 :: u8)) else None)"
    "keeps (insert (p, 96) L) (mem ?s3) (mem s4)" "page_room s4 0"
    "unat (placement_address s4) \<le> unat (placement_address ?s3) + 139556" by (rule n0) blast
  note h4 = heap_only_procs [OF n(5)]
  let ?L = "insert (c, 4) (insert (p, 96) L)"
  define r2 where "r2 = r1\<lparr>paging_chunk := c\<rparr>"
  let ?s5 = "s4\<lparr>procs := (procs s4)(p \<mapsto> r2)\<rparr>"
  have s5: "set_process p (\<lambda>r. r\<lparr>paging_chunk := c\<rparr>) s4 = Some ?s5" using h4(1) by (simp add: set_process_def r2_def)
  have sp5: "space ?s5 ?L K4 d" using n(6) space_same [of ?s5 s4] by simp
  have d5: "dir_of ?s5 p ?L d" using n(4) by (simp add: dir_of_def r2_def)
  have pg5: "page_room ?s5 0" using n(9) by (simp add: page_room_def)
  have rm5: "unat (placement_address ?s5) + 8208 < 4294967296" using n(10) a(7) f1 room by simp
  have w5: "mmu_walk (mem ?s5) d v = (if unat v < 0x4000000 then Some ((v AND 0xFFFFF000) OR 3) else None)" for v
    using n(7) by simp
  note v0 = map_vga_spec [OF sp5 d5 pg5 rm5 w5]
  obtain s6 K6 where v: "map_vga p ?s5 = Some s6" "space s6 ?L K6 d" "dir_of s6 p ?L d" "mmu_walk (mem s6) d = base_map"
    "keeps ?L (mem ?s5) (mem s6)" "paging_only ?s5 s6" "page_room s6 0" "K4 \<subseteq> K6"
    "unat (placement_address s6) \<le> unat (placement_address ?s5) + 8208" by (rule v0) blast
  have rd6: "reading s6 fss fd xs (min 52 (length xs))"
    using s1(2) reading_process [OF a(8)] reading_paging [OF heap_only_paging [OF n(5)]] reading_paging [OF v(6)] by simp
  have o: "unat (e_phoff H) \<le> length xs" "unat (e_phoff H) < 2147483648" using hd(4) reading_bounds [OF rd] by simp_all
  obtain s7 where s7: "fseek fss fd (sint (e_phoff H)) FILE_SEEK_SET s6 = Some (0, s7)" "reading s7 fss fd xs (unat (e_phoff H))" "file_io s6 s7"
    using reading_fseek [OF rd6 o(1)] sint_small [OF o(2)] by auto
  note f7 = file_ioD [OF s7(3)]
  have e7: "space s7 ?L K6 d" "dir_of s7 p ?L d" "page_room s7 0" using v(2,3,7) file_io_space [OF s7(3)] by simp_all
  have pl7: "unat (placement_address s7) \<le> unat (placement_address s) + 147876" using v(9) n(10) a(7) f1 f7 by simp
  note l7 = load_onlyD [OF file_io_load [OF s7(3)]] and l6 = load_onlyD [OF paging_only_load [OF v(6)]]
    and l4 = load_onlyD [OF paging_only_load [OF heap_only_paging [OF n(5)]]]
  have p7: "procs s7 = (procs s2)(p \<mapsto> r2)" using l7(1) l6(1) l4(1) by simp
  have "elf_load_fd fss fname fd p0 s = do {
       (res, s) \<leftarrow> load_segments fss fd p (unat (e_phnum H)) s7;
       if res \<noteq> 0 then Some (res, p0, s)
       else do { s \<leftarrow> set_process p (\<lambda>r. r\<lparr>proc_ptr := e_entry H\<rparr>) s; Some (res, p, s) }
     }"
    unfolding elf_load_fd_def hd(2)
    by (simp add: s1(1) hd(3) [unfolded hd(2)] a(1) s3 n(1) s5 v(1) s7(1) [unfolded hd(2)] loader_flags Let_def)
  moreover have "proc_next r2 = proc_next r0" by (simp add: r2_def r1_def)
  then have "process_list s7 (ps @ [p])"
    using l7(2,3) l6(2,3) l4(2,3) p7 by (intro process_list_update [OF a(2) r0(1)]) simp_all
  moreover have "paging_chunk r2 = c" "str_of (proc_name r2) = str_of fname"
    using str_of_append [OF str_of_no_NUL] by (simp_all add: r2_def r1_def)
  moreover have "distinct [c, p]" "{c, p} \<inter> fst ` L = {}" using n(3) a(4) by auto
  moreover have "mmu_walk (mem s7) d = base_map" using f7(1) v(4) by simp
  moreover have "keeps L (mem s) (mem s7)"
  proof -
    have L: "L \<subseteq> insert (p, 96) L" "L \<subseteq> ?L" by auto
    have "keeps L (mem s1) (mem s4)" using keeps_trans [OF a(5) _ L(1)] n(8) by simp
    then have "keeps L (mem s1) (mem s6)" using keeps_trans [OF _ _ L(2)] v(5) by simp
    then show ?thesis using f1(1) f7(1) by simp
  qed
  moreover have "file_descriptors s7 = file_descriptors s" "fds s7 = fds s"
    using l7(8,9) l6(8,9) l4(8,9) f1(12,13) process_onlyD(1,2) [OF a(8)] by simp_all
  moreover have "?L = {(c, 4), (p, 96)} \<union> L" by simp
  ultimately show ?thesis using e7 s7(2) pl7 p7 by (intro that [of p s7 r2 c K6 d]) simp_all
qed

lemma elf_load_fd_spec:
  fixes s :: "(ata, 'z) procs_scheme"
  assumes rd: "reading s fss fd xs 0" and own: "heap_owns s L" and pl: "process_list s ps" and live: "set ps \<subseteq> fst ` L"
    and name: "terminated fname" "length (str_of fname) < 32"
    and hd: "52 \<le> length xs" "H = read_ehdr (take 52 xs)" "elf_is_valid_header H"
    and tab: "unat (e_phoff H) + 32 * unat (e_phnum H) \<le> length xs" "phs = loads xs (unat (e_phoff H)) (unat (e_phnum H))"
    and ok: "\<forall>ph \<in> set phs. segment_ok xs ph" and page: "page_room s 132"
    and room: "unat (placement_address s) + 147876 + sum_list (map segment_cost phs) < 4294967296"
  shows "\<exists>p c d qs s' K' r. elf_load_fd fss fname fd p0 s = Some (0, p, s') \<and> process_list s' (ps @ [p])
    \<and> procs s' p = Some r \<and> proc_ptr r = e_entry H \<and> str_of (proc_name r) = str_of fname \<and> paging_chunk r = c
    \<and> process_directory p s' = Some d
    \<and> space s' (image_blocks phs qs \<union> ({(c, 4), (p, 96)} \<union> L)) K' d \<and> length qs = length phs \<and> distinct qs \<and> (\<forall>q \<in> set qs. q AND 0xFFF = 0)
    \<and> distinct [c, p] \<and> {c, p} \<inter> fst ` L = {} \<and> set qs \<inter> fst ` ({(c, 4), (p, 96)} \<union> L) = {}
    \<and> list_all2 (segment_in (mem s') xs) phs qs \<and> mmu_walk (mem s') d = image_map phs qs base_map
    \<and> keeps L (mem s) (mem s') \<and> reading s' fss fd xs (unat (e_phoff H) + 32 * unat (e_phnum H))
    \<and> file_descriptors s' = file_descriptors s \<and> fds s' = fds s"
proof -
  have room': "unat (placement_address s) + 147876 < 4294967296" using room by simp
  have tab': "unat (e_phoff H) \<le> length xs" using tab(1) by simp
  note k0 = elf_prepare [OF rd own pl live name hd tab' page room']
  obtain p c d s7 K6 r2 where P: "elf_load_fd fss fname fd p0 s = do {
       (res, s) \<leftarrow> load_segments fss fd p (unat (e_phnum H)) s7;
       if res \<noteq> 0 then Some (res, p0, s)
       else do { s \<leftarrow> set_process p (\<lambda>r. r\<lparr>proc_ptr := e_entry H\<rparr>) s; Some (res, p, s) }
     }"
    "process_list s7 (ps @ [p])" "procs s7 p = Some r2" "paging_chunk r2 = c" "str_of (proc_name r2) = str_of fname"
    "space s7 ({(c, 4), (p, 96)} \<union> L) K6 d" "dir_of s7 p ({(c, 4), (p, 96)} \<union> L) d" "distinct [c, p]" "{c, p} \<inter> fst ` L = {}"
    "reading s7 fss fd xs (unat (e_phoff H))" "mmu_walk (mem s7) d = base_map" "page_room s7 0" "keeps L (mem s) (mem s7)"
    "unat (placement_address s7) \<le> unat (placement_address s) + 147876" "file_descriptors s7 = file_descriptors s" "fds s7 = fds s"
    by (rule k0) (rule that; assumption)
  have rm7: "unat (placement_address s7) + sum_list (map segment_cost phs) < 4294967296" using P(14) room by simp
  let ?L = "{(c, 4), (p, 96)} \<union> L"
  obtain qs s8 K8 where g: "load_segments fss fd p (unat (e_phnum H)) s7 = Some (0, s8)" "length qs = length phs"
    "space s8 (image_blocks phs qs \<union> ?L) K8 d" "dir_of s8 p (image_blocks phs qs \<union> ?L) d"
    "reading s8 fss fd xs (unat (e_phoff H) + 32 * unat (e_phnum H))" "distinct qs" "set qs \<inter> fst ` K6 = {}"
    "list_all2 (segment_in (mem s8) xs) phs qs" "mmu_walk (mem s8) d = image_map phs qs (mmu_walk (mem s7) d)"
    "keeps ?L (mem s7) (mem s8)" "load_only s7 s8" "\<forall>q \<in> set qs. q AND 0xFFF = 0"
    using load_segments_spec [OF P(6,7,10) tab(1) _ P(12), folded tab(2), OF ok rm7]
    by (elim exE conjE) (rule that; assumption)
  note l8 = load_onlyD [OF g(11)]
  define r3 where "r3 = r2\<lparr>proc_ptr := e_entry H\<rparr>"
  let ?s9 = "s8\<lparr>procs := (procs s8)(p \<mapsto> r3)\<rparr>"
  have p8: "procs s8 p = Some r2" using l8(1) P(3) by simp
  then have "set_process p (\<lambda>r. r\<lparr>proc_ptr := e_entry H\<rparr>) s8 = Some ?s9" by (simp add: set_process_def r3_def)
  then have run: "elf_load_fd fss fname fd p0 s = Some (0, p, ?s9)" unfolding P(1) by (simp add: g(1))
  have "proc_next r3 = proc_next r2" by (simp add: r3_def)
  then have "process_list ?s9 (ps @ [p])" using l8(1-3) by (intro process_list_update [OF P(2,3)]) simp_all
  moreover have "proc_ptr r3 = e_entry H" "paging_chunk r3 = c" "str_of (proc_name r3) = str_of fname"
    using P(4,5) by (simp_all add: r3_def)
  moreover have "space ?s9 (image_blocks phs qs \<union> ?L) K8 d" using g(3) space_same [of ?s9 s8] by simp
  moreover have "process_directory p ?s9 = Some d"
    using dir_of_directory [OF g(4)] p8 by (simp add: process_directory_def r3_def paging_4gb_chunk_get_directory_def)
  moreover have "set qs \<inter> fst ` ?L = {}"
  proof -
    have "?L \<subseteq> K6" using P(6) by (simp add: space_def)
    then show ?thesis using g(7) by blast
  qed
  moreover have "mmu_walk (mem ?s9) d = image_map phs qs base_map" using g(9) P(11) by simp
  moreover have "L \<subseteq> ?L" by blast
  then have "keeps L (mem s) (mem ?s9)" using keeps_trans [OF P(13) g(10)] by simp
  moreover have "reading ?s9 fss fd xs (unat (e_phoff H) + 32 * unat (e_phnum H))" using g(5) by simp
  moreover have "file_descriptors ?s9 = file_descriptors s" "fds ?s9 = fds s" using l8(8,9) P(15,16) by simp_all
  moreover have "procs ?s9 p = Some r3" "list_all2 (segment_in (mem ?s9) xs) phs qs" using g(8) by simp_all
  ultimately show ?thesis
    using run g(2,6,12) P(8,9)
    by - (rule exI [of _ p], rule exI [of _ c], rule exI [of _ d], rule exI [of _ qs], rule exI [of _ ?s9], rule exI [of _ K8], rule exI [of _ r3],
      simp only: simp_thms)
qed

section \<open>What the program sees\<close>

text \<open>The byte that user code reads at \<open>v\<close>: \<open>None\<close> is a page fault.\<close>

definition user_byte :: "ram \<Rightarrow> u32 \<Rightarrow> u32 \<Rightarrow> u8 option" where
  "user_byte m d v = do {
     e \<leftarrow> mmu_walk m d v;
     if e AND PAGING_ACCESS_FROM_ALL = 0 then None else Some (m ((e AND 0xFFFFF000) + (v AND 0xFFF)))
   }"

definition covers :: "Elf32_Phdr \<Rightarrow> u32 \<Rightarrow> bool" where
  "covers ph v \<longleftrightarrow> page_from (p_vaddr ph) v < segment_pages ph"

text \<open>No page belongs to two segments.\<close>

definition apart :: "Elf32_Phdr list \<Rightarrow> bool" where
  "apart phs \<longleftrightarrow> (\<forall>i k v. i < k \<longrightarrow> k < length phs \<longrightarrow> covers (phs ! i) v \<longrightarrow> \<not> covers (phs ! k) v)"

lemma image_map_outside:
  assumes "length qs = length phs" "\<forall>k<length phs. \<not> covers (phs ! k) v" "length phs = n"
  shows "image_map phs qs w v = w v"
  using assms
proof (induction phs qs arbitrary: w n rule: list_induct2')
  case (4 ph phs q qs)
  have "\<not> covers ph v" "\<forall>k<length phs. \<not> covers (phs ! k) v" using 4(3) by (force, force)
  then have "image_map phs qs (segment_map ph q w) v = segment_map ph q w v" using 4 by simp
  then show ?case using \<open>\<not> covers ph v\<close> by (simp add: segment_map_def covers_def)
qed simp_all

lemma image_map_at:
  assumes "length qs = length phs" "i < length phs" "covers (phs ! i) v" "\<forall>k. i < k \<longrightarrow> k < length phs \<longrightarrow> \<not> covers (phs ! k) v"
  shows "image_map phs qs w v = Some ((qs ! i + of_nat (4096 * page_from (p_vaddr (phs ! i)) v)) OR USER_PAGE)"
  using assms
proof (induction phs qs arbitrary: w i rule: list_induct2')
  case (4 ph phs q qs)
  show ?case
  proof (cases i)
    case 0
    then have "\<forall>k<length phs. \<not> covers (phs ! k) v" using 4(5) by force
    then have "image_map phs qs (segment_map ph q w) v = segment_map ph q w v" using 4(2) by (intro image_map_outside) simp_all
    then show ?thesis using 0 4(4) by (simp add: segment_map_def covers_def)
  next
    case (Suc j)
    have "\<forall>k. j < k \<longrightarrow> k < length phs \<longrightarrow> \<not> covers (phs ! k) v" using 4(5) Suc by force
    then show ?thesis using 4 Suc by simp
  qed
qed simp_all

lemma user_page_bits: "(e OR USER_PAGE) AND PAGING_ACCESS_FROM_ALL \<noteq> 0" "USER_PAGE AND 0xFFFFF000 = 0"
proof -
  have "bit ((e OR USER_PAGE) AND PAGING_ACCESS_FROM_ALL) 2" by (simp add: bit_simps USER_PAGE_def paging_consts)
  then show "(e OR USER_PAGE) AND PAGING_ACCESS_FROM_ALL \<noteq> 0" by auto
  show "USER_PAGE AND 0xFFFFF000 = 0" by (simp add: USER_PAGE_def paging_consts)
qed

lemma segment_visible:
  assumes ok: "segment_ok xs ph" and q: "q AND 0xFFF = 0" "unat q + unat (p_memsz ph) < 4294967296"
    and seg: "segment_in m xs ph q" and j: "j < unat (p_memsz ph)"
    and w: "mmu_walk m d (p_vaddr ph + of_nat j) = Some ((q + of_nat (4096 * page_from (p_vaddr ph) (p_vaddr ph + of_nat j))) OR USER_PAGE)"
  shows "user_byte m d (p_vaddr ph + of_nat j) = Some (segment_bytes xs ph ! j)"
proof -
  have j32: "j < 4294967296" and al: "unat (p_vaddr ph) mod 4096 = 0" using j ok by (simp_all add: segment_ok_def aligned_unat)
  then have u: "unat (of_nat j :: u32) = j" by (subst unat_of_nat) simp
  then have pf: "page_from (p_vaddr ph) (p_vaddr ph + of_nat j) = j div 4096" by (simp add: page_from_def)
  define k where "k = j div 4096"
  have kj: "4096 * k \<le> j" by (simp add: k_def)
  have uq: "unat (q + of_nat (4096 * k)) = unat q + 4096 * k" using q(2) j kj by (intro unat_plus_of_nat) simp
  have "unat q mod 4096 = 0" using q(1) unat_low12 [of q] by simp
  then have "unat ((q + of_nat (4096 * k)) AND 0xFFF) = 0" unfolding unat_low12 uq by (simp add: mod_simps)
  then have qa: "(q + of_nat (4096 * k)) AND 0xFFF = 0" by (simp add: unsigned_eq_0_iff)
  have "unat ((p_vaddr ph + of_nat j) AND 0xFFF) = (unat (p_vaddr ph) + j) mod 4096"
    unfolding unat_low12 by (simp add: unat_word_ariths u mod_mod_cancel)
  also have "\<dots> = j mod 4096" using al by (simp add: mod_add_left_eq [symmetric])
  finally have "(p_vaddr ph + of_nat j) AND 0xFFF = of_nat (j mod 4096)" by (simp add: word_unat_eq_iff unat_of_nat)
  moreover have "q + of_nat (4096 * k) + of_nat (j mod 4096) = q + of_nat j"
    unfolding add.assoc of_nat_add [symmetric] k_def by simp
  ultimately have addr: "(((q + of_nat (4096 * k)) OR USER_PAGE) AND 0xFFFFF000) + ((p_vaddr ph + of_nat j) AND 0xFFF) = q + of_nat j"
    by (simp only: or_flags_high12 [OF qa user_page_bits(2)])
  have "mmu_walk m d (p_vaddr ph + of_nat j) = Some ((q + of_nat (4096 * k)) OR USER_PAGE)" using w unfolding pf k_def .
  then have "user_byte m d (p_vaddr ph + of_nat j) = Some (m (q + of_nat j))"
    by (simp only: user_byte_def bind.bind_lunit user_page_bits(1) if_False addr)
  then show ?thesis using seg j by (simp add: segment_in_def)
qed

lemma covers_offset: "j < unat (p_memsz ph) \<Longrightarrow> covers ph (p_vaddr ph + of_nat j)"
proof -
  assume j: "j < unat (p_memsz ph)"
  then have "j < 4294967296" by (rule less_trans) simp
  then have "unat (of_nat j :: u32) = j" by (subst unat_of_nat) simp
  then show ?thesis using j by (simp add: covers_def page_from_def segment_pages_def)
qed

lemma image_user_byte:
  assumes "apart phs" "length qs = length phs" "\<forall>ph \<in> set phs. segment_ok xs ph" "list_all2 (segment_in m xs) phs qs"
    "\<forall>q \<in> set qs. q AND 0xFFF = 0" "\<forall>(q, n) \<in> image_blocks phs qs. unat q + n < 4294967296"
    "mmu_walk m d = image_map phs qs base_map"
  shows "\<forall>ph \<in> set phs. \<forall>j < unat (p_memsz ph). user_byte m d (p_vaddr ph + of_nat j) = Some (segment_bytes xs ph ! j)"
    "\<forall>v. (\<forall>ph \<in> set phs. \<not> covers ph v) \<longrightarrow> unat v div 4096 \<noteq> 184 \<longrightarrow> user_byte m d v = None"
proof -
  show "\<forall>ph \<in> set phs. \<forall>j < unat (p_memsz ph). user_byte m d (p_vaddr ph + of_nat j) = Some (segment_bytes xs ph ! j)"
  proof (intro ballI allI impI)
    fix ph j assume "ph \<in> set phs" and j: "j < unat (p_memsz ph)"
    then obtain i where i: "i < length phs" "ph = phs ! i" by (auto simp: in_set_conv_nth)
    let ?v = "p_vaddr ph + of_nat j"
    have c: "covers (phs ! i) ?v" using covers_offset [OF j] i(2) by simp
    then have "\<forall>k. i < k \<longrightarrow> k < length phs \<longrightarrow> \<not> covers (phs ! k) ?v" using assms(1) by (auto simp: apart_def)
    from image_map_at [OF assms(2) i(1) c this, of base_map]
    have w: "mmu_walk m d ?v = Some ((qs ! i + of_nat (4096 * page_from (p_vaddr ph) ?v)) OR USER_PAGE)"
      using assms(7) i(2) by simp
    have "(qs ! i, unat (p_memsz ph)) \<in> image_blocks phs qs"
      using i assms(2) unfolding image_blocks_def set_zip by auto
    then have b: "unat (qs ! i) + unat (p_memsz ph) < 4294967296" using assms(6) by blast
    show "user_byte m d ?v = Some (segment_bytes xs ph ! j)"
      using i assms(2-5) by (intro segment_visible [OF _ _ b _ j w]) (auto simp: list_all2_conv_all_nth)
  qed
  show "\<forall>v. (\<forall>ph \<in> set phs. \<not> covers ph v) \<longrightarrow> unat v div 4096 \<noteq> 184 \<longrightarrow> user_byte m d v = None"
  proof (intro allI impI)
    fix v assume "\<forall>ph \<in> set phs. \<not> covers ph v" and v: "unat v div 4096 \<noteq> 184"
    then have "mmu_walk m d v = base_map v" using image_map_outside [OF assms(2) _ refl, of v base_map] assms(7) by simp
    then show "user_byte m d v = None" using v entry_user(1) by (simp add: user_byte_def base_map_def)
  qed
qed

lemma page_room_within:
  assumes "page_room h (n + m)" "unat (placement_address h) \<le> unat (placement_address h')"
    "unat (placement_address h') \<le> unat (placement_address h) + n"
  shows "page_room h' m"
proof -
  define e where "e = unat (placement_address h') - unat (placement_address h)"
  have e: "unat (placement_address h') = unat (placement_address h) + e" "e \<le> n" using assms(2,3) by (simp_all add: e_def)
  have "unat (placement_address h) mod 4096 + e < 4096" using assms(1) e(2) by (simp add: page_room_def)
  then have "(unat (placement_address h) + e) mod 4096 = unat (placement_address h) mod 4096 + e"
    by (metis mod_add_left_eq mod_less)
  then show ?thesis using assms(1) e by (simp add: page_room_def)
qed

lemma procs_more:
  fixes s :: "('d, 'z) procs_scheme" and s' :: "('d, 'z) procs_scheme"
  assumes "vfs.more s' = vfs.more s"
  shows "procs s' = procs s" "process_head s' = process_head s" "process_tail s' = process_tail s"
  using assms by (cases s; cases s'; simp)+

section \<open>From the path of the file\<close>

text \<open>Closing the file after the process has been made: the directory and the segments stay.\<close>

lemma close_keeps_image:
  fixes s :: "(ata, 'z) procs_scheme"
  assumes sp: "space s (image_blocks phs qs \<union> ({(c, 4), (p, 96)} \<union> ({(desc, 16), (fp, 44)} \<union> L))) K d"
    and len: "length qs = length phs" and new: "set qs \<inter> {desc, fp} = {}" "c \<noteq> desc" "c \<noteq> fp" "desc \<noteq> fp" "{desc, fp} \<inter> fst ` L = {}"
    and fd: "i < 512" "length (file_descriptors s) = 512" "file_descriptors s ! i = desc" "desc \<noteq> 0"
    and d: "fds s desc = Some \<lparr>index = int i + 1, filesystem = fa, fd_private = fp, fd_disk = disk\<rparr>"
    and reg: "fss fa = Some (fat16_fs ata_io)" and seg: "list_all2 (segment_in (mem s) xs) phs qs"
  shows "\<exists>s'. fclose fss (int i + 1) s = Some (0, s') \<and> file_descriptors s' = (file_descriptors s)[i := 0] \<and> vfs.more s' = vfs.more s
    \<and> keeps L (mem s) (mem s') \<and> mmu_walk (mem s') d = mmu_walk (mem s) d \<and> read32 (mem s') c = read32 (mem s) c
    \<and> list_all2 (segment_in (mem s') xs) phs qs"
proof -
  let ?B = "{(desc, 16), (fp, 44)} :: (u32 \<times> nat) set"
  let ?K = "K - ?B"
  have own: "heap_owns s K" "image_blocks phs qs \<union> ({(c, 4), (p, 96)} \<union> (?B \<union> L)) \<subseteq> K"
    using sp by (simp_all add: space_def pd_ok_def)
  have e: "insert (desc, 16) (insert (fp, 44) ?K) = K" using own(2) by auto
  have u: "(q, a) \<in> K \<Longrightarrow> (q, b) \<in> K \<Longrightarrow> a = b" for q a b using own(1) by (elim heap_ownsE) blast
  have "(desc, 16) \<in> K" "(fp, 44) \<in> K" using own(2) by auto
  then have fr: "desc \<notin> fst ` ?K" "fp \<notin> fst ` ?K" using u by (fastforce simp: image_iff)+
  have own': "heap_owns s (insert (desc, 16) (insert (fp, 44) ?K))" using own(1) e by simp
  obtain s' where f: "fclose fss (int i + 1) s = Some (0, s')" "heap_owns s' ?K" "keeps ?K (mem s) (mem s')"
    "file_descriptors s' = (file_descriptors s)[i := 0]" "vfs.more s' = vfs.more s"
    using fclose_spec [of s desc fp ?K i fa disk fss] own' new(4) fr fd d reg by blast
  have "mmu_walk (mem s') d v = mmu_walk (mem s) d v" for v
  proof (rule walk_frame [OF sp])
    fix q k x assume q: "(q, k) \<in> K" "q \<notin> fst ` (image_blocks phs qs \<union> ({(c, 4), (p, 96)} \<union> (?B \<union> L)))" "x \<in> region q k"
    then have "(q, k) \<in> ?K" by force
    then show "mem s' x = mem s x" using f(3) q(3) by (simp add: keeps_def del: in_region)
  qed
  moreover have "(c, 4) \<in> ?K" using own(2) new(2,3) by auto
  then have "read32 (mem s') c = read32 (mem s) c"
    using f(3) heap_owns_bounds(4) [OF f(2)] unfolding keeps_def by (intro read32_cong less_imp_le) blast+
  moreover have "L \<subseteq> ?K" using own(2) new(5) by (force simp: image_iff)
  then have "keeps L (mem s) (mem s')" using f(3) by (auto simp: keeps_def simp del: in_region)
  moreover have "list_all2 (segment_in (mem s') xs) phs qs"
  proof (rule list_all2_all_nthI)
    fix k assume k: "k < length phs"
    have "(qs ! k, unat (p_memsz (phs ! k))) \<in> image_blocks phs qs"
      using k len unfolding image_blocks_def set_zip by auto
    moreover have "qs ! k \<notin> {desc, fp}" using k len new(1) nth_mem [of k qs] by auto
    ultimately have "(qs ! k, unat (p_memsz (phs ! k))) \<in> ?K" using own(2) by auto
    then show "segment_in (mem s') xs (phs ! k) (qs ! k)"
      using seg k by (intro segment_in_keeps [OF _ f(3) _ heap_owns_bounds(4) [OF f(2)]]) (simp_all add: list_all2_conv_all_nth)
  qed (simp add: len)
  ultimately show ?thesis using f by (intro exI [of _ s']) (simp add: fun_eq_iff)
qed

lemma elf_load_spec:
  fixes s :: "(ata, 'z) procs_scheme"
  assumes own: "heap_owns s L" and reg: "fat_registered fss fa s" and ds: "two_disks s" and ready: "drive_ready (dev s)"
    and c: "isdigit c" "terminated t" and comps: "comps = path_components (str_of t)" and fits: "\<forall>x \<in> set comps. length x < 256"
    and d: "dn = sint c - 48" "dn \<le> 1" "mount_code (dev s) dn = 0"
    and b: "b = read_boot_sector (bytes_at (dev s) dn 0 512)" "volume_ok b (drive_size (dev s) dn)"
    and walk: "walk b (dev s) dn 0 comps (Some it)" "\<not> is_directory it"
    and file_good: "file_ok b (dev s) dn it cs" "unat (filesize it) < 2147483648"
    and slot: "first_free (file_descriptors s) = Some i" "length (file_descriptors s) = 512"
    and pl: "process_list s ps" and live: "set ps \<subseteq> fst ` L" and name: "length (str_of t) < 29"
    and xs: "xs = fat_contents b (dev s) dn cs it"
    and hd: "52 \<le> length xs" "H = read_ehdr (take 52 xs)" "elf_is_valid_header H"
    and tab: "unat (e_phoff H) + 32 * unat (e_phnum H) \<le> length xs" "phs = loads xs (unat (e_phoff H)) (unat (e_phnum H))"
    and ok: "\<forall>ph \<in> set phs. segment_ok xs ph" and ap: "apart phs"
    and page: "page_room s (296 * length comps + 1076)"
    and room: "unat (placement_address s) + 296 * length comps + 148820 + sum_list (map segment_cost phs) < 4294967296"
  shows "\<exists>p s' r dir. elf_load fss (c # 58 # 47 # t) p0 s = Some (0, p, s') \<and> process_list s' (ps @ [p]) \<and> procs s' p = Some r
    \<and> proc_ptr r = e_entry H \<and> str_of (proc_name r) = c # 58 # 47 # str_of t \<and> process_directory p s' = Some dir
    \<and> (\<forall>ph \<in> set phs. \<forall>j < unat (p_memsz ph). user_byte (mem s') dir (p_vaddr ph + of_nat j) = Some (segment_bytes xs ph ! j))
    \<and> (\<forall>v. (\<forall>ph \<in> set phs. \<not> covers ph v) \<longrightarrow> unat v div 4096 \<noteq> 184 \<longrightarrow> user_byte (mem s') dir v = None)
    \<and> file_descriptors s' = file_descriptors s \<and> keeps L (mem s) (mem s')"
proof -
  have mode: "terminated (lit ''r'')" "hd (lit ''r'') = 114" by (simp_all add: chars)
  have room1: "unat (placement_address s) + 296 * length comps + 944 < 4294967296" using room by simp
  obtain desc fp st pr s1 where o: "fopen fss (c # 58 # 47 # t) (lit ''r'') s = Some (int i + 1, s1)"
    "file_descriptors s1 = (file_descriptors s)[i := desc]" "desc \<noteq> 0"
    "fds s1 = (fds s)(desc \<mapsto> \<lparr>index = int i + 1, filesystem = fa, fd_private = fp, fd_disk = nat dn\<rparr>)"
    "fat_is_file s1 (nat dn) fp xs 0" "heap_owns s1 ({(desc, 16), (fp, 44), (pr, 516), (st, 8)} \<union> L)" "distinct [desc, fp, pr, st]"
    "{desc, fp, pr, st} \<inter> fst ` L = {}" "keeps L (mem s) (mem s1)" "fat_registered fss fa s1"
    "grows (296 * length comps + 944) (placement_address s) (placement_address s1)" "vfs.more s1 = vfs.more s"
    using fopen_opens [OF own reg ds ready c comps fits room1 d b mode walk file_good slot(1), folded xs]
    by (elim exE conjE) (rule that; assumption)
  note m1 = procs_more [OF o(12)]
  let ?L2 = "{(pr, 516), (st, 8)} \<union> L"
  let ?L1 = "{(desc, 16), (fp, 44)} \<union> ?L2"
  have i: "i < 512" "file_descriptors s ! i = 0" using slot by (auto simp: first_free_Some)
  have faF: "fss fa = Some (fat16_fs ata_io)" using reg by (simp add: fat_registered_def)
  have "open_fd s1 (int i + 1) \<lparr>index = int i + 1, filesystem = fa, fd_private = fp, fd_disk = nat dn\<rparr>"
    using o(2-4) i(1) slot(2) by (simp add: open_fd_def fs_get_descriptor_def MAX_FILE_DESCRIPTORS_def rd_def)
  then have rd: "reading s1 fss (int i + 1) xs 0" unfolding reading_def using o(5) faF
    by (intro exI [of _ "\<lparr>index = int i + 1, filesystem = fa, fd_private = fp, fd_disk = nat dn\<rparr>"]) simp
  have own1: "heap_owns s1 ?L1" using o(6) by (simp add: insert_commute)
  have pl1: "process_list s1 ps" using pl process_list_same [of s1 s] m1 by simp
  have live1: "set ps \<subseteq> fst ` ?L1" using live by auto
  have nm: "str_of (c # 58 # 47 # t) = c # 58 # 47 # str_of t" using c(1) by (auto simp: isdigit_def)
  have name1: "terminated (c # 58 # 47 # t)" "length (str_of (c # 58 # 47 # t)) < 32"
    using c name unfolding nm by (simp_all add: terminated_def)
  have "page_room s (296 * length comps + 944 + 132)" using page by (simp add: add.assoc)
  then have page1: "page_room s1 132" by (rule page_room_within) (use o(11) in simp_all)
  have room2: "unat (placement_address s1) + 147876 + sum_list (map segment_cost phs) < 4294967296"
    using room o(11) by simp
  obtain p ch dir qs s2 K r where l: "elf_load_fd fss (c # 58 # 47 # t) (int i + 1) p0 s1 = Some (0, p, s2)" "process_list s2 (ps @ [p])"
    "procs s2 p = Some r" "proc_ptr r = e_entry H" "str_of (proc_name r) = str_of (c # 58 # 47 # t)" "paging_chunk r = ch"
    "process_directory p s2 = Some dir" "space s2 (image_blocks phs qs \<union> ({(ch, 4), (p, 96)} \<union> ?L1)) K dir" "length qs = length phs"
    "\<forall>q \<in> set qs. q AND 0xFFF = 0" "{ch, p} \<inter> fst ` ?L1 = {}" "set qs \<inter> fst ` ({(ch, 4), (p, 96)} \<union> ?L1) = {}"
    "list_all2 (segment_in (mem s2) xs) phs qs" "mmu_walk (mem s2) dir = image_map phs qs base_map" "keeps ?L1 (mem s1) (mem s2)"
    "file_descriptors s2 = file_descriptors s1" "fds s2 = fds s1"
    using elf_load_fd_spec [OF rd own1 pl1 live1 name1 hd tab ok page1 room2, of p0] by (elim exE conjE) (rule that; assumption)
  have new: "set qs \<inter> {desc, fp} = {}" "ch \<noteq> desc" "ch \<noteq> fp" "desc \<noteq> fp" "{desc, fp} \<inter> fst ` ?L2 = {}"
    using l(11,12) o(7,8) by auto
  have fd2: "length (file_descriptors s2) = 512" "file_descriptors s2 ! i = desc" using l(16) o(2) slot(2) i(1) by simp_all
  have d2: "fds s2 desc = Some \<lparr>index = int i + 1, filesystem = fa, fd_private = fp, fd_disk = nat dn\<rparr>" using l(17) o(4) by simp
  obtain s3 where f: "fclose fss (int i + 1) s2 = Some (0, s3)" "file_descriptors s3 = (file_descriptors s2)[i := 0]"
    "vfs.more s3 = vfs.more s2" "keeps ?L2 (mem s2) (mem s3)" "mmu_walk (mem s3) dir = mmu_walk (mem s2) dir"
    "read32 (mem s3) ch = read32 (mem s2) ch" "list_all2 (segment_in (mem s3) xs) phs qs"
    using close_keeps_image [OF l(8,9) new i(1) fd2 o(3) d2 _ l(13)] faF by blast
  note m3 = procs_more [OF f(3)]
  have "elf_load fss (c # 58 # 47 # t) p0 s = Some (0, p, s3)" using o(1) l(1) f(1) by (simp add: elf_load_def)
  moreover have "process_list s3 (ps @ [p])" using l(2) process_list_same [of s3 s2] m3 by simp
  moreover have "procs s3 p = Some r" using l(3) m3 by simp
  moreover have "process_directory p s3 = Some dir"
    using l(3,6,7) m3 f(6) by (simp add: process_directory_def paging_4gb_chunk_get_directory_def)
  moreover have blocks: "\<forall>(q, n) \<in> image_blocks phs qs. unat q + n < 4294967296"
  proof -
    have "heap_owns s2 K" "image_blocks phs qs \<subseteq> K" using l(8) by (auto simp: space_def pd_ok_def)
    then show ?thesis using heap_owns_bounds(4) by blast
  qed
  moreover note image_user_byte [OF ap l(9) ok f(7) l(10) blocks f(5) [unfolded l(14)]]
  moreover have "file_descriptors s3 = file_descriptors s"
    using f(2) l(16) o(2) i list_update_id [of "file_descriptors s" i] by simp
  moreover have "keeps L (mem s) (mem s3)"
  proof -
    have L: "L \<subseteq> ?L1" "?L2 \<subseteq> ?L1" "L \<subseteq> ?L2" by auto
    have "keeps L (mem s) (mem s2)" by (rule keeps_trans [OF o(9) l(15) L(1)])
    then show ?thesis by (rule keeps_trans [OF _ f(4) L(3)])
  qed
  ultimately show ?thesis using l(4,5) nm
    by - (rule exI [of _ p], rule exI [of _ s3], rule exI [of _ r], rule exI [of _ dir], simp only: simp_thms)
qed

end
