(* ===== verification/LoaderProps.thy ===== *)
theory LoaderProps
  imports ElfLoad
begin

text \<open>
  The properties of the loaders, applied to the program on the sample volume.
\<close>

section \<open>The program on the sample volume\<close>

definition program :: "u8 list" where
  "program = fat_contents sample_bpb sample_drives 0 [5] sh_elf"

lemma program_nth: "length program = 88" "i < 88 \<Longrightarrow> program ! i = sample_byte (3072 + i)"
  by (simp_all add: program_def fat_contents_def sample_sh_elf sample_program_bytes)

lemma program_header:
  "elf_is_valid_header (read_ehdr (take 52 program))" "e_phoff (read_ehdr (take 52 program)) = 52"
  "e_phnum (read_ehdr (take 52 program)) = 1" "e_entry (read_ehdr (take 52 program)) = 0x400000"
  by (simp_all add: elf_is_valid_header_def read_ehdr_def slice_def program_nth elf_consts sample_eval chars)

definition program_phdr :: Elf32_Phdr where
  "program_phdr = \<lparr>p_type = 1, p_offset = 84, p_vaddr = 0x400000, p_paddr = 0, p_filesz = 4, p_memsz = 16, p_flags = 0, p_align = 0\<rparr>"

lemma program_loads: "loads program 52 1 = [program_phdr]"
proof -
  have "read_phdr (take 32 (drop 52 program)) = program_phdr"
    by (simp add: read_phdr_def program_phdr_def program_nth sample_eval)
  then show ?thesis by (simp add: loads_def program_phdr_def PT_LOAD_def)
qed

lemma program_segment: "segment_ok program program_phdr" "segment_cost program_phdr = 12336"
  "segment_bytes program program_phdr = [0xEB, 0xFE, 0x90, 0x90] @ replicate 12 0"
proof -
  show "segment_ok program program_phdr" by (simp add: segment_ok_def program_phdr_def program_nth aligned_unat)
  show "segment_cost program_phdr = 12336" by (simp add: segment_cost_def segment_pages_def program_phdr_def)
  have "take 4 (drop 84 program) = map (\<lambda>i. program ! (84 + i)) [0..<4]"
    by (rule nth_equalityI) (simp_all add: program_nth(1))
  also have "[0..<4] = [0, 1, 2, 3 :: nat]" by (simp add: upt_rec)
  finally have "take 4 (drop 84 program) = [0xEB, 0xFE, 0x90, 0x90]" by (simp add: program_nth sample_eval)
  then show "segment_bytes program program_phdr = [0xEB, 0xFE, 0x90, 0x90] @ replicate 12 0"
    by (simp add: segment_bytes_def program_phdr_def)
qed

section \<open>Properties\<close>

text \<open>C2: \<open>elf_load\<close> of the path of a well-formed ELF file on a FAT16 volume makes a process, last in the
  list, with the path as its name and the file's entry point. In its page directory user code reads, at every
  byte of every loadable segment, the byte that the file has for it, and zero behind the file's part of the segment;
  outside the segments and the screen every access of user code faults. The file is closed again, and owned memory stays.
  Well-formed: the headers lie in the file, segments start on page boundaries, lie on pages of their own, are not empty in the
  file and no larger there than in memory.\<close>

theorem elf_load_loads:
  fixes s :: "(ata, 'z) procs_scheme"
  assumes "heap_owns s L" and "fat_registered fss fa s" and "two_disks s" and "drive_ready (dev s)"
    and "isdigit c" and "terminated t" and "comps = path_components (str_of t)" and "\<forall>x \<in> set comps. length x < 256"
    and "dn = sint c - 48" and "dn \<le> 1" and "mount_code (dev s) dn = 0"
    and "b = read_boot_sector (bytes_at (dev s) dn 0 512)" and "volume_ok b (drive_size (dev s) dn)"
    and "walk b (dev s) dn 0 comps (Some it)" and "\<not> is_directory it"
    and "file_ok b (dev s) dn it cs" and "unat (filesize it) < 2147483648"
    and "first_free (file_descriptors s) = Some i" and "length (file_descriptors s) = 512"
    and "process_list s ps" and "set ps \<subseteq> fst ` L" and "length (str_of t) < 29"
    and "xs = fat_contents b (dev s) dn cs it"
    and "52 \<le> length xs" and "H = read_ehdr (take 52 xs)" and "elf_is_valid_header H"
    and "unat (e_phoff H) + 32 * unat (e_phnum H) \<le> length xs" and "phs = loads xs (unat (e_phoff H)) (unat (e_phnum H))"
    and "\<forall>ph \<in> set phs. segment_ok xs ph" and "apart phs"
    and "page_room s (296 * length comps + 1076)"
    and "unat (placement_address s) + 296 * length comps + 148820 + sum_list (map segment_cost phs) < 4294967296"
  shows "\<exists>p s' r dir. elf_load fss (c # 58 # 47 # t) p0 s = Some (0, p, s') \<and> process_list s' (ps @ [p]) \<and> procs s' p = Some r
    \<and> proc_ptr r = e_entry H \<and> str_of (proc_name r) = c # 58 # 47 # str_of t \<and> process_directory p s' = Some dir
    \<and> (\<forall>ph \<in> set phs. \<forall>j < unat (p_memsz ph). user_byte (mem s') dir (p_vaddr ph + of_nat j) = Some (segment_bytes xs ph ! j))
    \<and> (\<forall>v. (\<forall>ph \<in> set phs. \<not> covers ph v) \<longrightarrow> unat v div 4096 \<noteq> 184 \<longrightarrow> user_byte (mem s') dir v = None)
    \<and> file_descriptors s' = file_descriptors s \<and> keeps L (mem s) (mem s')"
  using assms by (rule elf_load_spec)

theorem elf_load_loads_witness:
  "\<exists>p s' r dir. elf_load (fat16_at 0x1000) (lit ''0:/bin/sh.elf'') 0 (boot_procs sample_drives) = Some (0, p, s')
    \<and> process_list s' [p] \<and> procs s' p = Some r \<and> proc_ptr r = 0x400000 \<and> process_directory p s' = Some dir
    \<and> user_byte (mem s') dir 0x400000 = Some 0xEB \<and> user_byte (mem s') dir 0x40000F = Some 0
    \<and> user_byte (mem s') dir 0x401000 = None"
proof -
  let ?s = "boot_procs sample_drives" and ?t = "lit ''bin/sh.elf''" and ?H = "read_ehdr (take 52 program)"
  let ?cs = "[bytes_of ''bin'', bytes_of ''sh.elf'']"
  have c: "?cs = path_components (str_of ?t)" by (simp add: chars component_unfold component_def)
  have p: "terminated ?t" "isdigit 48" "\<forall>x \<in> set ?cs. length x < 256" "length (str_of ?t) < 29" "(0 :: int) = sint (48 :: u8) - 48"
    by (simp_all add: chars isdigit_def bytes_of_def)
  have b: "sample_bpb = read_boot_sector (bytes_at (dev ?s) 0 0 512)" "program = fat_contents sample_bpb (dev ?s) 0 [5] sh_elf"
    by (simp_all add: sample_bpb_def program_def)
  have h: "52 \<le> length program" "unat (e_phoff ?H) + 32 * unat (e_phnum ?H) \<le> length program"
    "[program_phdr] = loads program (unat (e_phoff ?H)) (unat (e_phnum ?H))" "apart [program_phdr]"
    "\<forall>ph \<in> set [program_phdr]. segment_ok program ph"
    using program_loads program_segment(1) by (simp_all add: program_nth program_header apart_def)
  have r: "page_room ?s (296 * length ?cs + 1076)"
    "unat (placement_address ?s) + 296 * length ?cs + 148820 + sum_list (map segment_cost [program_phdr]) < 4294967296"
    by (simp_all add: page_room_def program_segment(2))
  have f: "first_free (file_descriptors ?s) = Some 0" "length (file_descriptors ?s) = 512" "mount_code (dev ?s) 0 = 0"
    "volume_ok sample_bpb (drive_size (dev ?s) 0)" "walk sample_bpb (dev ?s) 0 0 ?cs (Some sh_elf)" "file_ok sample_bpb (dev ?s) 0 sh_elf [5]"
    "unat (filesize sh_elf) < 2147483648" "drive_ready (dev ?s)"
    using sample_mount sample_walks(2) sample_files(2) by (simp_all add: sample_sh_elf)
  have e: "process_list ?s []" "set [] \<subseteq> fst ` ({} :: (u32 \<times> nat) set)" "(0 :: int) \<le> 1" by simp_all
  obtain p s' r dir where l: "elf_load (fat16_at 0x1000) (48 # 58 # 47 # ?t) 0 ?s = Some (0, p, s')" "process_list s' ([] @ [p])"
    "procs s' p = Some r" "proc_ptr r = e_entry ?H" "process_directory p s' = Some dir"
    "\<forall>ph \<in> set [program_phdr]. \<forall>j < unat (p_memsz ph). user_byte (mem s') dir (p_vaddr ph + of_nat j) = Some (segment_bytes program ph ! j)"
    "\<forall>v. (\<forall>ph \<in> set [program_phdr]. \<not> covers ph v) \<longrightarrow> unat v div 4096 \<noteq> 184 \<longrightarrow> user_byte (mem s') dir v = None"
    using elf_load_loads [OF boot_procs_owns boot_procs_simps(8,7) f(8) p(2,1) c p(3,5) e(3) f(3) b(1) f(4,5) sample_sh_elf(3) f(6,7,1,2)
      e(1,2) p(4) b(2) h(1) refl program_header(1) h(2,3,5,4) r, of 0] by (elim exE conjE) (rule that; assumption)
  have "lit ''0:/bin/sh.elf'' = 48 # 58 # 47 # ?t" by (simp add: chars)
  moreover have s: "\<forall>j<16. user_byte (mem s') dir (0x400000 + of_nat j) = Some (([0xEB, 0xFE, 0x90, 0x90] @ replicate 12 0) ! j)"
    using l(6) by (simp add: program_segment(3)) (simp add: program_phdr_def)
  moreover have "user_byte (mem s') dir 0x400000 = Some 0xEB" using s [rule_format, of 0] by simp
  moreover have "user_byte (mem s') dir 0x40000F = Some 0" using s [rule_format, of 15] by simp
  moreover have "user_byte (mem s') dir 0x401000 = None"
    using l(7) by (simp add: covers_def program_phdr_def segment_pages_def page_from_def)
  ultimately show ?thesis
    using l(1-5) by (intro exI [of _ p] exI [of _ s'] exI [of _ r] exI [of _ dir]) (simp add: program_header)
qed

section \<open>Files that are not loaded\<close>

text \<open>A kernel with the program open as descriptor 1, on drives whose bytes are \<open>f\<close>.\<close>

definition program_open :: "(nat \<Rightarrow> u8) \<Rightarrow> ata procs" where
  "program_open f = (boot_procs (drives_of f))\<lparr>
     disks := [\<lparr>disk_no = 0, fs_private = 0x10110\<rparr>, \<lparr>disk_no = 1, fs_private = 0\<rparr>],
     fat_privates := [0x10110 \<mapsto> \<lparr>bpb = sample_bpb, stream = 0x10010\<rparr>],
     streams := [0x10010 \<mapsto> \<lparr>pos = 510, disk_id = 0\<rparr>], fat_files := [0x10320 \<mapsto> fresh_file sh_elf],
     file_descriptors := 0x10400 # replicate 511 0,
     fds := [0x10400 \<mapsto> \<lparr>index = 1, filesystem = 0x1000, fd_private = 0x10320, fd_disk = 0\<rparr>]\<rparr>"

lemma program_open_simps [simp]:
  "placement_address (program_open f) = 0x20000" "heap_owns (program_open f) {}" "process_list (program_open f) []"
proof -
  show "placement_address (program_open f) = 0x20000" by (simp add: program_open_def)
  show "heap_owns (program_open f) {}" using heap_owns_same [of "program_open f" "boot_procs (drives_of f)" "{}"] by (simp add: program_open_def)
  show "process_list (program_open f) []" using process_list_same [of "program_open f" "boot_procs (drives_of f)" "[]"] by (simp add: program_open_def)
qed

lemma program_open_reading:
  assumes "f 522 = 0xFF" "f 523 = 0xFF"
  shows "reading (program_open f) (fat16_at 0x1000) 1 (map (\<lambda>i. f (3072 + i)) [0..<88]) 0"
proof -
  let ?s = "program_open f" and ?d = "\<lparr>index = 1, filesystem = 0x1000, fd_private = 0x10320, fd_disk = 0\<rparr>"
  have "fat_next sample_bpb (drives_of f) 0 5 = 0xFFFF" using assms by (simp add: fat_next_def fat_pos_def le16_def)
  then have "file_ok sample_bpb (drives_of f) 0 sh_elf [5]" by (simp add: file_ok_def sample_sh_elf cluster_ok_def)
  note ok = fresh_file_ok [OF this]
  have dev: "dev ?s = drives_of f" by (simp add: program_open_def)
  have "fat_contents sample_bpb (drives_of f) 0 [5] sh_elf = map (\<lambda>i. f (3072 + i)) [0..<88]"
    by (simp add: fat_contents_def sample_sh_elf file_byte_def)
  then have "fat_is_file ?s 0 0x10320 (map (\<lambda>i. f (3072 + i)) [0..<88]) 0"
    unfolding fat_is_file_def dev using ok
    by (intro exI [of _ sample_bpb] exI [of _ "0x10010"] exI [of _ 0] exI [of _ 510] exI [of _ "[5]"] exI [of _ "fresh_file sh_elf"])
      (simp add: program_open_def mounted_def private_of_def rd_def fresh_file_def sample_sh_elf)
  moreover have "open_fd ?s 1 ?d" by (simp add: open_fd_def fs_get_descriptor_def MAX_FILE_DESCRIPTORS_def rd_def program_open_def)
  ultimately show ?thesis unfolding reading_def by (intro exI [of _ ?d]) (simp add: fat16_at_def)
qed

text \<open>C25: The name of a process has room for 31 characters, but \<open>elf_load\<close> copies the whole path there: with a
  longer path it writes past the process's \<open>name\<close>, on any file with a valid header.\<close>

theorem elf_load_name_overflows:
  fixes s :: "(ata, 'z) procs_scheme"
  assumes "reading s fss fd xs 0" and "heap_owns s L" and "process_list s ps" and "set ps \<subseteq> fst ` L"
    and "unat (placement_address s) + 112 < 4294967296" and "52 \<le> length xs" and "elf_is_valid_header (read_ehdr (take 52 xs))"
    and "terminated fname" and "32 \<le> length (str_of fname)"
  shows "elf_load_fd fss fname fd p0 s = None"
proof -
  have "unat (52 :: u32) = 52" "(52 :: nat) \<noteq> 0" "(52 :: nat) \<le> 2147483648" by simp_all
  from reading_fread [OF assms(1) this] assms(6)
  obtain s1 where s1: "fread fss 52 1 fd s = Some (1, take 52 xs, s1)" "file_io s s1" by auto
  note f1 = file_ioD [OF s1(2)] load_onlyD [OF file_io_load [OF s1(2)]]
  have own1: "heap_owns s1 L" using assms(2) heap_owns_same [of s1 s] f1 by simp
  have pl1: "process_list s1 ps" using assms(3) process_list_same [of s1 s] f1 by simp
  have "unat (placement_address s1) + 112 < 4294967296" using assms(5) f1 by simp
  note k0 = process_alloc_spec [OF pl1 own1 assms(4) this, of 0]
  obtain p s2 where a: "process_alloc 0 s1 = Some (0, p, s2)"
    "procs s2 p = Some (zero_process\<lparr>proc_id := word_of_int (current_id s1 + 1)\<rparr>)" by (rule k0) blast
  have "set_name p fname s2 = None" using set_name_spec [OF a(2) _ assms(8)] assms(9) by (simp add: zero_process_def)
  then show ?thesis using s1(1) a(1) assms(7) by (simp add: elf_load_fd_def Let_def)
qed

theorem elf_load_name_overflows_witness:
  "elf_load_fd (fat16_at 0x1000) (replicate 32 65 @ [0]) 1 0 (program_open sample_byte) = None"
proof -
  let ?xs = "map (\<lambda>i. sample_byte (3072 + i)) [0..<88]"
  have r: "reading (program_open sample_byte) (fat16_at 0x1000) 1 ?xs 0" by (rule program_open_reading) (simp_all add: sample_eval)
  have "?xs = program" by (simp add: program_def fat_contents_def sample_sh_elf sample_program_bytes)
  then have "elf_is_valid_header (read_ehdr (take 52 ?xs))" using program_header(1) by simp
  moreover have "terminated (replicate 32 65 @ [0 :: u8])" "32 \<le> length (str_of (replicate 32 65 @ [0]))"
    by (simp_all add: terminated_def str_of_append)
  ultimately show ?thesis using elf_load_name_overflows [OF r, of "{}" "[]"] by simp
qed



lemma reading_fread_0:
  assumes "reading s fss fd xs i"
  shows "fread fss 0 1 fd s = Some (0, [], s)"
proof -
  obtain d where d: "open_fd s fd d" "fss (filesystem d) = Some (fat16_fs ata_io)" "fat_is_file s (fd_disk d) (fd_private d) xs i"
    using assms by (auto simp: reading_def)
  obtain b st dn cs f where f: "mounted (fd_disk d) b st dn (dev s) s" "fat_files s (fd_private d) = Some f" "open_file_ok b (dev s) dn cs f"
    using d(3) unfolding fat_is_file_def by blast
  have "file_pos f \<le> filesize (desc_item f)" using f(3) by (simp add: open_file_ok_def)
  then have "fat16_read ata_io (fd_disk d) (fd_private d) 0 1 s = Some (0, [], s)"
    using f(1,2) by (simp add: fat16_read_def mounted_def Let_def not_less [symmetric])
  then show ?thesis using d(1,2) by (auto simp: fread_def with_descriptor_def open_fd_def fat16_fs_def)
qed


definition zero_segment_byte :: "nat \<Rightarrow> u8" where
  "zero_segment_byte n = (if n = 3140 then 0 else sample_byte n)"


end
