(* ===== verification/Spec2Isabelle.thy ===== *)
theory Spec2Isabelle
  imports Kernel TaskUser LoaderProps
begin

text \<open>
  A model of the VibeKernel-x86 kernel.
\<close>

end
